(* ===== verification/Prelude.thy ===== *)
theory Prelude
  imports
    Main
    "HOL-Library.Word"
    "HOL-Library.AList"
    "HOL-Library.Multiset"
    "HOL-Library.Signed_Division"
    "HOL-Library.List_Lexorder"
    "HOL-Library.Product_Lexorder"
begin

text \<open>
  Shared vocabulary of the development: the machine integers of the Rust sources with their
  checked and saturating operations, results as sums, stateful fallible operations, hash maps as
  association lists with their contract, and the lemma collections the component theories use.

  \<^item> \<open>u8\<close>, \<open>u16\<close>, \<open>u32\<close>, \<open>u64\<close>, \<open>u128\<close>, \<open>i32\<close> and \<open>i64\<close> are words of that width. An unsigned
    word is read by \<open>uint\<close> and compared by the word order, a signed one is read and compared
    through \<open>sint\<close>.
  \<^item> Rust's \<open>i128\<close> intermediates (products of two \<open>i64\<close>, sums of at most \<open>usize\<close> many of them) are
    \<open>int\<close>: they never leave the range of \<open>i128\<close>.
  \<^item> \<open>Result<T, E>\<close> is \<open>E + T\<close>, with \<open>Inl\<close> for the error.
  \<^item> A method on \<open>&mut self\<close> returning a \<open>Result\<close> is a function from the state to the result
    and the new state, so that what is written before an early return stays written.
  \<^item> A panic (overflow checks are on in every profile) is \<open>None\<close>.
\<close>

subsection \<open>Machine integers\<close>

type_synonym u8 = "8 word"
type_synonym u16 = "16 word"
type_synonym u32 = "32 word"
type_synonym u64 = "64 word"
type_synonym u128 = "128 word"
type_synonym i32 = "32 word"
type_synonym i64 = "64 word"

named_theorems i64_simps \<open>facts about the checked and saturating i64 operations\<close>

definition i64_min :: int where
  "i64_min = - 9223372036854775808"

definition i64_max :: int where
  "i64_max = 9223372036854775807"

definition in_i64 :: "int \<Rightarrow> bool" where
  "in_i64 x \<longleftrightarrow> i64_min \<le> x \<and> x \<le> i64_max"

text \<open>\<open>i64::try_from\<close> of a wider integer.\<close>

definition to_i64 :: "int \<Rightarrow> i64 option" where
  "to_i64 x = (if in_i64 x then Some (word_of_int x) else None)"

definition checked_add_i64 :: "i64 \<Rightarrow> i64 \<Rightarrow> i64 option" where
  "checked_add_i64 a b = to_i64 (sint a + sint b)"

definition checked_sub_i64 :: "i64 \<Rightarrow> i64 \<Rightarrow> i64 option" where
  "checked_sub_i64 a b = to_i64 (sint a - sint b)"

definition checked_mul_i64 :: "i64 \<Rightarrow> i64 \<Rightarrow> i64 option" where
  "checked_mul_i64 a b = to_i64 (sint a * sint b)"

definition sat_i64 :: "int \<Rightarrow> i64" where
  "sat_i64 x = (if x < i64_min then word_of_int i64_min
                else if i64_max < x then word_of_int i64_max else word_of_int x)"

definition saturating_add_i64 :: "i64 \<Rightarrow> i64 \<Rightarrow> i64" where
  "saturating_add_i64 a b = sat_i64 (sint a + sint b)"

definition saturating_sub_i64 :: "i64 \<Rightarrow> i64 \<Rightarrow> i64" where
  "saturating_sub_i64 a b = sat_i64 (sint a - sint b)"

definition saturating_mul_i64 :: "i64 \<Rightarrow> i64 \<Rightarrow> i64" where
  "saturating_mul_i64 a b = sat_i64 (sint a * sint b)"

definition saturating_abs_i64 :: "i64 \<Rightarrow> i64" where
  "saturating_abs_i64 a = sat_i64 \<bar>sint a\<bar>"

definition saturating_add_u64 :: "u64 \<Rightarrow> u64 \<Rightarrow> u64" where
  "saturating_add_u64 a b = (if uint a + uint b < 2 ^ 64 then a + b else -1)"

definition saturating_sub_u64 :: "u64 \<Rightarrow> u64 \<Rightarrow> u64" where
  "saturating_sub_u64 a b = (if b \<le> a then a - b else 0)"

definition saturating_mul_u64 :: "u64 \<Rightarrow> u64 \<Rightarrow> u64" where
  "saturating_mul_u64 a b = (if uint a * uint b < 2 ^ 64 then a * b else -1)"

lemma sint_i64_range: "i64_min \<le> sint (a :: i64)" "sint (a :: i64) \<le> i64_max"
  using sint_ge [of a] sint_lt [of a] by (simp_all add: i64_min_def i64_max_def)

lemma in_i64_sint [simp]: "in_i64 (sint (a :: i64))"
  by (simp add: in_i64_def sint_i64_range)

lemma sint_word_of_i64 [i64_simps]: "in_i64 x \<Longrightarrow> sint (word_of_int x :: i64) = x"
  by (simp add: in_i64_def i64_min_def i64_max_def signed_of_int signed_take_bit_int_eq_self)

lemma to_i64_Some [i64_simps]: "to_i64 x = Some r \<longleftrightarrow> sint r = x"
  by (auto simp: to_i64_def sint_word_of_i64 split: if_splits)

lemma to_i64_None [i64_simps]: "to_i64 x = None \<longleftrightarrow> \<not> in_i64 x"
  by (simp add: to_i64_def)

lemma to_i64_sint [simp]: "to_i64 (sint r) = Some r"
  by (simp add: to_i64_Some)

lemma checked_add_i64_Some [i64_simps]:
  "checked_add_i64 a b = Some r \<longleftrightarrow> sint r = sint a + sint b"
  by (simp add: checked_add_i64_def to_i64_Some)

lemma checked_sub_i64_Some [i64_simps]:
  "checked_sub_i64 a b = Some r \<longleftrightarrow> sint r = sint a - sint b"
  by (simp add: checked_sub_i64_def to_i64_Some)

lemma checked_mul_i64_Some [i64_simps]:
  "checked_mul_i64 a b = Some r \<longleftrightarrow> sint r = sint a * sint b"
  by (simp add: checked_mul_i64_def to_i64_Some)

lemma sint_sat_i64 [i64_simps]: "sint (sat_i64 x) = max i64_min (min i64_max x)"
proof -
  have "in_i64 i64_min" "in_i64 i64_max"
    by (simp_all add: in_i64_def i64_min_def i64_max_def)
  moreover have "i64_min \<le> i64_max" by (simp add: i64_min_def i64_max_def)
  ultimately show ?thesis
    by (auto simp: sat_i64_def sint_word_of_i64 in_i64_def)
qed

lemma sint_saturating_abs [i64_simps]:
  "sint (saturating_abs_i64 a) = min i64_max \<bar>sint a\<bar>"
  using sint_i64_range [of a] by (auto simp: saturating_abs_i64_def sint_sat_i64 i64_min_def i64_max_def)

lemma sint_eq_iff: "sint a = sint b \<longleftrightarrow> a = (b :: i64)"
  by (rule signed_word_eqI [THEN iffI]) simp_all

text \<open>Rust's integer division truncates toward zero.\<close>

lemma sdiv_pos: "0 < s \<Longrightarrow> x sdiv s = (if 0 \<le> x then x div s else - ((- x) div s))" for x s :: int
  by (auto simp: signed_divide_int_def sgn_if)

lemma sdiv_bounds:
  fixes x s :: int
  assumes "0 < s"
  shows "\<bar>x sdiv s * s\<bar> \<le> \<bar>x\<bar>" and "\<bar>x - x sdiv s * s\<bar> < s"
    and "0 \<le> x \<Longrightarrow> 0 \<le> x sdiv s" and "x \<le> 0 \<Longrightarrow> x sdiv s \<le> 0"
proof -
  have *: "0 \<le> y \<Longrightarrow> 0 \<le> y div s \<and> y div s * s \<le> y \<and> y - y div s * s < s" for y :: int
    using assms pos_mod_bound [of s y] pos_mod_sign [of s y] div_mult_mod_eq [of y s]
      pos_imp_zdiv_nonneg_iff [of s y] by linarith
  have "0 \<le> (y div s) * s" if "0 \<le> y" for y :: int
    using that assms by (simp add: pos_imp_zdiv_nonneg_iff)
  note ** = this
  show "\<bar>x sdiv s * s\<bar> \<le> \<bar>x\<bar>" "\<bar>x - x sdiv s * s\<bar> < s"
    using * [of x] ** [of x] * [of "- x"] ** [of "- x"] assms
    by (auto simp: sdiv_pos abs_if)
  show "0 \<le> x \<Longrightarrow> 0 \<le> x sdiv s" "x \<le> 0 \<Longrightarrow> x sdiv s \<le> 0"
    using * [of x] * [of "- x"] assms by (auto simp: sdiv_pos)
qed

subsection \<open>Results\<close>

definition res_bind :: "'e + 'a \<Rightarrow> ('a \<Rightarrow> 'e + 'b) \<Rightarrow> 'e + 'b" where
  "res_bind r f = (case r of Inl e \<Rightarrow> Inl e | Inr x \<Rightarrow> f x)"

definition ok_or :: "'e \<Rightarrow> 'a option \<Rightarrow> 'e + 'a" where
  "ok_or e x = (case x of None \<Rightarrow> Inl e | Some y \<Rightarrow> Inr y)"

definition map_err :: "('e \<Rightarrow> 'f) \<Rightarrow> 'e + 'a \<Rightarrow> 'f + 'a" where
  "map_err f r = (case r of Inl e \<Rightarrow> Inl (f e) | Inr x \<Rightarrow> Inr x)"

definition is_ok :: "'e + 'a \<Rightarrow> bool" where
  "is_ok r = (case r of Inl _ \<Rightarrow> False | Inr _ \<Rightarrow> True)"

lemma res_bind_simps [simp]:
  "res_bind (Inl e) f = Inl e" "res_bind (Inr x) f = f x"
  by (simp_all add: res_bind_def)

lemma res_bind_Inr [simp]: "res_bind r f = Inr y \<longleftrightarrow> (\<exists>x. r = Inr x \<and> f x = Inr y)"
  by (cases r) simp_all

lemma res_bind_Inl: "res_bind r f = Inl e \<longleftrightarrow> r = Inl e \<or> (\<exists>x. r = Inr x \<and> f x = Inl e)"
  by (cases r) simp_all

lemma ok_or_simps [simp]:
  "ok_or e None = Inl e" "ok_or e (Some y) = Inr y"
  "ok_or e x = Inr z \<longleftrightarrow> x = Some z"
  "ok_or e x = Inl e' \<longleftrightarrow> x = None \<and> e' = e"
  by (auto simp: ok_or_def split: option.splits)

lemma map_err_simps [simp]:
  "map_err f (Inl e) = Inl (f e)" "map_err f (Inr x) = Inr x"
  "map_err f r = Inr y \<longleftrightarrow> r = Inr y"
  by (auto simp: map_err_def split: sum.splits)

lemma is_ok_simps [simp]: "is_ok (Inr x)" "\<not> is_ok (Inl e)"
  by (simp_all add: is_ok_def)

lemma is_ok_iff: "is_ok r \<longleftrightarrow> (\<exists>x. r = Inr x)"
  by (cases r) simp_all

subsection \<open>Stateful fallible operations\<close>

type_synonym ('s, 'e, 'a) op = "'s \<Rightarrow> ('e + 'a) \<times> 's"

definition op_ok :: "'a \<Rightarrow> ('s, 'e, 'a) op" where
  "op_ok x s = (Inr x, s)"

definition op_err :: "'e \<Rightarrow> ('s, 'e, 'a) op" where
  "op_err e s = (Inl e, s)"

definition op_modify :: "('s \<Rightarrow> 's) \<Rightarrow> ('s, 'e, unit) op" where
  "op_modify f s = (Inr (), f s)"

text \<open>The question mark on a result of an operation that does not touch the state.\<close>

definition op_lift :: "'e + 'a \<Rightarrow> ('s, 'e, 'a) op" where
  "op_lift r s = (r, s)"

definition op_bind :: "('s, 'e, 'a) op \<Rightarrow> ('a \<Rightarrow> ('s, 'e, 'b) op) \<Rightarrow> ('s, 'e, 'b) op" where
  "op_bind m f s = (case m s of (Inl e, s') \<Rightarrow> (Inl e, s') | (Inr x, s') \<Rightarrow> f x s')"

definition op_seq :: "('s, 'e, 'a) op \<Rightarrow> ('s, 'e, 'b) op \<Rightarrow> ('s, 'e, 'b) op" where
  "op_seq m n = op_bind m (\<lambda>_. n)"

definition op_read :: "('s \<Rightarrow> ('s, 'e, 'a) op) \<Rightarrow> ('s, 'e, 'a) op" where
  "op_read f s = f s s"

fun op_for :: "('x \<Rightarrow> ('s, 'e, unit) op) \<Rightarrow> 'x list \<Rightarrow> ('s, 'e, unit) op" where
  "op_for f [] = op_ok ()"
| "op_for f (x # xs) = op_seq (f x) (op_for f xs)"

text \<open>A relation between the state before and after that an operation keeps, on every path.\<close>

definition keeps :: "('s \<Rightarrow> 's \<Rightarrow> bool) \<Rightarrow> ('s, 'e, 'a) op \<Rightarrow> bool" where
  "keeps R m \<longleftrightarrow> (\<forall>s. R s (snd (m s)))"

text \<open>Reflexive and transitive relations: the ones that compose along a sequence of operations.\<close>

definition preorder_rel :: "('s \<Rightarrow> 's \<Rightarrow> bool) \<Rightarrow> bool" where
  "preorder_rel R \<longleftrightarrow> reflp R \<and> transp R"

named_theorems keeps_intros \<open>compositional rules for what an operation keeps\<close>

lemma keeps_ok [keeps_intros]: "preorder_rel R \<Longrightarrow> keeps R (op_ok x)"
  by (simp add: keeps_def op_ok_def preorder_rel_def reflp_def)

lemma keeps_err [keeps_intros]: "preorder_rel R \<Longrightarrow> keeps R (op_err x)"
  by (simp add: keeps_def op_err_def preorder_rel_def reflp_def)

lemma keeps_lift [keeps_intros]: "preorder_rel R \<Longrightarrow> keeps R (op_lift r)"
  by (simp add: keeps_def op_lift_def preorder_rel_def reflp_def)

lemma keeps_modify [keeps_intros]: "(\<And>s. R s (f s)) \<Longrightarrow> keeps R (op_modify f)"
  by (simp add: keeps_def op_modify_def)

lemma keeps_bind [keeps_intros]:
  assumes "preorder_rel R" "keeps R m" "\<And>x. keeps R (f x)"
  shows "keeps R (op_bind m f)"
  unfolding keeps_def
proof
  fix s
  obtain r s' where m: "m s = (r, s')" by (cases "m s")
  with assms(2) have 1: "R s s'" by (metis keeps_def snd_conv)
  show "R s (snd (op_bind m f s))"
  proof (cases r)
    case Inl
    with m 1 show ?thesis by (simp add: op_bind_def)
  next
    case (Inr x)
    have "R s' (snd (f x s'))" using assms(3) by (simp add: keeps_def)
    with 1 assms(1) have "R s (snd (f x s'))" by (auto simp: preorder_rel_def dest: transpD)
    with m Inr show ?thesis by (simp add: op_bind_def)
  qed
qed

lemma keeps_seq [keeps_intros]:
  "preorder_rel R \<Longrightarrow> keeps R m \<Longrightarrow> keeps R n \<Longrightarrow> keeps R (op_seq m n)"
  unfolding op_seq_def by (rule keeps_bind)

lemma keeps_read: "(\<And>t. R t (snd (f t t))) \<Longrightarrow> keeps R (op_read f)"
  by (simp add: keeps_def op_read_def)

lemma keeps_read_all [keeps_intros]: "(\<And>t. keeps R (f t)) \<Longrightarrow> keeps R (op_read f)"
  by (simp add: keeps_def op_read_def)

lemma keeps_for [keeps_intros]:
  "preorder_rel R \<Longrightarrow> (\<And>x. keeps R (f x)) \<Longrightarrow> keeps R (op_for f xs)"
  by (induction xs) (auto intro: keeps_ok keeps_seq)

lemma keepsD: "keeps R m \<Longrightarrow> m s = (r, s') \<Longrightarrow> R s s'"
  by (metis keeps_def snd_conv)

text \<open>An invariant, as the relation "if it held before, it holds after".\<close>

definition stable :: "('s \<Rightarrow> bool) \<Rightarrow> 's \<Rightarrow> 's \<Rightarrow> bool" where
  "stable P s s' \<longleftrightarrow> (P s \<longrightarrow> P s')"

lemma preorder_stable [simp]: "preorder_rel (stable P)"
  by (simp add: preorder_rel_def stable_def reflp_def transp_def)

text \<open>A field or projection an operation leaves alone.\<close>

definition same_of :: "('s \<Rightarrow> 'b) \<Rightarrow> 's \<Rightarrow> 's \<Rightarrow> bool" where
  "same_of f s s' \<longleftrightarrow> f s' = f s"

lemma preorder_same_of [simp]: "preorder_rel (same_of f)"
  by (simp add: preorder_rel_def same_of_def reflp_def transp_def)

lemma op_bind_Inr: "op_bind m f s = (Inr y, t) \<longleftrightarrow> (\<exists>x u. m s = (Inr x, u) \<and> f x u = (Inr y, t))"
  by (auto simp: op_bind_def split: prod.splits sum.splits)

lemma op_ok_Inr [simp]: "op_ok x s = (Inr y, t) \<longleftrightarrow> y = x \<and> t = s"
  by (auto simp: op_ok_def)

lemma op_lift_Inr [simp]: "op_lift r bs = (Inr y, t) \<longleftrightarrow> r = Inr y \<and> t = bs"
  by (auto simp: op_lift_def)

lemma op_err_Inr [simp]: "op_err e s \<noteq> (Inr y, t)"
  by (simp add: op_err_def)

lemma op_modify_Inr [simp]: "op_modify f s = (Inr x, t) \<longleftrightarrow> t = f s"
  by (auto simp: op_modify_def)

lemma op_seq_Inr: "op_seq m n s = (Inr y, t) \<longleftrightarrow> (\<exists>x u. m s = (Inr x, u) \<and> n u = (Inr y, t))"
  by (simp add: op_seq_def op_bind_Inr)

lemma op_read_eq: "op_read f s = f s s"
  by (simp add: op_read_def)

lemma op_bind_lift_Inr:
  "op_bind (op_lift r) f s = (Inr y, t) \<longleftrightarrow> (\<exists>x. r = Inr x \<and> f x s = (Inr y, t))"
  by (simp add: op_bind_Inr)

lemma op_seq_modify: "op_seq (op_modify g) m s = m (g s)"
  by (simp add: op_seq_def op_bind_def op_modify_def)

lemma op_bind_assoc: "op_bind (op_bind m f) g = op_bind m (\<lambda>x. op_bind (f x) g)"
  by (auto simp: op_bind_def fun_eq_iff split: prod.splits sum.splits)

text \<open>The successful path of an operation, read off step by step.\<close>

lemmas op_flow = op_bind_lift_Inr op_seq_modify op_read_eq op_modify_Inr op_ok_Inr op_lift_Inr

lemmas op_defs = op_ok_def op_err_def op_lift_def op_modify_def op_bind_def op_seq_def op_read_def

subsection \<open>Machines: a step per command, run over a list of commands\<close>

text \<open>
  The writer applies a batch of commands one after the other and goes on after an error that is
  not fatal, so a run is the composition of the state changes of the single commands.
\<close>

fun run_ops :: "('c \<Rightarrow> ('s, 'e, 'a) op) \<Rightarrow> 'c list \<Rightarrow> 's \<Rightarrow> 's" where
  "run_ops step [] s = s"
| "run_ops step (c # cs) s = run_ops step cs (snd (step c s))"

locale machine =
  fixes step :: "'c \<Rightarrow> ('s, 'e, 'a) op"
    and invar :: "'s \<Rightarrow> bool"
  assumes step_invar: "invar s \<Longrightarrow> invar (snd (step c s))"
begin

lemma run_invar: "invar s \<Longrightarrow> invar (run_ops step cs s)"
  by (induction cs arbitrary: s) (auto intro: step_invar)

lemma run_append_invar: "invar s \<Longrightarrow> invar (run_ops step (cs @ ds) s)"
  by (rule run_invar)

end

subsection \<open>Hash maps\<close>

text \<open>
  \<open>std::collections::HashMap\<close> is an association list with distinct keys. Its iteration order is
  unspecified; the sources sort every iteration whose order reaches an output, and so does the
  model (\<open>hm_sorted\<close>).
\<close>

type_synonym ('k, 'v) hashmap = "('k \<times> 'v) list"

definition hm_get :: "('k, 'v) hashmap \<Rightarrow> 'k \<Rightarrow> 'v option" where
  "hm_get m k = map_of m k"

definition hm_contains :: "('k, 'v) hashmap \<Rightarrow> 'k \<Rightarrow> bool" where
  "hm_contains m k = (case hm_get m k of None \<Rightarrow> False | Some _ \<Rightarrow> True)"

definition hm_insert :: "'k \<Rightarrow> 'v \<Rightarrow> ('k, 'v) hashmap \<Rightarrow> ('k, 'v) hashmap" where
  "hm_insert k v m = AList.update k v m"

definition hm_remove :: "'k \<Rightarrow> ('k, 'v) hashmap \<Rightarrow> ('k, 'v) hashmap" where
  "hm_remove k m = AList.delete k m"

definition hm_sorted :: "('k :: linorder, 'v) hashmap \<Rightarrow> ('k \<times> 'v) list" where
  "hm_sorted m = sort_key fst m"

definition hm_wf :: "('k, 'v) hashmap \<Rightarrow> bool" where
  "hm_wf m = distinct (map fst m)"

locale keyed_store =
  fixes get :: "'m \<Rightarrow> 'k \<Rightarrow> 'v option"
    and insert :: "'k \<Rightarrow> 'v \<Rightarrow> 'm \<Rightarrow> 'm"
    and remove :: "'k \<Rightarrow> 'm \<Rightarrow> 'm"
    and entries :: "'m \<Rightarrow> ('k \<times> 'v) list"
    and wf :: "'m \<Rightarrow> bool"
  assumes get_insert: "get (insert k v m) k' = (if k' = k then Some v else get m k')"
    and get_remove: "wf m \<Longrightarrow> get (remove k m) k' = (if k' = k then None else get m k')"
    and wf_insert: "wf m \<Longrightarrow> wf (insert k v m)"
    and wf_remove: "wf m \<Longrightarrow> wf (remove k m)"
    and entries_get: "wf m \<Longrightarrow> (k, v) \<in> set (entries m) \<longleftrightarrow> get m k = Some v"
    and entries_distinct: "wf m \<Longrightarrow> distinct (map fst (entries m))"
begin

lemma insert_commute: "k \<noteq> k' \<Longrightarrow> get (insert k v (insert k' v' m)) = get (insert k' v' (insert k v m))"
  by (auto simp: get_insert)

lemma insert_idem: "get (insert k v (insert k v' m)) = get (insert k v m)"
  by (auto simp: get_insert)

lemma entries_keys: "wf m \<Longrightarrow> k \<in> fst ` set (entries m) \<longleftrightarrow> get m k \<noteq> None"
  by (auto simp: entries_get image_iff) (metis entries_get fst_conv)

lemma entries_insert:
  "wf m \<Longrightarrow> set (entries (insert k v m)) = Set.insert (k, v) {e \<in> set (entries m). fst e \<noteq> k}"
  by (auto simp: entries_get get_insert wf_insert split: if_splits)

end

lemma hm_get_insert [simp]: "hm_get (hm_insert k v m) k' = (if k' = k then Some v else hm_get m k')"
  by (simp add: hm_get_def hm_insert_def update_conv')

lemma hm_get_Nil [simp]: "hm_get [] k = None"
  by (simp add: hm_get_def)

lemma hm_get_remove [simp]: "hm_get (hm_remove k m) k' = (if k' = k then None else hm_get m k')"
  by (simp add: hm_get_def hm_remove_def delete_conv')

lemma hm_wf_Nil [simp]: "hm_wf []"
  by (simp add: hm_wf_def)

lemma hm_wf_insert [simp]: "hm_wf m \<Longrightarrow> hm_wf (hm_insert k v m)"
  by (simp add: hm_wf_def hm_insert_def distinct_update)

lemma hm_wf_remove [simp]: "hm_wf m \<Longrightarrow> hm_wf (hm_remove k m)"
  by (simp add: hm_wf_def hm_remove_def distinct_delete)

lemma hm_contains_iff [simp]: "hm_contains m k \<longleftrightarrow> hm_get m k \<noteq> None"
  by (auto simp: hm_contains_def split: option.splits)

lemma hm_sorted_set: "hm_wf m \<Longrightarrow> (k, v) \<in> set (hm_sorted m) \<longleftrightarrow> hm_get m k = Some v"
  by (simp add: hm_sorted_def hm_get_def hm_wf_def)

lemma hm_sorted_distinct: "hm_wf m \<Longrightarrow> distinct (map fst (hm_sorted m))"
  unfolding hm_sorted_def hm_wf_def
  by (metis mset_map mset_eq_imp_distinct_iff mset_sort)

interpretation hm: keyed_store hm_get hm_insert hm_remove "hm_sorted :: ('k :: linorder \<times> 'v) list \<Rightarrow> _" hm_wf
  by unfold_locales (auto simp: hm_sorted_set hm_sorted_distinct)

text \<open>A fresh key is appended, which is what makes sums over a map easy to follow.\<close>

lemma hm_insert_fresh: "hm_get m k = None \<Longrightarrow> hm_insert k v m = m @ [(k, v)]"
  by (induction m) (auto simp: hm_get_def hm_insert_def split: if_splits)

end
