(* ===== verification/Fixed.thy ===== *)
theory Fixed
  imports Prelude
begin

text \<open>
  Fixed-point decimals at 1e8 (\<open>sentinel-types/src/fixed.rs\<close>): the decimal parser and printer, the
  operations the \<open>e8_newtype!\<close> macro gives to \<open>Price\<close>, \<open>Qty\<close> and \<open>Money\<close>, and the one
  multiplication, \<open>Price::notional\<close>.

  The three newtypes share one representation, raw 1e8 units in an \<open>i64\<close>, and are type synonyms
  here: that they cannot be mixed up is checked by the Rust compiler, and every definition below
  says which one it takes. Text is its UTF-8 bytes. The operators \<open>+\<close>, \<open>-\<close> and unary \<open>-\<close> panic on
  overflow and are option-valued.

  Shown here: printing and parsing back is the identity on every \<open>i64\<close>, a parsed value is exactly
  the decimal that was written (never rounded), and \<open>notional\<close> rounds toward zero by less than one
  unit.
\<close>

type_synonym price = i64
type_synonym qty = i64
type_synonym money = i64
type_synonym str = "u8 list"

definition SCALE :: int where
  "SCALE = 100000000"

definition SCALE_DIGITS :: nat where
  "SCALE_DIGITS = 8"

datatype parse_error = Empty | Malformed | TooPrecise | OutOfRange

datatype overflow = Overflow

definition MAX_MAGNITUDE :: int where
  "MAX_MAGNITUDE = i64_max + 1"

definition MAX_WHOLE :: int where
  "MAX_WHOLE = 92233720368"

definition is_ascii_digit :: "u8 \<Rightarrow> bool" where
  "is_ascii_digit b \<longleftrightarrow> 48 \<le> b \<and> b \<le> 57"

text \<open>The two loops of \<open>parse_e8\<close>: the integral part up to a point, then the fractional part.\<close>

fun parse_whole :: "u8 list \<Rightarrow> int \<Rightarrow> bool \<Rightarrow> parse_error + (int \<times> bool \<times> u8 list)" where
  "parse_whole [] magnitude seen = Inr (magnitude, seen, [])"
| "parse_whole (d # ds) magnitude seen =
     (if d = 46 then Inr (magnitude, seen, d # ds)
      else if \<not> is_ascii_digit d then Inl Malformed
      else let magnitude' = magnitude * 10 + uint (d - 48)
           in if magnitude' > MAX_WHOLE then Inl OutOfRange
              else parse_whole ds magnitude' True)"

fun parse_frac :: "u8 list \<Rightarrow> int \<Rightarrow> nat \<Rightarrow> int \<Rightarrow> bool \<Rightarrow> parse_error + (int \<times> nat \<times> bool)" where
  "parse_frac [] place digits magnitude seen = Inr (magnitude, digits, seen)"
| "parse_frac (d # ds) place digits magnitude seen =
     (if \<not> is_ascii_digit d then Inl Malformed
      else if digits + 1 > SCALE_DIGITS
           then if d \<noteq> 48 then Inl TooPrecise
                else parse_frac ds place (digits + 1) magnitude seen
           else let place' = place div 10
                in parse_frac ds place' (digits + 1) (magnitude + uint (d - 48) * place') True)"

definition parse_e8 :: "str \<Rightarrow> parse_error + i64" where
  "parse_e8 b =
     (case b of [] \<Rightarrow> Inl Empty
      | c # rest \<Rightarrow>
          let negative = (c = 45); body = (if c = 45 \<or> c = 43 then rest else b)
          in if body = [] then Inl Empty
             else res_bind (parse_whole body 0 False) (\<lambda>(whole, seen, tail).
               res_bind
                 (case tail of [] \<Rightarrow> Inr (whole * SCALE, seen)
                  | _ # fs \<Rightarrow> res_bind (parse_frac fs SCALE 0 (whole * SCALE) seen)
                      (\<lambda>(magnitude, digits, seen').
                         if digits = 0 then Inl Malformed else Inr (magnitude, seen')))
                 (\<lambda>(magnitude, seen').
                    if \<not> seen' then Inl Empty
                    else if negative
                         then if magnitude > MAX_MAGNITUDE then Inl OutOfRange
                              else Inr (word_of_int (- magnitude))
                         else if magnitude > i64_max then Inl OutOfRange
                              else Inr (word_of_int magnitude))))"

text \<open>\<open>Display\<close> of an unsigned integer, and zero padding to a width.\<close>

fun dec :: "nat \<Rightarrow> str" where
  "dec n = (if n < 10 then [48 + of_nat n] else dec (n div 10) @ [48 + of_nat (n mod 10)])"

declare dec.simps [simp del]

definition pad_dec :: "nat \<Rightarrow> nat \<Rightarrow> str" where
  "pad_dec w n = replicate (w - length (dec n)) 48 @ dec n"

definition trim_zeros :: "str \<Rightarrow> str" where
  "trim_zeros s = rev (dropWhile (\<lambda>b. b = 48) (rev s))"

definition format_e8 :: "i64 \<Rightarrow> str" where
  "format_e8 raw =
     (let magnitude = nat \<bar>sint raw\<bar>; scale = nat SCALE;
          whole = magnitude div scale; frac = magnitude mod scale
      in (if sint raw < 0 then [45] else []) @ dec whole @
         (if frac \<noteq> 0 then 46 # trim_zeros (pad_dec SCALE_DIGITS frac) else []))"

text \<open>\<open>Display\<close> of a signed integer.\<close>

definition dec_i64 :: "i64 \<Rightarrow> str" where
  "dec_i64 x = (if sint x < 0 then 45 # dec (nat (- sint x)) else dec (nat (sint x)))"

subsection \<open>The operations of the newtypes\<close>

definition e8_zero :: i64 where
  "e8_zero = 0"

definition e8_MAX :: i64 where
  "e8_MAX = word_of_int i64_max"

definition e8_whole :: "i64 \<Rightarrow> i64" where
  "e8_whole n = saturating_mul_i64 n (word_of_int SCALE)"

definition e8_is_zero :: "i64 \<Rightarrow> bool" where
  "e8_is_zero a \<longleftrightarrow> a = 0"

definition e8_is_positive :: "i64 \<Rightarrow> bool" where
  "e8_is_positive a \<longleftrightarrow> 0 < sint a"

definition e8_is_negative :: "i64 \<Rightarrow> bool" where
  "e8_is_negative a \<longleftrightarrow> sint a < 0"

definition e8_abs :: "i64 \<Rightarrow> i64" where
  "e8_abs a = saturating_abs_i64 a"

definition e8_min :: "i64 \<Rightarrow> i64 \<Rightarrow> i64" where
  "e8_min a b = (if sint a \<le> sint b then a else b)"

definition e8_max :: "i64 \<Rightarrow> i64 \<Rightarrow> i64" where
  "e8_max a b = (if sint a \<ge> sint b then a else b)"

definition e8_checked_add :: "i64 \<Rightarrow> i64 \<Rightarrow> overflow + i64" where
  "e8_checked_add a b = ok_or Overflow (checked_add_i64 a b)"

definition e8_checked_sub :: "i64 \<Rightarrow> i64 \<Rightarrow> overflow + i64" where
  "e8_checked_sub a b = ok_or Overflow (checked_sub_i64 a b)"

definition e8_add :: "i64 \<Rightarrow> i64 \<Rightarrow> i64 option" where
  "e8_add a b = checked_add_i64 a b"

definition e8_sub :: "i64 \<Rightarrow> i64 \<Rightarrow> i64 option" where
  "e8_sub a b = checked_sub_i64 a b"

definition e8_neg :: "i64 \<Rightarrow> i64 option" where
  "e8_neg a = checked_sub_i64 0 a"

definition unwrap_or :: "'a \<Rightarrow> 'e + 'a \<Rightarrow> 'a" where
  "unwrap_or d r = (case r of Inl _ \<Rightarrow> d | Inr x \<Rightarrow> x)"

definition notional :: "price \<Rightarrow> qty \<Rightarrow> overflow + money" where
  "notional p q =
     (let product = sint p * sint q; scaled = product sdiv SCALE
      in if scaled > i64_max \<or> scaled < i64_min then Inl Overflow
         else Inr (word_of_int scaled))"

subsection \<open>Reading the operations back as integers\<close>

lemma e8_checked_add_Inr [i64_simps]: "e8_checked_add a b = Inr r \<longleftrightarrow> sint r = sint a + sint b"
  by (simp add: e8_checked_add_def checked_add_i64_Some)

lemma e8_checked_sub_Inr [i64_simps]: "e8_checked_sub a b = Inr r \<longleftrightarrow> sint r = sint a - sint b"
  by (simp add: e8_checked_sub_def checked_sub_i64_Some)

lemma e8_checked_add_Inl [i64_simps]:
  "e8_checked_add a b = Inl e \<longleftrightarrow> \<not> in_i64 (sint a + sint b)"
  by (cases e) (auto simp: e8_checked_add_def checked_add_i64_def to_i64_None)

lemma e8_checked_sub_Inl [i64_simps]:
  "e8_checked_sub a b = Inl e \<longleftrightarrow> \<not> in_i64 (sint a - sint b)"
  by (cases e) (auto simp: e8_checked_sub_def checked_sub_i64_def to_i64_None)

lemma sint_e8_min [i64_simps]: "sint (e8_min a b) = min (sint a) (sint b)"
  by (simp add: e8_min_def)

lemma sint_e8_max [i64_simps]: "sint (e8_max a b) = max (sint a) (sint b)"
  by (simp add: e8_max_def)

lemma sint_e8_abs [i64_simps]: "sint (e8_abs a) = min i64_max \<bar>sint a\<bar>"
  by (simp add: e8_abs_def sint_saturating_abs)

lemma sint_e8_zero [simp]: "sint e8_zero = 0"
  by (simp add: e8_zero_def)

lemma sint_e8_MAX [i64_simps]: "sint e8_MAX = i64_max"
  by (simp add: e8_MAX_def i64_max_def)

lemma unwrap_or_simps [simp]: "unwrap_or d (Inl e) = d" "unwrap_or d (Inr x) = x"
  by (simp_all add: unwrap_or_def)

lemma e8_is_zero_iff [i64_simps]: "e8_is_zero a \<longleftrightarrow> sint a = 0"
  using sint_eq_iff [of a 0] by (simp add: e8_is_zero_def)

lemma notional_Inr [i64_simps]: "notional p q = Inr m \<longleftrightarrow> sint m = (sint p * sint q) sdiv SCALE"
proof
  assume "notional p q = Inr m"
  then show "sint m = (sint p * sint q) sdiv SCALE"
    by (auto simp: notional_def Let_def in_i64_def sint_word_of_i64 split: if_splits)
next
  assume m: "sint m = (sint p * sint q) sdiv SCALE"
  have "word_of_int (sint m) = m" by simp
  with m have "word_of_int ((sint p * sint q) sdiv SCALE) = m" by simp
  with m sint_i64_range [of m] show "notional p q = Inr m"
    by (simp add: notional_def Let_def)
qed

subsection \<open>Printing and parsing\<close>

text \<open>The value of a run of decimal digits.\<close>

primrec dval :: "str \<Rightarrow> int" where
  "dval [] = 0"
| "dval (d # ds) = uint (d - 48) * 10 ^ length ds + dval ds"

definition all_digits :: "str \<Rightarrow> bool" where
  "all_digits ds = list_all is_ascii_digit ds"

lemma dval_append [simp]: "dval (xs @ ys) = dval xs * 10 ^ length ys + dval ys"
  by (induction xs) (simp_all add: algebra_simps power_add)

lemma dval_nonneg: "0 \<le> dval ds"
  by (induction ds) auto

lemma all_digits_simps [simp]:
  "all_digits []" "all_digits (d # ds) \<longleftrightarrow> is_ascii_digit d \<and> all_digits ds"
  "all_digits (xs @ ys) \<longleftrightarrow> all_digits xs \<and> all_digits ys"
  by (auto simp: all_digits_def)

lemma digit_cases: "k < 10 \<Longrightarrow> k \<in> {0,1,2,3,4,5,6,7,8,9 :: nat}"
  by auto

lemma digit_props:
  assumes "k < 10"
  shows "is_ascii_digit (48 + of_nat k)" "uint ((48 + of_nat k :: u8) - 48) = int k"
    "(48 + of_nat k :: u8) = 48 \<longleftrightarrow> k = 0"
  using digit_cases [OF assms] by (auto simp: is_ascii_digit_def)

lemma not_digit: "is_ascii_digit d \<Longrightarrow> d \<noteq> 46 \<and> d \<noteq> 45 \<and> d \<noteq> 43"
  by (auto simp: is_ascii_digit_def)

lemma le_scaled:
  fixes a c :: int
  assumes "0 \<le> a" "0 \<le> c"
  shows "a \<le> a * 10 ^ n + c"
proof -
  have "a * 1 \<le> a * 10 ^ n" using assms(1) by (intro mult_left_mono) auto
  with assms(2) show ?thesis by linarith
qed

lemma parse_whole_digits:
  assumes "all_digits ds" "0 \<le> m" "m * 10 ^ length ds + dval ds \<le> MAX_WHOLE" "rest = [] \<or> hd rest = 46"
  shows "parse_whole (ds @ rest) m seen = Inr (m * 10 ^ length ds + dval ds, seen \<or> ds \<noteq> [], rest)"
  using assms
proof (induction ds arbitrary: m seen)
  case Nil
  then show ?case by (cases rest) auto
next
  case (Cons d ds)
  let ?m = "m * 10 + uint (d - 48)"
  have eq: "?m * 10 ^ length ds + dval ds = m * 10 ^ length (d # ds) + dval (d # ds)"
    by (simp add: algebra_simps)
  have pos: "0 \<le> ?m" using Cons.prems(2) by simp
  then have "?m \<le> ?m * 10 ^ length ds + dval ds"
    by (rule le_scaled) (rule dval_nonneg)
  then have "?m \<le> MAX_WHOLE"
    using Cons.prems(3) unfolding eq by linarith
  moreover have "parse_whole (ds @ rest) ?m True = Inr (m * 10 ^ length (d # ds) + dval (d # ds), True, rest)"
    using Cons.IH [of ?m True] Cons.prems(1,3,4) pos unfolding eq by simp
  ultimately show ?case
    using Cons.prems(1) not_digit [of d] by (simp add: Let_def)
qed

lemma place_step: "k < 8 \<Longrightarrow> (10 :: int) ^ (8 - k) div 10 = 10 ^ (8 - Suc k)"
  using Suc_diff_Suc [of k 8] by (metis nonzero_mult_div_cancel_left power_Suc zero_neq_numeral)

lemma parse_frac_digits:
  assumes "all_digits ds" "k + length ds \<le> 8"
  shows "parse_frac ds (10 ^ (8 - k)) k m seen =
    Inr (m + dval ds * 10 ^ (8 - k - length ds), k + length ds, seen \<or> ds \<noteq> [])"
  using assms
proof (induction ds arbitrary: k m seen)
  case (Cons d ds)
  have "(10 :: int) ^ (8 - Suc k) = 10 ^ length ds * 10 ^ (8 - Suc k - length ds)"
    using Cons.prems(2) by (simp flip: power_add)
  then show ?case
    using Cons.IH [of "Suc k"] Cons.prems place_step [of k]
    by (simp add: Let_def SCALE_DIGITS_def algebra_simps)
qed simp

lemma dec_digits: "all_digits (dec n)" "dval (dec n) = int n" "dec n \<noteq> []"
proof (induction n rule: dec.induct)
  case (1 n)
  have "int (n div 10) * 10 + int (n mod 10) = int n" by presburger
  note split = this and dig = digit_props [of n] digit_props [of "n mod 10"]
  { case 1 show ?case using "1.IH"(1) dig by (subst dec.simps) auto }
  { case 2 show ?case using "1.IH"(2) dig split by (subst dec.simps) auto }
  { case 3 show ?case by (subst dec.simps) auto }
qed

lemma dec_length: "n < 10 ^ w \<Longrightarrow> 0 < w \<Longrightarrow> length (dec n) \<le> w"
proof (induction n arbitrary: w rule: dec.induct)
  case (1 n)
  show ?case
  proof (cases "n < 10")
    case True then show ?thesis using 1 by (subst dec.simps) simp
  next
    case False
    then have "w \<noteq> 1" using 1 by auto
    then obtain v where w: "w = Suc v" "0 < v" using 1 by (cases w) auto
    then have "n div 10 < 10 ^ v" using 1 by auto
    then show ?thesis using 1 False w by (subst dec.simps) simp
  qed
qed

lemma dval_zeros [simp]: "dval (replicate n 48) = 0" "all_digits (replicate n 48)"
  by (induction n) (auto simp: is_ascii_digit_def)

lemma pad_dec_props: "n < 10 ^ w \<Longrightarrow> 0 < w \<Longrightarrow>
   all_digits (pad_dec w n) \<and> dval (pad_dec w n) = int n \<and> length (pad_dec w n) = w"
  using dec_length [of n w] by (simp add: pad_dec_def dec_digits)

lemma trim_zeros_split: "\<exists>z. s = trim_zeros s @ replicate z 48"
proof -
  have "rev s = takeWhile (\<lambda>b. b = 48) (rev s) @ dropWhile (\<lambda>b. b = 48) (rev s)" by simp
  then have "s = trim_zeros s @ rev (takeWhile (\<lambda>b. b = 48) (rev s))"
    unfolding trim_zeros_def by (metis rev_append rev_rev_ident)
  moreover have "takeWhile (\<lambda>b. b = 48) (rev s) = replicate (length (takeWhile (\<lambda>b. b = 48) (rev s))) 48"
    by (metis (mono_tags, lifting) replicate_length_same set_takeWhileD)
  ultimately show ?thesis by (metis rev_replicate)
qed

lemma parse_frac_trimmed:
  assumes "0 < f" "f < 10 ^ 8"
  shows "\<exists>n. 0 < n \<and> parse_frac (trim_zeros (pad_dec SCALE_DIGITS f)) SCALE 0 m seen = Inr (m + int f, n, True)"
proof -
  let ?s = "pad_dec 8 f"
  obtain z where z: "?s = trim_zeros ?s @ replicate z 48" using trim_zeros_split by blast
  have p: "all_digits ?s" "dval ?s = int f" "length ?s = 8" using pad_dec_props [of f 8] assms by auto
  from z p have t: "all_digits (trim_zeros ?s)" "length (trim_zeros ?s) + z = 8" 
    "dval (trim_zeros ?s) * 10 ^ z = int f"
     apply (metis all_digits_simps(3)) apply (metis length_append length_replicate z p(3))
    by (metis add.right_neutral dval_append dval_zeros(1) length_replicate p(2) z)
  then have "trim_zeros ?s \<noteq> []" using assms by auto
  then show ?thesis using parse_frac_digits [of "trim_zeros ?s" 0 m seen] t
    by (auto simp: SCALE_DIGITS_def SCALE_def) (metis add_diff_cancel_left')
qed

lemma format_parse_body:
  assumes "m \<le> nat MAX_MAGNITUDE"
  shows "\<exists>tail. parse_whole (dec (m div nat SCALE) @
      (if m mod nat SCALE \<noteq> 0 then 46 # trim_zeros (pad_dec SCALE_DIGITS (m mod nat SCALE)) else [])) 0 False
      = Inr (int (m div nat SCALE), True, tail) \<and>
     (case tail of [] \<Rightarrow> Inr (int (m div nat SCALE) * SCALE, True)
                  | _ # fs \<Rightarrow> res_bind (parse_frac fs SCALE 0 (int (m div nat SCALE) * SCALE) True)
                      (\<lambda>(magnitude, digits, seen').
                         if digits = 0 then Inl Malformed else Inr (magnitude, seen'))) = Inr (int m, True)"
proof -
  let ?w = "m div nat SCALE" and ?f = "m mod nat SCALE"
  let ?tail = "if ?f \<noteq> 0 then 46 # trim_zeros (pad_dec SCALE_DIGITS ?f) else []"
  have wf: "int ?w * SCALE + int ?f = int m" 
  proof -
    have "?w * nat SCALE + ?f = m" by simp
    then have "int ?w * int (nat SCALE) + int ?f = int m" by (metis of_nat_add of_nat_mult)
    then show ?thesis by (simp add: SCALE_def)
  qed
  have "int ?w \<le> MAX_WHOLE" using assms by (simp add: MAX_WHOLE_def MAX_MAGNITUDE_def i64_max_def SCALE_def)
  then have "parse_whole (dec ?w @ ?tail) 0 False = Inr (int ?w, True, ?tail)"
    using parse_whole_digits [of "dec ?w" 0 ?tail False] dec_digits [of ?w] by simp
  moreover have "(case ?tail of [] \<Rightarrow> Inr (int ?w * SCALE, True)
                  | _ # fs \<Rightarrow> res_bind (parse_frac fs SCALE 0 (int ?w * SCALE) True)
                      (\<lambda>(magnitude, digits, seen').
                         if digits = 0 then Inl Malformed else Inr (magnitude, seen'))) = Inr (int m, True)"
  proof (cases "?f = 0")
    case True
    with wf show ?thesis by simp
  next
    case False
    have "?f < 10 ^ 8" by (simp add: SCALE_def)
    from parse_frac_trimmed [OF _ this] False wf show ?thesis by fastforce
  qed
  ultimately show ?thesis by blast
qed

lemma dec_hd: "dec n = c # cs \<Longrightarrow> is_ascii_digit c"
  using dec_digits(1) [of n] by simp

lemma parse_signed:
  assumes "parse_whole (c # cs) 0 False = Inr (w, True, tail)"
    and "(case tail of [] \<Rightarrow> Inr (w * SCALE, True)
          | _ # fs \<Rightarrow> res_bind (parse_frac fs SCALE 0 (w * SCALE) True)
              (\<lambda>(magnitude, digits, seen').
                 if digits = 0 then Inl Malformed else Inr (magnitude, seen'))) = Inr (m, True)"
    and "is_ascii_digit c"
  shows "m \<le> i64_max \<Longrightarrow> parse_e8 (c # cs) = Inr (word_of_int m)"
    and "m \<le> MAX_MAGNITUDE \<Longrightarrow> parse_e8 (45 # c # cs) = Inr (word_of_int (- m))"
  using assms not_digit [OF assms(3)] by (simp_all add: parse_e8_def)

text \<open>
  C40: Printing a value and parsing the text back returns the value, for every \<open>i64\<close> including
  \<open>i64::MIN\<close>, whose magnitude is not an \<open>i64\<close>.
\<close>

theorem parse_format_roundtrip: "parse_e8 (format_e8 r) = Inr r"
proof -
  define m where "m = nat \<bar>sint r\<bar>"
  have "m \<le> nat MAX_MAGNITUDE" and le: "int m \<le> MAX_MAGNITUDE" "0 \<le> sint r \<Longrightarrow> int m \<le> i64_max"
    using sint_i64_range [of r] by (auto simp: m_def MAX_MAGNITUDE_def i64_min_def i64_max_def)
  note body = format_parse_body [OF this(1)]
  obtain c cs where d: "dec (m div nat SCALE) = c # cs" using dec_digits(3) by (meson neq_Nil_conv)
  have "word_of_int (sint r) = r" by simp
  moreover have "sint r = (if sint r < 0 then - int m else int m)" by (simp add: m_def)
  ultimately have r: "(if sint r < 0 then word_of_int (- int m) else word_of_int (int m)) = r" by metis
  from body d parse_signed [OF _ _ dec_hd [OF d]] le have
    "parse_e8 (format_e8 r) = Inr (if sint r < 0 then word_of_int (- int m) else word_of_int (int m))"
    unfolding format_e8_def Let_def m_def [symmetric] by (cases "sint r < 0") fastforce+
  with r show ?thesis by simp
qed

lemma parse_whole_sound:
  assumes "parse_whole b m seen = Inr (m', seen', tail)"
  shows "\<exists>ds. b = ds @ tail \<and> all_digits ds \<and> m' = m * 10 ^ length ds + dval ds \<and>
     (tail = [] \<or> hd tail = 46) \<and> (seen' \<longleftrightarrow> seen \<or> ds \<noteq> []) \<and> (ds \<noteq> [] \<longrightarrow> m' \<le> MAX_WHOLE)"
  using assms
proof (induction b m seen rule: parse_whole.induct)
  case (2 d ds m seen)
  show ?case
  proof (cases "d = 46")
    case True
    with 2 show ?thesis by (auto intro!: exI [of _ "[]"])
  next
    case False
    with "2.prems" have d: "is_ascii_digit d" and m: "m * 10 + uint (d - 48) \<le> MAX_WHOLE"
      and rec: "parse_whole ds (m * 10 + uint (d - 48)) True = Inr (m', seen', tail)"
      by (auto simp: Let_def split: if_splits)
    from 2(1) [OF False _ refl _ rec] d m obtain es where es: "ds = es @ tail" "all_digits es"
      "m' = (m * 10 + uint (d - 48)) * 10 ^ length es + dval es" "tail = [] \<or> hd tail = 46"
      "seen'" "es \<noteq> [] \<longrightarrow> m' \<le> MAX_WHOLE" by auto
    then show ?thesis using d m by (intro exI [of _ "d # es"]) (auto simp: algebra_simps)
  qed
qed auto

lemma parse_frac_past:
  "parse_frac fs place k m seen = Inr (m', k', seen') \<Longrightarrow> 8 \<le> k \<Longrightarrow>
     m' = m \<and> k' = k + length fs \<and> all_digits fs \<and> dval fs = 0"
  by (induction fs place k m seen rule: parse_frac.induct)
    (auto simp: SCALE_DIGITS_def Let_def split: if_splits)

lemma parse_frac_sound:
  assumes "parse_frac fs (10 ^ (8 - k)) k m seen = Inr (m', k', seen')" "k \<le> 8"
  shows "k' = k + length fs \<and> all_digits fs \<and> (m' - m) * 10 ^ length fs = dval fs * 10 ^ (8 - k)"
  using assms
proof (induction fs arbitrary: k m seen)
  case (Cons d fs)
  show ?case
  proof (cases "k = 8")
    case True
    with parse_frac_past [OF Cons.prems(1)] show ?thesis by simp
  next
    case False
    let ?u = "uint (d - 48)" and ?p = "(10 :: int) ^ (8 - Suc k)"
    from False Cons.prems have d: "is_ascii_digit d"
      and rec: "parse_frac fs ?p (Suc k) (m + ?u * ?p) True = Inr (m', k', seen')"
      using place_step [of k] by (auto simp: SCALE_DIGITS_def Let_def split: if_splits)
    from Cons.IH [OF rec] False Cons.prems(2)
    have ih: "k' = Suc k + length fs" "all_digits fs"
      "(m' - (m + ?u * ?p)) * 10 ^ length fs = dval fs * ?p" by auto
    have ten: "(10 :: int) ^ (8 - k) = 10 * ?p"
      using False Cons.prems(2) by (metis Suc_diff_Suc le_neq_implies_less power_Suc)
    have "(m' - m) * 10 ^ length fs = dval fs * ?p + ?u * ?p * 10 ^ length fs"
      using ih(3) by (simp add: algebra_simps)
    then have "(m' - m) * 10 ^ length (d # fs) = dval (d # fs) * 10 ^ (8 - k)"
      unfolding ten by (simp add: algebra_simps)
    with ih d show ?thesis by simp
  qed
qed simp

lemma parse_body_sound:
  assumes w: "parse_whole body 0 False = Inr (whole, seen, tail)"
    and f: "(case tail of [] \<Rightarrow> Inr (whole * SCALE, seen)
             | _ # fs \<Rightarrow> res_bind (parse_frac fs SCALE 0 (whole * SCALE) seen)
                 (\<lambda>(magnitude, digits, seen').
                    if digits = 0 then Inl Malformed else Inr (magnitude, seen'))) = Inr (m, seen2)"
  shows "\<exists>ws fs. body = ws @ (if fs = [] then [] else 46 # fs) \<and> all_digits (ws @ fs) \<and>
           m * 10 ^ length fs = dval (ws @ fs) * SCALE \<and> 0 \<le> m"
proof -
  from parse_whole_sound [OF w] obtain ws where ws: "body = ws @ tail" "all_digits ws"
    "whole = dval ws" "tail = [] \<or> hd tail = 46" by auto
  show ?thesis
  proof (cases tail)
    case Nil
    with ws f show ?thesis
      by (intro exI [of _ ws] exI [of _ "[]"]) (auto simp: dval_nonneg SCALE_def)
  next
    case (Cons c fs)
    with f obtain k where p: "parse_frac fs (10 ^ (8 - 0)) 0 (whole * SCALE) seen = Inr (m, k, seen2)" "k \<noteq> 0"
      by (auto simp: SCALE_def split: if_splits)
    from parse_frac_sound [OF p(1)] have q: "k = length fs" "all_digits fs"
      "(m - whole * SCALE) * 10 ^ length fs = dval fs * SCALE" by (auto simp: SCALE_def)
    have eq: "m * 10 ^ length fs = dval (ws @ fs) * SCALE"
      using q(3) ws(3) by (simp add: algebra_simps)
    then have "0 \<le> m * 10 ^ length fs" by (simp add: dval_nonneg SCALE_def)
    then have "0 \<le> m" by (metis mult_neg_pos not_less zero_less_numeral zero_less_power)
    with ws q p(2) Cons eq show ?thesis by (intro exI [of _ ws] exI [of _ fs]) auto
  qed
qed

text \<open>
  Parsing never rounds. A text that parses is an optional sign, digits \<open>ws\<close> and, after a point,
  digits \<open>fs\<close>, and the result in 1e8 units is exactly the decimal value written: no digit is
  dropped unless it is a zero.
\<close>

theorem parse_exact:
  assumes "parse_e8 s = Inr r"
  shows "\<exists>sg ws fs. s = sg @ ws @ (if fs = [] then [] else 46 # fs) \<and> sg \<in> {[], [43], [45]} \<and>
     all_digits (ws @ fs) \<and>
     sint r * 10 ^ length fs = (if sg = [45] then - 1 else 1) * dval (ws @ fs) * SCALE"
proof -
  from assms obtain c rest where s: "s = c # rest" by (cases s) (auto simp: parse_e8_def)
  define body where "body = (if c = 45 \<or> c = 43 then rest else s)"
  from assms s obtain whole seen tail m seen2 where
    w: "parse_whole body 0 False = Inr (whole, seen, tail)"
    and f: "(case tail of [] \<Rightarrow> Inr (whole * SCALE, seen)
             | _ # fs \<Rightarrow> res_bind (parse_frac fs SCALE 0 (whole * SCALE) seen)
                 (\<lambda>(magnitude, digits, seen').
                    if digits = 0 then Inl Malformed else Inr (magnitude, seen'))) = Inr (m, seen2)"
    and r: "if c = 45 then m \<le> MAX_MAGNITUDE \<and> r = word_of_int (- m)
            else m \<le> i64_max \<and> r = word_of_int m"
    by (auto simp: parse_e8_def body_def Let_def split: if_splits prod.splits)
  from parse_body_sound [OF w f] obtain ws fs where b: "body = ws @ (if fs = [] then [] else 46 # fs)"
    "all_digits (ws @ fs)" "m * 10 ^ length fs = dval (ws @ fs) * SCALE" "0 \<le> m" by blast
  have "sint r = (if c = 45 then - m else m)"
    using r b(4) sint_word_of_i64 [of "- m"] sint_word_of_i64 [of m]
    by (auto simp: in_i64_def i64_min_def i64_max_def MAX_MAGNITUDE_def split: if_splits)
  moreover define sg where "sg = (if c = 45 then [45] else if c = 43 then [43] else [] :: str)"
  ultimately have "sint r * 10 ^ length fs = (if sg = [45] then - 1 else 1) * dval (ws @ fs) * SCALE"
    using b(3) by (auto simp: algebra_simps)
  moreover have "s = sg @ ws @ (if fs = [] then [] else 46 # fs)"
    using b(1) s by (auto simp: body_def sg_def split: if_splits)
  moreover have "sg \<in> {[], [43], [45]}" by (simp add: sg_def)
  ultimately show ?thesis using b(2) by blast
qed

theorem parse_exact_witness:
  "parse_e8 [45, 49, 46, 53, 48] = Inr (word_of_int (- 150000000)) \<and>
   (\<exists>sg ws fs. [45, 49, 46, 53, 48] = sg @ ws @ (if fs = [] then [] else 46 # fs) \<and>
      sg \<in> {[], [43], [45]} \<and> all_digits (ws @ fs) \<and>
      sint (word_of_int (- 150000000) :: i64) * 10 ^ length fs =
        (if sg = [45] then - 1 else 1) * dval (ws @ fs) * SCALE)"
proof -
  have "parse_e8 [45, 49, 46, 53, 48] = Inr (word_of_int (- 150000000))"
    by (simp add: parse_e8_def is_ascii_digit_def SCALE_def SCALE_DIGITS_def MAX_WHOLE_def
        MAX_MAGNITUDE_def i64_max_def)
  with parse_exact [OF this] show ?thesis by blast
qed

text \<open>
  The notional of a price and a quantity is their product at 1e16 brought back to 1e8 by
  truncation toward zero: it is never larger in magnitude than the exact product, it is off by
  less than one unit, and it is reported exactly when the truncated product fits an \<open>i64\<close>.
\<close>

theorem notional_rounds_toward_zero:
  "(case notional p q of
      Inl _ \<Rightarrow> \<not> in_i64 ((sint p * sint q) sdiv SCALE)
    | Inr m \<Rightarrow> \<bar>sint m * SCALE\<bar> \<le> \<bar>sint p * sint q\<bar> \<and>
        \<bar>sint p * sint q - sint m * SCALE\<bar> < SCALE)"
proof (cases "notional p q")
  case (Inl e)
  then show ?thesis by (auto simp: notional_def Let_def in_i64_def split: if_splits)
next
  case (Inr m)
  then have "sint m = (sint p * sint q) sdiv SCALE" by (simp add: notional_Inr)
  with Inr show ?thesis
    using sdiv_bounds [of SCALE "sint p * sint q"] by (simp add: SCALE_def)
qed

end
