(* ===== verification/Ids.thy ===== *)
theory Ids
  imports Fixed
begin

text \<open>
  Identifiers (\<open>sentinel-types/src/ids.rs\<close>) and time (\<open>sentinel-types/src/lib.rs\<close>): the padded inline
  strings every id is made of, the writer epoch, the record sequence and nanoseconds.

  \<open>InlineStr<N>\<close> is its padded bytes and its length byte; the capacity \<open>N\<close> is a parameter of the
  constructor and the length of the byte array. \<open>core::str::from_utf8\<close> is the UTF-8 validity check
  of the standard library, written out.

  Shown here: building an id never truncates it, an id without NUL bytes comes back from its padded
  bytes, and what comes back from padded bytes re-encodes to exactly those bytes.
\<close>

datatype too_long = TooLong nat nat

datatype inline_str = InlineStr (str_bytes: "u8 list") (str_len: u8)

type_synonym client_order_id = inline_str
type_synonym venue_order_id = inline_str
type_synonym exec_id = inline_str
type_synonym instrument = inline_str
type_synonym trace_id = u128
type_synonym epoch = u64
type_synonym seq = u64
type_synonym nanos = u64

text \<open>The derived order: the bytes, lexicographically, then the length.\<close>

instantiation inline_str :: linorder
begin

definition less_eq_inline_str :: "inline_str \<Rightarrow> inline_str \<Rightarrow> bool" where
  "less_eq_inline_str a b \<longleftrightarrow> (str_bytes a, str_len a) \<le> (str_bytes b, str_len b)"

definition less_inline_str :: "inline_str \<Rightarrow> inline_str \<Rightarrow> bool" where
  "less_inline_str a b \<longleftrightarrow> (str_bytes a, str_len a) < (str_bytes b, str_len b)"

instance
proof
  fix a b c :: inline_str
  show "a < b \<longleftrightarrow> a \<le> b \<and> \<not> b \<le> a"
    unfolding less_eq_inline_str_def less_inline_str_def by (rule less_le_not_le)
  show "a \<le> a" unfolding less_eq_inline_str_def by simp
  show "a \<le> b \<Longrightarrow> b \<le> c \<Longrightarrow> a \<le> c" unfolding less_eq_inline_str_def by (rule order_trans)
  show "a \<le> b \<Longrightarrow> b \<le> a \<Longrightarrow> a = b"
    unfolding less_eq_inline_str_def by (metis Pair_inject antisym inline_str.expand)
  show "a \<le> b \<or> b \<le> a" unfolding less_eq_inline_str_def by (rule linear)
qed

end

subsection \<open>UTF-8 validity\<close>

definition utf8_cont :: "u8 \<Rightarrow> bool" where
  "utf8_cont b \<longleftrightarrow> 128 \<le> b \<and> b \<le> 191"

text \<open>How many continuation bytes follow a leading byte, when they are well formed.\<close>

definition utf8_tail :: "u8 \<Rightarrow> u8 list \<Rightarrow> nat option" where
  "utf8_tail b bs =
     (if b < 128 then Some 0
      else case bs of [] \<Rightarrow> None
      | c # cs \<Rightarrow>
          if 194 \<le> b \<and> b \<le> 223 then (if utf8_cont c then Some 1 else None)
          else if 224 \<le> b \<and> b \<le> 239
          then (if (if b = 224 then 160 \<le> c \<and> c \<le> 191
                    else if b = 237 then 128 \<le> c \<and> c \<le> 159 else utf8_cont c)
                   \<and> (case cs of d # _ \<Rightarrow> utf8_cont d | [] \<Rightarrow> False)
                then Some 2 else None)
          else if 240 \<le> b \<and> b \<le> 244
          then (if (if b = 240 then 144 \<le> c \<and> c \<le> 191
                    else if b = 244 then 128 \<le> c \<and> c \<le> 143 else utf8_cont c)
                   \<and> (case cs of d # e # _ \<Rightarrow> utf8_cont d \<and> utf8_cont e | _ \<Rightarrow> False)
                then Some 3 else None)
          else None)"

fun utf8_valid :: "u8 list \<Rightarrow> bool" where
  "utf8_valid [] = True"
| "utf8_valid (b # bs) = (case utf8_tail b bs of None \<Rightarrow> False | Some k \<Rightarrow> utf8_valid (drop k bs))"

subsection \<open>Inline strings\<close>

definition inline_empty :: "nat \<Rightarrow> inline_str" where
  "inline_empty N = InlineStr (replicate N 0) 0"

definition inline_new :: "nat \<Rightarrow> str \<Rightarrow> too_long + inline_str" where
  "inline_new N src =
     (if length src > N then Inl (TooLong (length src) N)
      else Inr (InlineStr (src @ replicate (N - length src) 0) (of_nat (length src))))"

text \<open>\<open>InlineStr::new(..).unwrap_or_default()\<close>.\<close>

definition inline_or_default :: "nat \<Rightarrow> str \<Rightarrow> inline_str" where
  "inline_or_default N src = unwrap_or (inline_empty N) (inline_new N src)"

definition as_str :: "inline_str \<Rightarrow> str" where
  "as_str s = (let prefix = take (unat (str_len s)) (str_bytes s)
               in if utf8_valid prefix then prefix else [])"

text \<open>\<open>iter().position(|b| b == 0).unwrap_or(N)\<close>.\<close>

definition zero_pos :: "u8 list \<Rightarrow> nat" where
  "zero_pos bytes = length (takeWhile (\<lambda>b. b \<noteq> 0) bytes)"

definition from_padded :: "u8 list \<Rightarrow> too_long + inline_str" where
  "from_padded bytes =
     (let N = length bytes; len = zero_pos bytes
      in if list_ex (\<lambda>b. b \<noteq> 0) (drop len bytes) then Inl (TooLong N N)
         else if \<not> utf8_valid (take len bytes) then Inl (TooLong len N)
         else if len > 255 then Inl (TooLong len N)
         else Inr (InlineStr bytes (of_nat len)))"

definition inline_len :: "inline_str \<Rightarrow> nat" where
  "inline_len s = unat (str_len s)"

definition inline_is_empty :: "inline_str \<Rightarrow> bool" where
  "inline_is_empty s \<longleftrightarrow> str_len s = 0"

text \<open>What every \<open>InlineStr<N>\<close> built by \<open>new\<close>, \<open>empty\<close> or \<open>from_padded\<close> satisfies.\<close>

definition inline_wf :: "nat \<Rightarrow> inline_str \<Rightarrow> bool" where
  "inline_wf N s \<longleftrightarrow>
     length (str_bytes s) = N \<and> N \<le> 255 \<and> inline_len s \<le> N \<and>
     utf8_valid (take (inline_len s) (str_bytes s)) \<and>
     list_all (\<lambda>b. b = 0) (drop (inline_len s) (str_bytes s))"

text \<open>Whether the text holds a NUL byte, which is what padding is made of.\<close>

definition inline_nul_free :: "inline_str \<Rightarrow> bool" where
  "inline_nul_free s \<longleftrightarrow> list_all (\<lambda>b. b \<noteq> 0) (take (inline_len s) (str_bytes s))"

subsection \<open>Epochs, sequences, time\<close>

definition epoch_next :: "epoch \<Rightarrow> epoch" where
  "epoch_next e = saturating_add_u64 e 1"

definition seq_next :: "seq \<Rightarrow> seq" where
  "seq_next s = saturating_add_u64 s 1"

definition as_secs :: "nanos \<Rightarrow> u64" where
  "as_secs n = n div 1000000000"

definition saturating_since :: "nanos \<Rightarrow> nanos \<Rightarrow> u64" where
  "saturating_since t earlier = saturating_sub_u64 t earlier"

definition nanos_add :: "nanos \<Rightarrow> u64 \<Rightarrow> nanos" where
  "nanos_add t n = saturating_add_u64 t n"

subsection \<open>Properties\<close>

lemma unat_of_nat_u8: "n \<le> 255 \<Longrightarrow> unat (of_nat n :: u8) = n"
  by (simp add: unsigned_of_nat take_bit_nat_eq_self)

lemma utf8_valid_replicate0 [simp]: "utf8_valid (replicate n 0)"
  by (induction n) (auto simp: utf8_tail_def)

lemma inline_new_wf: "inline_new N src = Inr s \<Longrightarrow> N \<le> 255 \<Longrightarrow> utf8_valid src \<Longrightarrow> inline_wf N s"
  by (auto simp: inline_new_def inline_wf_def inline_len_def unat_of_nat_u8 list_all_iff split: if_splits)

lemma inline_empty_wf: "N \<le> 255 \<Longrightarrow> inline_wf N (inline_empty N)"
  by (simp add: inline_empty_def inline_wf_def inline_len_def list_all_iff)

lemma zero_pos_le: "zero_pos bytes \<le> length bytes"
  by (simp add: zero_pos_def length_takeWhile_le)

lemma from_padded_Inr:
  assumes "from_padded bytes = Inr s"
  shows "s = InlineStr bytes (of_nat (zero_pos bytes))" "inline_len s = zero_pos bytes"
    "utf8_valid (take (zero_pos bytes) bytes)"
    "list_all (\<lambda>b. b = 0) (drop (zero_pos bytes) bytes)" "zero_pos bytes \<le> 255"
proof -
  have *: "s = InlineStr bytes (of_nat (zero_pos bytes)) \<and> utf8_valid (take (zero_pos bytes) bytes) \<and>
    \<not> list_ex (\<lambda>b. b \<noteq> 0) (drop (zero_pos bytes) bytes) \<and> zero_pos bytes \<le> 255"
    using assms by (simp add: from_padded_def Let_def split: if_splits)
  then show "s = InlineStr bytes (of_nat (zero_pos bytes))" "utf8_valid (take (zero_pos bytes) bytes)"
    "list_all (\<lambda>b. b = 0) (drop (zero_pos bytes) bytes)" "zero_pos bytes \<le> 255"
    by (auto simp: list_all_iff list_ex_iff)
  with * show "inline_len s = zero_pos bytes" by (simp add: inline_len_def unat_of_nat_u8)
qed

lemma from_padded_wf:
  assumes "from_padded bytes = Inr s" "length bytes = N" "N \<le> 255"
  shows "inline_wf N s"
  unfolding inline_wf_def from_padded_Inr(2) [OF assms(1)]
  using from_padded_Inr [OF assms(1)] zero_pos_le [of bytes] assms(2,3) by simp

lemma from_padded_bytes: "from_padded bytes = Inr s \<Longrightarrow> str_bytes s = bytes"
  by (drule from_padded_Inr(1)) simp

lemma from_padded_nul_free: "from_padded bytes = Inr s \<Longrightarrow> inline_nul_free s"
proof -
  assume "from_padded bytes = Inr s"
  note s = from_padded_Inr [OF this]
  have "take (zero_pos bytes) bytes = takeWhile (\<lambda>b. b \<noteq> 0) bytes"
    by (simp add: zero_pos_def takeWhile_eq_take [symmetric])
  then show ?thesis
    unfolding inline_nul_free_def s(2) using s(1) by (auto simp: list_all_iff dest: set_takeWhileD)
qed

lemma takeWhile_nul:
  assumes "list_all (\<lambda>b. b \<noteq> 0) (take n bs)" "list_all (\<lambda>b. b = 0) (drop n bs)" "n \<le> length bs"
  shows "takeWhile (\<lambda>b. b \<noteq> 0) bs = take n (bs :: u8 list)"
proof -
  have "takeWhile (\<lambda>b. b \<noteq> 0) (take n bs @ drop n bs) = take n bs @ takeWhile (\<lambda>b. b \<noteq> 0) (drop n bs)"
    using assms(1) by (intro takeWhile_append2) (auto simp: list_all_iff)
  moreover have "takeWhile (\<lambda>b. b \<noteq> 0) (drop n bs) = []"
    using assms(2) by (cases "drop n bs") auto
  ultimately show ?thesis by simp
qed

lemma from_padded_str_bytes:
  assumes "inline_wf N s" "inline_nul_free s"
  shows "from_padded (str_bytes s) = Inr s"
proof -
  have len: "zero_pos (str_bytes s) = inline_len s"
    using assms takeWhile_nul [of "inline_len s" "str_bytes s"]
    by (simp add: zero_pos_def inline_wf_def inline_nul_free_def)
  then show ?thesis
    using assms by (cases s) (auto simp: from_padded_def inline_wf_def inline_len_def Let_def list_all_iff list_ex_iff)
qed

lemma inline_new_as_str:
  assumes "inline_wf N i"
  shows "inline_new N (as_str i) = Inr i"
proof (cases i)
  case (InlineStr bytes len)
  with assms have wf: "length bytes = N" "unat len \<le> N" "utf8_valid (take (unat len) bytes)" "drop (unat len) bytes = replicate (N - unat len) 0"
    by (auto simp: inline_wf_def inline_len_def list_all_iff intro!: replicate_eqI)
  have "take (unat len) bytes @ replicate (N - unat len) 0 = bytes" using append_take_drop_id [of "unat len" bytes] wf(4) by simp
  then show ?thesis using wf(1-3) by (simp add: InlineStr inline_new_def as_str_def Let_def min_def)
qed

lemma as_str_new: "inline_new N src = Inr s \<Longrightarrow> N \<le> 255 \<Longrightarrow> utf8_valid src \<Longrightarrow> as_str s = src"
  by (auto simp: inline_new_def as_str_def unat_of_nat_u8 split: if_splits)

text \<open>
  Text is stored whole or refused: \<open>InlineStr::new\<close> succeeds exactly on text that fits, the
  stored id reads back as that text, and two texts never share an id, so no id is ever a
  truncation that collides with its neighbour.
\<close>

theorem inline_new_faithful:
  assumes "N \<le> 255" "utf8_valid a" "utf8_valid b"
  shows "(is_ok (inline_new N a) \<longleftrightarrow> length a \<le> N) \<and>
    (\<forall>s. inline_new N a = Inr s \<longrightarrow>
       as_str s = a \<and> inline_wf N s \<and> (inline_new N b = Inr s \<longrightarrow> b = a))"
proof -
  have "is_ok (inline_new N a) \<longleftrightarrow> length a \<le> N"
    by (simp add: inline_new_def)
  moreover have "as_str s = a \<and> inline_wf N s \<and> (inline_new N b = Inr s \<longrightarrow> b = a)"
    if "inline_new N a = Inr s" for s
    using that assms as_str_new [of N a s] as_str_new [of N b s] inline_new_wf [of N a s] by metis
  ultimately show ?thesis by blast
qed

theorem inline_new_faithful_witness:
  "is_ok (inline_new 4 [66, 84, 67]) \<and> as_str (InlineStr [66, 84, 67, 0] 3) = [66, 84, 67]"
  using inline_new_faithful [of 4 "[66, 84, 67]" "[66, 84, 67]"]
  by (simp add: utf8_tail_def inline_new_def)

text \<open>
  An id whose text has no NUL byte survives the disk: its padded bytes decode to the same id.
  What padded bytes decode to always has those bytes and is well formed, so decoding never
  normalises a record.
\<close>

theorem padded_roundtrip:
  "(inline_wf N s \<and> inline_nul_free s \<longrightarrow> from_padded (str_bytes s) = Inr s) \<and>
   (from_padded bs = Inr t \<and> length bs \<le> 255 \<longrightarrow>
      str_bytes t = bs \<and> inline_wf (length bs) t \<and> inline_nul_free t)"
  using from_padded_str_bytes from_padded_bytes from_padded_wf from_padded_nul_free by blast

theorem padded_roundtrip_witness:
  "from_padded (str_bytes (InlineStr [65, 0] 1)) = Inr (InlineStr [65, 0] 1) \<and>
   str_bytes (InlineStr [65, 0] 1) = [65, 0] \<and> inline_wf (length [65, 0 :: u8]) (InlineStr [65, 0] 1) \<and>
   inline_nul_free (InlineStr [65, 0] 1)"
proof -
  have *: "inline_wf 2 (InlineStr [65, 0] 1)" "inline_nul_free (InlineStr [65, 0] 1)"
    by (simp_all add: inline_wf_def inline_nul_free_def inline_len_def utf8_tail_def)
  then have "from_padded [65, 0] = Inr (InlineStr [65, 0] 1)"
    using padded_roundtrip [of 2 "InlineStr [65, 0] 1" "[]" undefined] by simp
  with * padded_roundtrip [of 2 "InlineStr [65, 0] 1" "[65, 0]" "InlineStr [65, 0] 1"]
  show ?thesis by simp
qed

text \<open>
  The hypothesis on NUL bytes is needed: the text \<open>A\<close> followed by NUL is accepted by \<open>InlineStr::new\<close>, and
  its padded bytes decode to the different id \<open>A\<close>.
\<close>

lemma trailing_nul_changes_the_id:
  "\<exists>s t. inline_new 36 [65, 0] = Inr s \<and> from_padded (str_bytes s) = Inr t \<and> s \<noteq> t"
  by (intro exI [of _ "InlineStr ([65, 0] @ replicate 34 0) 2"] exI [of _ "InlineStr ([65, 0] @ replicate 34 0) 1"])
    (simp add: inline_new_def from_padded_def zero_pos_def utf8_tail_def Let_def list_ex_iff)

end
