(* ===== verification/Enums.thy ===== *)
theory Enums
  imports Ids
begin

text \<open>
  The closed vocabularies (\<open>sentinel-types/src/enums.rs\<close>). The macro \<open>wire_enum!\<close> turns a table of
  variants, discriminant bytes and texts into an enum with \<open>as_u8\<close>, \<open>from_u8\<close>, \<open>as_str\<close> and
  \<open>from_str\<close>; here the four functions take the table, and each enum is its table. The locale
  \<open>wire_enum\<close> holds what a table must satisfy (every variant listed once, no discriminant or text
  shared, zero reserved) and what follows from it once and for all: the encodings are inverse to
  each other, and the byte zero never decodes.
\<close>

type_synonym 'a wire_table = "('a \<times> u8 \<times> string) list"

datatype unknown_discriminant = UnknownDiscriminant string u8

text \<open>A string literal of the sources, as its bytes.\<close>

definition lit :: "string \<Rightarrow> str" where
  "lit s = map of_char s"

definition wire_as_u8 :: "'a wire_table \<Rightarrow> 'a \<Rightarrow> u8" where
  "wire_as_u8 tbl x = (case find (\<lambda>(y, _, _). y = x) tbl of Some (_, d, _) \<Rightarrow> d | None \<Rightarrow> 0)"

definition wire_as_str :: "'a wire_table \<Rightarrow> 'a \<Rightarrow> str" where
  "wire_as_str tbl x = (case find (\<lambda>(y, _, _). y = x) tbl of Some (_, _, t) \<Rightarrow> lit t | None \<Rightarrow> [])"

definition wire_from_u8 :: "string \<Rightarrow> 'a wire_table \<Rightarrow> u8 \<Rightarrow> unknown_discriminant + 'a" where
  "wire_from_u8 type_name tbl v =
     (case find (\<lambda>(_, d, _). d = v) tbl of
        Some (x, _, _) \<Rightarrow> Inr x | None \<Rightarrow> Inl (UnknownDiscriminant type_name v))"

definition wire_from_str :: "string \<Rightarrow> 'a wire_table \<Rightarrow> str \<Rightarrow> unknown_discriminant + 'a" where
  "wire_from_str type_name tbl s =
     (case find (\<lambda>(_, _, t). lit t = s) tbl of
        Some (x, _, _) \<Rightarrow> Inr x | None \<Rightarrow> Inl (UnknownDiscriminant type_name 0))"

definition wire_ALL :: "'a wire_table \<Rightarrow> 'a list" where
  "wire_ALL tbl = map fst tbl"

locale wire_enum =
  fixes tbl :: "'a wire_table"
    and type_name :: string
  assumes complete: "x \<in> fst ` set tbl"
    and distinct_variants: "distinct (map fst tbl)"
    and distinct_discriminants: "distinct (map (fst \<circ> snd) tbl)"
    and distinct_texts: "distinct (map (lit \<circ> snd \<circ> snd) tbl)"
    and zero_reserved: "0 \<notin> (fst \<circ> snd) ` set tbl"
begin

lemma entry: "\<exists>d t. (x, d, t) \<in> set tbl"
  using complete [of x] by force

lemma find_variant: "(x, d, t) \<in> set tbl \<Longrightarrow> find (\<lambda>(y, _, _). y = x) tbl = Some (x, d, t)"
  using distinct_variants
proof (induction tbl)
  case (Cons e es)
  then show ?case by (cases e) (auto simp: rev_image_eqI split: if_splits)
qed simp

lemma find_discriminant: "(x, d, t) \<in> set tbl \<Longrightarrow> find (\<lambda>(_, e, _). e = d) tbl = Some (x, d, t)"
  using distinct_discriminants
proof (induction tbl)
  case (Cons e es)
  then show ?case by (cases e) (auto simp: rev_image_eqI split: if_splits)
qed simp

lemma find_text: "(x, d, t) \<in> set tbl \<Longrightarrow> find (\<lambda>(_, _, u). lit u = lit t) tbl = Some (x, d, t)"
  using distinct_texts
proof (induction tbl)
  case (Cons e es)
  then show ?case by (cases e) (auto simp: rev_image_eqI split: if_splits)
qed simp

lemma from_as_u8: "wire_from_u8 type_name tbl (wire_as_u8 tbl x) = Inr x"
  using entry [of x] by (auto simp: wire_from_u8_def wire_as_u8_def find_variant find_discriminant)

lemma from_as_str: "wire_from_str type_name tbl (wire_as_str tbl x) = Inr x"
  using entry [of x] by (auto simp: wire_from_str_def wire_as_str_def find_variant find_text)

lemma from_u8_iff: "wire_from_u8 type_name tbl v = Inr x \<longleftrightarrow> v = wire_as_u8 tbl x"
proof
  assume "wire_from_u8 type_name tbl v = Inr x"
  then obtain d t where f: "find (\<lambda>(_, d, _). d = v) tbl = Some (x, d, t)"
    by (auto simp: wire_from_u8_def split: option.splits)
  then have "(x, d, t) \<in> set tbl \<and> d = v"
    by (metis (mono_tags, lifting) case_prod_conv find_Some_iff nth_mem)
  then show "v = wire_as_u8 tbl x" by (auto simp: wire_as_u8_def find_variant)
qed (simp add: from_as_u8)

lemma as_u8_nonzero: "wire_as_u8 tbl x \<noteq> 0"
proof -
  obtain d t where e: "(x, d, t) \<in> set tbl" using entry by blast
  then have "d \<in> (fst \<circ> snd) ` set tbl" by force
  with e zero_reserved show ?thesis by (auto simp: wire_as_u8_def find_variant)
qed

lemma zero_refused: "\<not> is_ok (wire_from_u8 type_name tbl 0)"
  using as_u8_nonzero by (auto simp: is_ok_iff from_u8_iff)

lemma as_u8_inj: "wire_as_u8 tbl x = wire_as_u8 tbl y \<longleftrightarrow> x = y"
  by (metis from_as_u8 sum.inject(2))

lemma as_str_inj: "wire_as_str tbl x = wire_as_str tbl y \<longleftrightarrow> x = y"
  by (metis from_as_str sum.inject(2))

end

subsection \<open>Side, authority, order kind, time in force\<close>

datatype side = Buy | Sell

definition side_table :: "side wire_table" where
  "side_table = [(Buy, 1, ''BUY''), (Sell, 2, ''SELL'')]"

definition opposite :: "side \<Rightarrow> side" where
  "opposite s = (case s of Buy \<Rightarrow> Sell | Sell \<Rightarrow> Buy)"

definition side_sign :: "side \<Rightarrow> i64" where
  "side_sign s = (case s of Buy \<Rightarrow> 1 | Sell \<Rightarrow> -1)"

datatype authority = Entry | ProtectiveExit

definition authority_table :: "authority wire_table" where
  "authority_table = [(Entry, 1, ''ENTRY''), (ProtectiveExit, 2, ''PROTECTIVE_EXIT'')]"

definition authority_opens_exposure :: "authority \<Rightarrow> bool" where
  "authority_opens_exposure a = (case a of Entry \<Rightarrow> True | ProtectiveExit \<Rightarrow> False)"

datatype order_kind = Market | Limit | StopMarket

definition order_kind_table :: "order_kind wire_table" where
  "order_kind_table = [(Market, 1, ''MARKET''), (Limit, 2, ''LIMIT''), (StopMarket, 3, ''STOP_MARKET'')]"

definition needs_limit_price :: "order_kind \<Rightarrow> bool" where
  "needs_limit_price k = (case k of Limit \<Rightarrow> True | _ \<Rightarrow> False)"

definition needs_stop_price :: "order_kind \<Rightarrow> bool" where
  "needs_stop_price k = (case k of StopMarket \<Rightarrow> True | _ \<Rightarrow> False)"

datatype time_in_force = GoodTilCancelled | ImmediateOrCancel | FillOrKill

definition time_in_force_table :: "time_in_force wire_table" where
  "time_in_force_table = [(GoodTilCancelled, 1, ''GTC''), (ImmediateOrCancel, 2, ''IOC''), (FillOrKill, 3, ''FOK'')]"

abbreviation side_as_u8 :: "side \<Rightarrow> u8" where
  "side_as_u8 \<equiv> wire_as_u8 side_table"

abbreviation side_from_u8 :: "u8 \<Rightarrow> unknown_discriminant + side" where
  "side_from_u8 \<equiv> wire_from_u8 ''Side'' side_table"

abbreviation authority_as_u8 :: "authority \<Rightarrow> u8" where
  "authority_as_u8 \<equiv> wire_as_u8 authority_table"

abbreviation authority_from_u8 :: "u8 \<Rightarrow> unknown_discriminant + authority" where
  "authority_from_u8 \<equiv> wire_from_u8 ''Authority'' authority_table"

abbreviation order_kind_as_u8 :: "order_kind \<Rightarrow> u8" where
  "order_kind_as_u8 \<equiv> wire_as_u8 order_kind_table"

abbreviation order_kind_from_u8 :: "u8 \<Rightarrow> unknown_discriminant + order_kind" where
  "order_kind_from_u8 \<equiv> wire_from_u8 ''OrderKind'' order_kind_table"

interpretation side: wire_enum side_table "''Side''"
proof
  fix x :: side show "x \<in> fst ` set side_table" by (cases x) (simp_all add: side_table_def)
qed (simp_all add: side_table_def lit_def)

interpretation authority: wire_enum authority_table "''Authority''"
proof
  fix x :: authority show "x \<in> fst ` set authority_table" by (cases x) (simp_all add: authority_table_def)
qed (simp_all add: authority_table_def lit_def)

interpretation order_kind: wire_enum order_kind_table "''OrderKind''"
proof
  fix x :: order_kind show "x \<in> fst ` set order_kind_table" by (cases x) (simp_all add: order_kind_table_def)
qed (simp_all add: order_kind_table_def lit_def)

interpretation time_in_force: wire_enum time_in_force_table "''TimeInForce''"
proof
  fix x :: time_in_force show "x \<in> fst ` set time_in_force_table"
    by (cases x) (simp_all add: time_in_force_table_def)
qed (simp_all add: time_in_force_table_def lit_def)

lemma sint_side_sign [simp]: "sint (side_sign s) = (case s of Buy \<Rightarrow> 1 | Sell \<Rightarrow> -1)"
  by (cases s) (simp_all add: side_sign_def)

lemma opposite_involutive [simp]: "opposite (opposite s) = s"
  by (cases s) (simp_all add: opposite_def)

end
