(* ===== verification/Risk.thy ===== *)
theory Risk
  imports Enums
begin

text \<open>
  Position sizing and protective-exit geometry (\<open>sentinel-risk/src/lib.rs\<close>). \<open>Ratio\<close> is a fraction in
  units of 1e-8, an \<open>i64\<close> like prices and quantities. \<open>i64::abs\<close> panics on the least integer, so \<open>atr\<close>
  returns \<open>None\<close> for a panic around its own \<open>Option\<close>.

  Shown here: what sizing risks, levers and is capped at, that a stop-out of the sized quantity loses no
  more than the risk amount, and that a trailing stop only ever tightens.
\<close>

type_synonym ratio = i64

definition ratio_ONE :: ratio where
  "ratio_ONE = word_of_int SCALE"

definition clamped :: "ratio \<Rightarrow> ratio" where
  "clamped r = (if sint r < 0 then 0 else if sint r > SCALE then ratio_ONE else r)"

definition scale :: "money \<Rightarrow> ratio \<Rightarrow> money" where
  "scale amount ratio =
     (case to_i64 ((sint amount * sint ratio) sdiv SCALE) of None \<Rightarrow> e8_zero | Some m \<Rightarrow> m)"

definition divide_qty :: "money \<Rightarrow> price \<Rightarrow> qty" where
  "divide_qty amount price =
     (if \<not> e8_is_positive price then e8_zero
      else case to_i64 ((sint amount * SCALE) sdiv sint price) of None \<Rightarrow> e8_zero | Some q \<Rightarrow> q)"

record risk_params =
  rk_risk_pct :: ratio
  rk_max_leverage :: ratio
  rk_stop_atr_mult :: ratio
  rk_fallback_stop_pct :: ratio
  rk_rr :: ratio
  rk_trail :: bool

record caps =
  cp_margin :: "qty option"
  cp_bracket :: "qty option"
  cp_available :: "qty option"

definition flatten_opts :: "'a option list \<Rightarrow> 'a list" where
  "flatten_opts xs = List.map_filter (\<lambda>x. x) xs"

definition caps_apply :: "caps \<Rightarrow> qty \<Rightarrow> qty" where
  "caps_apply c qty =
     foldl (\<lambda>q cap. e8_min q (e8_max cap e8_zero)) qty
       (flatten_opts [cp_margin c, cp_bracket c, cp_available c])"

record candle =
  cd_open :: price
  cd_high :: price
  cd_low :: price
  cd_close :: price

definition i64_abs :: "i64 \<Rightarrow> i64 option" where
  "i64_abs a = to_i64 \<bar>sint a\<bar>"

fun true_ranges :: "price \<Rightarrow> candle list \<Rightarrow> int \<Rightarrow> int option" where
  "true_ranges prev_close [] tot = Some tot"
| "true_ranges prev_close (candle # cs) tot =
     (let rng = saturating_sub_i64 (cd_high candle) (cd_low candle) in
      case i64_abs (saturating_sub_i64 (cd_high candle) prev_close) of None \<Rightarrow> None | Some up_gap \<Rightarrow>
      case i64_abs (saturating_sub_i64 (cd_low candle) prev_close) of None \<Rightarrow> None | Some down_gap \<Rightarrow>
        true_ranges (cd_close candle) cs
          (tot + max (max (sint rng) (sint up_gap)) (sint down_gap)))"

definition atr :: "candle list \<Rightarrow> nat \<Rightarrow> price option option" where
  "atr candles period =
     (if period = 0 \<or> length candles < period + 1 then Some None
      else let window = drop (length candles - period - 1) candles in
        case true_ranges (cd_close (hd window)) (tl window) 0 of
          None \<Rightarrow> None
        | Some tot \<Rightarrow> Some (to_i64 (tot sdiv int (length window - 1))))"

definition stop_distance :: "risk_params \<Rightarrow> price \<Rightarrow> price option \<Rightarrow> price" where
  "stop_distance params price atr_value =
     (case atr_value of
        Some v \<Rightarrow> if e8_is_positive v then scale v (rk_stop_atr_mult params)
                  else scale price (rk_fallback_stop_pct params)
      | None \<Rightarrow> scale price (rk_fallback_stop_pct params))"

definition brackets :: "price \<Rightarrow> bool \<Rightarrow> price \<Rightarrow> ratio \<Rightarrow> price \<times> price option" where
  "brackets entry is_long stop_dist rr =
     (let take_dist = (if sint rr > 0 then Some (scale stop_dist rr) else None) in
      if is_long
      then (saturating_sub_i64 entry stop_dist, map_option (\<lambda>d. saturating_add_i64 entry d) take_dist)
      else (saturating_add_i64 entry stop_dist, map_option (\<lambda>d. saturating_sub_i64 entry d) take_dist))"

datatype breach = Stop | Take

definition breached :: "bool \<Rightarrow> price \<Rightarrow> price \<Rightarrow> price option \<Rightarrow> breach option" where
  "breached is_long mark stop take' =
     (if is_long
      then if sint mark \<le> sint stop then Some Stop
           else if (case take' of Some t \<Rightarrow> sint mark \<ge> sint t | None \<Rightarrow> False) then Some Take else None
      else if sint mark \<ge> sint stop then Some Stop
           else if (case take' of Some t \<Rightarrow> sint mark \<le> sint t | None \<Rightarrow> False) then Some Take else None)"

definition risk_amount_of :: "risk_params \<Rightarrow> money \<Rightarrow> ratio \<Rightarrow> money" where
  "risk_amount_of params equity conviction = scale (scale equity (rk_risk_pct params)) (clamped conviction)"

definition risk_sized_qty ::
    "risk_params \<Rightarrow> money \<Rightarrow> price \<Rightarrow> price option \<Rightarrow> ratio \<Rightarrow> caps \<Rightarrow> qty" where
  "risk_sized_qty params equity price stop_dist conviction caps =
     (case stop_dist of None \<Rightarrow> e8_zero
      | Some stop_dist \<Rightarrow>
          if \<not> e8_is_positive equity \<or> \<not> e8_is_positive price \<or> \<not> e8_is_positive stop_dist then e8_zero
          else let risk_amount = risk_amount_of params equity conviction;
                   qty = divide_qty risk_amount stop_dist;
                   leverage_cap = divide_qty (scale equity (rk_max_leverage params)) price
               in caps_apply caps (e8_min qty leverage_cap))"

definition trail_ratchet ::
    "bool \<Rightarrow> price \<Rightarrow> price \<Rightarrow> price \<Rightarrow> price option \<Rightarrow> price option \<Rightarrow> price \<times> price" where
  "trail_ratchet is_long entry price stop_dist watermark previous_stop =
     (if is_long then
        let wm = (case watermark of None \<Rightarrow> price | Some w \<Rightarrow> e8_max w price);
            anchored = saturating_sub_i64 entry stop_dist;
            trailing = saturating_sub_i64 wm stop_dist;
            stop = e8_max anchored trailing;
            stop = (case previous_stop of Some prev \<Rightarrow> e8_max stop prev | None \<Rightarrow> stop)
        in (wm, stop)
      else
        let wm = (case watermark of None \<Rightarrow> price | Some w \<Rightarrow> e8_min w price);
            anchored = saturating_add_i64 entry stop_dist;
            trailing = saturating_add_i64 wm stop_dist;
            stop = e8_min anchored trailing;
            stop = (case previous_stop of Some prev \<Rightarrow> e8_min stop prev | None \<Rightarrow> stop)
        in (wm, stop))"

subsection \<open>Sizing\<close>

lemma scale_bounds:
  assumes "0 \<le> sint a" "0 \<le> sint r"
  shows "0 \<le> sint (scale a r)" "sint (scale a r) * SCALE \<le> sint a * sint r"
proof -
  have S: "0 < SCALE" by (simp add: SCALE_def)
  let ?x = "sint a * sint r"
  have x: "0 \<le> ?x" using assms by simp
  have q: "0 \<le> ?x sdiv SCALE" "(?x sdiv SCALE) * SCALE \<le> ?x"
    using sdiv_bounds(1,3) [OF S, of ?x] x by (auto simp: S)
  show "0 \<le> sint (scale a r)" "sint (scale a r) * SCALE \<le> sint a * sint r"
    using q x by (auto simp: scale_def i64_simps split: option.splits)
qed

lemma divide_bounds:
  assumes "0 \<le> sint a" "0 < sint p"
  shows "0 \<le> sint (divide_qty a p)" "sint (divide_qty a p) * sint p \<le> sint a * SCALE"
proof -
  let ?x = "sint a * SCALE"
  have x: "0 \<le> ?x" using assms by (simp add: SCALE_def)
  have q: "0 \<le> ?x sdiv sint p" "(?x sdiv sint p) * sint p \<le> ?x"
    using sdiv_bounds(1,3) [OF assms(2), of ?x] x by auto
  show "0 \<le> sint (divide_qty a p)" "sint (divide_qty a p) * sint p \<le> sint a * SCALE"
    using q x by (auto simp: divide_qty_def i64_simps split: option.splits)
qed

lemma clamped_bounds: "0 \<le> sint (clamped r)" "sint (clamped r) \<le> SCALE"
  by (auto simp: clamped_def ratio_ONE_def SCALE_def i64_simps in_i64_def i64_min_def i64_max_def)

lemma caps_fold:
  "sint (foldl (\<lambda>q cap. e8_min q (e8_max cap e8_zero)) q cs) \<le> sint q \<and>
   (\<forall>c \<in> set cs. sint (foldl (\<lambda>q cap. e8_min q (e8_max cap e8_zero)) q cs) \<le> max (sint c) 0) \<and>
   (0 \<le> sint q \<longrightarrow> 0 \<le> sint (foldl (\<lambda>q cap. e8_min q (e8_max cap e8_zero)) q cs))"
proof (induction cs arbitrary: q)
  case (Cons c cs)
  show ?case using Cons [of "e8_min q (e8_max c e8_zero)"] by (auto simp: sint_e8_min sint_e8_max)
qed simp

lemma flatten_opts_mem: "x \<in> set (flatten_opts xs) \<longleftrightarrow> Some x \<in> set xs"
  by (induction xs) (auto simp: flatten_opts_def List.map_filter_simps split: option.splits)

lemma caps_apply_bounds:
  "sint (caps_apply c q) \<le> sint q" "0 \<le> sint q \<Longrightarrow> 0 \<le> sint (caps_apply c q)"
  "Some x \<in> {cp_margin c, cp_bracket c, cp_available c} \<Longrightarrow> sint (caps_apply c q) \<le> max (sint x) 0"
  using caps_fold [of q "flatten_opts [cp_margin c, cp_bracket c, cp_available c]"]
  by (auto simp: caps_apply_def flatten_opts_mem)

subsection \<open>Properties\<close>

text \<open>
  C37: sizing. With non-negative parameters the sized quantity is non-negative; losing the stop distance on
  it loses no more than the equity fraction at the clamped conviction; its notional stays within the
  leverage cap; and it stays within every ceiling the caller gave, a negative one counting as zero.
\<close>

theorem sizing_bounds_the_loss:
  assumes "0 \<le> sint (rk_risk_pct params)" "0 \<le> sint (rk_max_leverage params)"
    "risk_sized_qty params equity price (Some dist) conviction caps = q"
  shows "0 \<le> sint q \<and>
    (sint q \<noteq> 0 \<longrightarrow>
      sint q * sint dist * SCALE \<le> sint equity * sint (rk_risk_pct params) * sint (clamped conviction) \<and>
      sint q * sint price \<le> sint equity * sint (rk_max_leverage params)) \<and>
    (\<forall>cap. Some cap \<in> {cp_margin caps, cp_bracket caps, cp_available caps} \<longrightarrow> sint q \<le> max (sint cap) 0)"
proof (cases "0 < sint equity \<and> 0 < sint price \<and> 0 < sint dist")
  case False
  then have "q = e8_zero" using assms(3) by (auto simp: risk_sized_qty_def e8_is_positive_def)
  then show ?thesis by simp
next
  case True
  let ?e = "sint equity" and ?p = "sint (rk_risk_pct params)" and ?c = "sint (clamped conviction)"
  let ?s1 = "scale equity (rk_risk_pct params)"
  let ?ra = "risk_amount_of params equity conviction"
  let ?q1 = "divide_qty ?ra dist" and ?lv = "scale equity (rk_max_leverage params)"
  let ?q2 = "divide_qty ?lv price"
  have q: "q = caps_apply caps (e8_min ?q1 ?q2)"
    using True assms(3) by (simp add: risk_sized_qty_def e8_is_positive_def)
  note s1 = scale_bounds [of equity "rk_risk_pct params"]
  note ra = scale_bounds [of ?s1 "clamped conviction", folded risk_amount_of_def]
  note lv = scale_bounds [of equity "rk_max_leverage params"]
  note d1 = divide_bounds [of ?ra dist] and d2 = divide_bounds [of ?lv price]
  have nn: "0 \<le> sint (e8_min ?q1 ?q2)" "sint q \<le> sint ?q1" "sint q \<le> sint ?q2" "0 \<le> sint q"
    using True assms(1,2) s1 ra lv d1 d2 clamped_bounds caps_apply_bounds(1) [of caps "e8_min ?q1 ?q2"]
      caps_apply_bounds(2) [of "e8_min ?q1 ?q2" caps]
    by (auto simp: q sint_e8_min)
  have "sint q * sint dist * SCALE \<le> sint ?q1 * sint dist * SCALE"
    using nn(2) True by (simp add: SCALE_def)
  also have "\<dots> \<le> sint ?ra * SCALE * SCALE"
    using d1(2) ra(1) s1(1) True assms(1) clamped_bounds by (simp add: SCALE_def mult.commute)
  also have "\<dots> \<le> sint ?s1 * ?c * SCALE"
    using ra(2) s1(1) True assms(1) clamped_bounds by (simp add: SCALE_def mult.commute)
  also have "\<dots> \<le> ?e * ?p * ?c"
    using s1(2) True assms(1) clamped_bounds(1) [of conviction]
      mult_right_mono [of "sint ?s1 * SCALE" "?e * ?p" ?c] by (simp add: mult_ac)
  finally have loss: "sint q * sint dist * SCALE \<le> ?e * ?p * ?c" .
  have "sint q * sint price \<le> sint ?q2 * sint price" using nn(3) True by simp
  also have "\<dots> \<le> ?e * sint (rk_max_leverage params)" using d2(2) lv True assms(2) by simp
  finally show ?thesis using loss nn(4) caps_apply_bounds(3) [of _ caps "e8_min ?q1 ?q2"] by (simp add: q)
qed

theorem sizing_bounds_the_loss_witness:
  "sint (risk_sized_qty \<lparr>rk_risk_pct = 2000000, rk_max_leverage = 300000000, rk_stop_atr_mult = 200000000,
       rk_fallback_stop_pct = 1000000, rk_rr = 0, rk_trail = True\<rparr> 1000000000000 5000000000 (Some 100000000)
     100000000 \<lparr>cp_margin = Some 700000000, cp_bracket = None, cp_available = None\<rparr>) \<le> max 700000000 0"
  using sizing_bounds_the_loss [of "\<lparr>rk_risk_pct = 2000000, rk_max_leverage = 300000000, rk_stop_atr_mult = 200000000,
       rk_fallback_stop_pct = 1000000, rk_rr = 0, rk_trail = True\<rparr>" 1000000000000 5000000000 100000000
     100000000 "\<lparr>cp_margin = Some 700000000, cp_bracket = None, cp_available = None\<rparr>", OF _ _ refl]
  by simp

text \<open>
  A trailing stop only tightens. Whatever the entry, the price and the distance now, the new stop of a
  long is at or above the previous one and the entry-anchored one, the watermark is the best price seen,
  and the stop is the distance behind it or tighter; a short is the mirror image.
\<close>

theorem trailing_stop_only_tightens:
  "(trail_ratchet True entry price dist wm (Some prev) = (wm', stop) \<longrightarrow>
      sint prev \<le> sint stop \<and> sint (saturating_sub_i64 entry dist) \<le> sint stop \<and>
      sint (saturating_sub_i64 wm' dist) \<le> sint stop \<and> sint price \<le> sint wm' \<and>
      (\<forall>w \<in> set_option wm. sint w \<le> sint wm')) \<and>
   (trail_ratchet False entry price dist wm (Some prev) = (wm', stop) \<longrightarrow>
      sint stop \<le> sint prev \<and> sint stop \<le> sint (saturating_add_i64 entry dist) \<and>
      sint stop \<le> sint (saturating_add_i64 wm' dist) \<and> sint wm' \<le> sint price \<and>
      (\<forall>w \<in> set_option wm. sint wm' \<le> sint w))"
  by (auto simp: trail_ratchet_def Let_def sint_e8_max sint_e8_min split: option.splits)

theorem trailing_stop_only_tightens_witness:
  "sint (90 :: i64) \<le> sint (snd (trail_ratchet True 100 105 20 (Some 110) (Some 90)))"
  using trailing_stop_only_tightens [of 100 105 20 "Some 110" 90
      "fst (trail_ratchet True 100 105 20 (Some 110) (Some 90))"
      "snd (trail_ratchet True 100 105 20 (Some 110) (Some 90))"]
  by simp

end
