(* ===== verification/Lifecycle.thy ===== *)
theory Lifecycle
  imports Enums
begin

text \<open>
  The order lifecycle (\<open>sentinel-domain/src\<close>: \<open>state.rs\<close>, \<open>event.rs\<close>, \<open>error.rs\<close>, \<open>order.rs\<close>,
  \<open>transition.rs\<close>): the states and their allowed-transition map, the events, the order snapshot
  and the pure transition function with its overfill arithmetic.

  Shown here: every accepted event moves along the map, identity and authorised size never change,
  the recorded fill stays within the order and never shrinks except by the venue's own resolution,
  \<open>UNKNOWN\<close> and the terminal states leave only through reconciliation, nothing but a resolution
  leaves \<open>RECONCILING\<close>, a submission happens at most once in the life of an order, and every
  refusal is classified exactly.
\<close>

subsection \<open>States\<close>

datatype order_state =
    Created | Submitting | Working | Partial | CancelPending
  | Unknown | Reconciling | Filled | Canceled | Rejected

definition order_state_table :: "order_state wire_table" where
  "order_state_table =
     [(Created, 1, ''CREATED''), (Submitting, 2, ''SUBMITTING''), (Working, 3, ''WORKING''),
      (Partial, 4, ''PARTIAL''), (CancelPending, 5, ''CANCEL_PENDING''), (Unknown, 6, ''UNKNOWN''),
      (Reconciling, 7, ''RECONCILING''), (Filled, 8, ''FILLED''), (Canceled, 9, ''CANCELED''),
      (Rejected, 10, ''REJECTED'')]"

abbreviation order_state_as_u8 :: "order_state \<Rightarrow> u8" where
  "order_state_as_u8 \<equiv> wire_as_u8 order_state_table"

abbreviation order_state_from_u8 :: "u8 \<Rightarrow> unknown_discriminant + order_state" where
  "order_state_from_u8 \<equiv> wire_from_u8 ''OrderState'' order_state_table"

definition state_is_terminal :: "order_state \<Rightarrow> bool" where
  "state_is_terminal s \<longleftrightarrow> s \<in> {Filled, Canceled, Rejected}"

definition state_is_live :: "order_state \<Rightarrow> bool" where
  "state_is_live s \<longleftrightarrow>
     s \<in> {Created, Submitting, Working, Partial, CancelPending, Unknown, Reconciling}"

definition state_locks_instrument :: "order_state \<Rightarrow> bool" where
  "state_locks_instrument s \<longleftrightarrow> s \<in> {Unknown, Reconciling}"

fun allowed :: "order_state \<Rightarrow> order_state list" where
  "allowed Created = [Submitting, Reconciling]"
| "allowed Submitting = [Working, Partial, Filled, Rejected, Unknown, Reconciling]"
| "allowed Working = [Partial, Filled, CancelPending, Canceled, Reconciling]"
| "allowed Partial = [Partial, Filled, CancelPending, Canceled, Reconciling]"
| "allowed CancelPending = [CancelPending, Canceled, Filled, Reconciling]"
| "allowed Unknown = [Reconciling]"
| "allowed Reconciling = [Reconciling, Working, Partial, Filled, Canceled, Rejected]"
| "allowed Filled = [Reconciling]"
| "allowed Canceled = [Reconciling]"
| "allowed Rejected = [Reconciling]"

definition permits :: "order_state \<Rightarrow> order_state \<Rightarrow> bool" where
  "permits s target \<longleftrightarrow> List.member (allowed s) target"

subsection \<open>Events\<close>

datatype event_kind =
    KSubmissionStarted | KVenueAcked | KVenueRejected | KSubmissionTimedOut | KFillReceived
  | KCancelRequested | KCancelConfirmed | KReconcileStarted | KReconcileResolved

definition event_kind_table :: "event_kind wire_table" where
  "event_kind_table =
     [(KSubmissionStarted, 1, ''SUBMISSION_STARTED''), (KVenueAcked, 2, ''VENUE_ACKED''),
      (KVenueRejected, 3, ''VENUE_REJECTED''), (KSubmissionTimedOut, 4, ''SUBMISSION_TIMED_OUT''),
      (KFillReceived, 5, ''FILL_APPLIED''), (KCancelRequested, 6, ''CANCEL_REQUESTED''),
      (KCancelConfirmed, 7, ''CANCEL_CONFIRMED''), (KReconcileStarted, 8, ''RECONCILE_STARTED''),
      (KReconcileResolved, 9, ''RECONCILE_RESOLVED'')]"

abbreviation event_kind_as_u8 :: "event_kind \<Rightarrow> u8" where
  "event_kind_as_u8 \<equiv> wire_as_u8 event_kind_table"

abbreviation event_kind_from_u8 :: "u8 \<Rightarrow> unknown_discriminant + event_kind" where
  "event_kind_from_u8 \<equiv> wire_from_u8 ''EventKind'' event_kind_table"

datatype reconcile_cause =
    SubmissionTimeout | CancelTimeout | ReplayedMidSubmission | LateFill | LateCancelConfirm
  | StaleSweep | PositionDisagreement

fun cause_as_str :: "reconcile_cause \<Rightarrow> str" where
  "cause_as_str SubmissionTimeout = lit ''submission timeout''"
| "cause_as_str CancelTimeout = lit ''cancel timeout''"
| "cause_as_str ReplayedMidSubmission = lit ''replayed mid-submission''"
| "cause_as_str LateFill = lit ''late fill''"
| "cause_as_str LateCancelConfirm = lit ''late cancel-confirm''"
| "cause_as_str StaleSweep = lit ''stale sweep''"
| "cause_as_str PositionDisagreement = lit ''position disagreement''"

record reject_reason =
  rr_code :: i32
  rr_text :: inline_str

text \<open>\<open>str::is_char_boundary\<close>: the start, the end, or a byte that is not a continuation byte.\<close>

definition is_char_boundary :: "str \<Rightarrow> nat \<Rightarrow> bool" where
  "is_char_boundary s i \<longleftrightarrow>
     i = 0 \<or> i = length s \<or> (i < length s \<and> \<not> utf8_cont (s ! i))"

fun char_floor :: "str \<Rightarrow> nat \<Rightarrow> nat" where
  "char_floor s 0 = 0"
| "char_floor s (Suc n) = (if is_char_boundary s (Suc n) then Suc n else char_floor s n)"

definition reject_reason_new :: "i32 \<Rightarrow> str \<Rightarrow> reject_reason" where
  "reject_reason_new code s =
     (let end' = char_floor s (min (length s) 64)
      in \<lparr>rr_code = code, rr_text = inline_or_default 64 (take end' s)\<rparr>)"

datatype order_event =
    SubmissionStarted
  | VenueAcked venue_order_id
  | VenueRejected reject_reason
  | SubmissionTimedOut
  | FillReceived exec_id qty price
  | CancelRequested
  | CancelConfirmed
  | ReconcileStarted reconcile_cause
  | ReconcileResolved order_state "venue_order_id option" qty

fun event_kind_of :: "order_event \<Rightarrow> event_kind" where
  "event_kind_of SubmissionStarted = KSubmissionStarted"
| "event_kind_of (VenueAcked _) = KVenueAcked"
| "event_kind_of (VenueRejected _) = KVenueRejected"
| "event_kind_of SubmissionTimedOut = KSubmissionTimedOut"
| "event_kind_of (FillReceived _ _ _) = KFillReceived"
| "event_kind_of CancelRequested = KCancelRequested"
| "event_kind_of CancelConfirmed = KCancelConfirmed"
| "event_kind_of (ReconcileStarted _) = KReconcileStarted"
| "event_kind_of (ReconcileResolved _ _ _) = KReconcileResolved"

definition is_venue_evidence :: "order_event \<Rightarrow> bool" where
  "is_venue_evidence e =
     (case e of VenueAcked _ \<Rightarrow> True | VenueRejected _ \<Rightarrow> True | FillReceived _ _ _ \<Rightarrow> True
      | CancelConfirmed \<Rightarrow> True | ReconcileResolved _ _ _ \<Rightarrow> True | _ \<Rightarrow> False)"

subsection \<open>Errors\<close>

datatype transition_error =
    Illegal order_state event_kind "order_state option"
  | RequiresReconciliation order_state event_kind
  | Overfill qty qty qty
  | NonPositiveFill qty
  | TOverflow

definition needs_reconciliation :: "transition_error \<Rightarrow> bool" where
  "needs_reconciliation e = (case e of RequiresReconciliation _ _ \<Rightarrow> True | _ \<Rightarrow> False)"

definition transition_is_integrity_violation :: "transition_error \<Rightarrow> bool" where
  "transition_is_integrity_violation e =
     (case e of Overfill _ _ _ \<Rightarrow> True | TOverflow \<Rightarrow> True | _ \<Rightarrow> False)"

subsection \<open>The order snapshot\<close>

record order_core =
  oc_client_order_id :: client_order_id
  oc_instrument :: instrument
  oc_side :: side
  oc_qty :: qty
  oc_filled_qty :: qty
  oc_state :: order_state
  oc_venue_order_id :: "venue_order_id option"

definition created :: "client_order_id \<Rightarrow> instrument \<Rightarrow> side \<Rightarrow> qty \<Rightarrow> order_core" where
  "created client_order_id instrument side qty =
     \<lparr>oc_client_order_id = client_order_id, oc_instrument = instrument, oc_side = side,
      oc_qty = qty, oc_filled_qty = e8_zero, oc_state = Created, oc_venue_order_id = None\<rparr>"

definition core_remaining_qty :: "order_core \<Rightarrow> qty" where
  "core_remaining_qty o' =
     e8_max (unwrap_or e8_zero (e8_checked_sub (oc_qty o') (oc_filled_qty o'))) e8_zero"

definition core_is_terminal :: "order_core \<Rightarrow> bool" where
  "core_is_terminal o' = state_is_terminal (oc_state o')"

definition core_locks_instrument :: "order_core \<Rightarrow> bool" where
  "core_locks_instrument o' = state_locks_instrument (oc_state o')"

definition signed_filled :: "order_core \<Rightarrow> qty" where
  "signed_filled o' = saturating_mul_i64 (oc_filled_qty o') (side_sign (oc_side o'))"

subsection \<open>The transition function\<close>

definition OVERFILL_GROSS_MULTIPLE :: nat where
  "OVERFILL_GROSS_MULTIPLE = 2"

definition guard :: "order_state \<Rightarrow> order_state \<Rightarrow> event_kind \<Rightarrow> transition_error + unit" where
  "guard from to event =
     (if permits from to then Inr () else Inl (Illegal from event (Some to)))"

fun gross_loop :: "nat \<Rightarrow> qty \<Rightarrow> qty \<Rightarrow> transition_error + qty" where
  "gross_loop 0 ceiling qty = Inr ceiling"
| "gross_loop (Suc n) ceiling qty =
     res_bind (map_err (\<lambda>_. TOverflow) (e8_checked_add ceiling qty)) (\<lambda>c. gross_loop n c qty)"

definition gross_ceiling :: "qty \<Rightarrow> transition_error + qty" where
  "gross_ceiling qty = gross_loop (OVERFILL_GROSS_MULTIPLE - 1) qty qty"

definition transition_apply_fill ::
    "order_core \<Rightarrow> qty \<Rightarrow> event_kind \<Rightarrow> transition_error + order_core" where
  "transition_apply_fill order fill_qty kind =
     (let s = oc_state order in
      if state_is_terminal s \<or> s = Unknown then Inl (RequiresReconciliation s kind)
      else if \<not> s \<in> {Submitting, Working, Partial, CancelPending, Reconciling}
      then Inl (Illegal s kind None)
      else if \<not> e8_is_positive fill_qty then Inl (NonPositiveFill fill_qty)
      else res_bind (map_err (\<lambda>_. TOverflow) (e8_checked_add (oc_filled_qty order) fill_qty))
        (\<lambda>new_filled. res_bind (gross_ceiling (oc_qty order)) (\<lambda>ceiling.
           if sint new_filled > sint ceiling
           then Inl (Overfill (oc_qty order) (oc_filled_qty order) fill_qty)
           else let recorded = e8_min new_filled (oc_qty order);
                    target = (if s = Reconciling then Reconciling
                              else if sint recorded \<ge> sint (oc_qty order) then Filled
                              else if s = CancelPending then CancelPending
                              else Partial)
                in res_bind (guard s target kind)
                     (\<lambda>_. Inr (order\<lparr>oc_state := target, oc_filled_qty := recorded\<rparr>)))))"

definition apply_cancel_confirmed ::
    "order_core \<Rightarrow> event_kind \<Rightarrow> transition_error + order_core" where
  "apply_cancel_confirmed order kind =
     (let s = oc_state order in
      if s = Reconciling \<or> s = Canceled then Inr order
      else if s \<in> {Filled, Rejected, Unknown} then Inl (RequiresReconciliation s kind)
      else if s \<in> {CancelPending, Working, Partial}
      then res_bind (guard s Canceled kind) (\<lambda>_. Inr (order\<lparr>oc_state := Canceled\<rparr>))
      else Inl (Illegal s kind (Some Canceled)))"

definition transition :: "order_core \<Rightarrow> order_event \<Rightarrow> transition_error + order_core" where
  "transition order event =
     (let s = oc_state order; kind = event_kind_of event in
      case event of
        SubmissionStarted \<Rightarrow>
          if s \<noteq> Created then Inl (Illegal s kind (Some Submitting))
          else res_bind (guard s Submitting kind) (\<lambda>_. Inr (order\<lparr>oc_state := Submitting\<rparr>))
      | VenueAcked venue_order_id \<Rightarrow>
          if s \<noteq> Submitting then Inl (Illegal s kind (Some Working))
          else res_bind (guard s Working kind)
            (\<lambda>_. Inr (order\<lparr>oc_state := Working, oc_venue_order_id := Some venue_order_id\<rparr>))
      | VenueRejected _ \<Rightarrow>
          if s \<noteq> Submitting then Inl (Illegal s kind (Some Rejected))
          else res_bind (guard s Rejected kind) (\<lambda>_. Inr (order\<lparr>oc_state := Rejected\<rparr>))
      | SubmissionTimedOut \<Rightarrow>
          if s \<noteq> Submitting then Inl (Illegal s kind (Some Unknown))
          else res_bind (guard s Unknown kind) (\<lambda>_. Inr (order\<lparr>oc_state := Unknown\<rparr>))
      | FillReceived _ qty _ \<Rightarrow> transition_apply_fill order qty kind
      | CancelRequested \<Rightarrow>
          if \<not> s \<in> {Working, Partial} then Inl (Illegal s kind (Some CancelPending))
          else res_bind (guard s CancelPending kind) (\<lambda>_. Inr (order\<lparr>oc_state := CancelPending\<rparr>))
      | CancelConfirmed \<Rightarrow> apply_cancel_confirmed order kind
      | ReconcileStarted _ \<Rightarrow>
          if s = Reconciling then Inl (Illegal s kind (Some Reconciling))
          else res_bind (guard s Reconciling kind) (\<lambda>_. Inr (order\<lparr>oc_state := Reconciling\<rparr>))
      | ReconcileResolved state venue_order_id filled_qty \<Rightarrow>
          if s \<noteq> Reconciling then Inl (Illegal s kind (Some state))
          else res_bind (guard s state kind) (\<lambda>_. res_bind (gross_ceiling (oc_qty order)) (\<lambda>ceiling.
            if e8_is_negative filled_qty \<or> sint filled_qty > sint ceiling
            then Inl (Overfill (oc_qty order) e8_zero filled_qty)
            else Inr (order\<lparr>oc_state := state,
                   oc_venue_order_id := (case venue_order_id of Some v \<Rightarrow> Some v
                                         | None \<Rightarrow> oc_venue_order_id order),
                   oc_filled_qty := e8_min filled_qty (oc_qty order)\<rparr>))))"

interpretation order_state: wire_enum order_state_table "''OrderState''"
proof
  fix x :: order_state show "x \<in> fst ` set order_state_table"
    by (cases x) (simp_all add: order_state_table_def)
qed (simp_all add: order_state_table_def lit_def)

interpretation event_kind: wire_enum event_kind_table "''EventKind''"
proof
  fix x :: event_kind show "x \<in> fst ` set event_kind_table"
    by (cases x) (simp_all add: event_kind_table_def)
qed (simp_all add: event_kind_table_def lit_def)

subsection \<open>What an accepted event does\<close>

named_theorems lifecycle_simps \<open>the transition function, one rewrite rule per event\<close>

lemma gross_ceiling_Inr [i64_simps]: "gross_ceiling q = Inr c \<longleftrightarrow> sint c = 2 * sint q"
  by (auto simp: gross_ceiling_def OVERFILL_GROSS_MULTIPLE_def i64_simps)

lemma gross_ceiling_Inl [i64_simps]:
  "gross_ceiling q = Inl e \<longleftrightarrow> e = TOverflow \<and> \<not> in_i64 (2 * sint q)"
proof (cases "e8_checked_add q q")
  case (Inl x)
  then have "\<not> in_i64 (2 * sint q)" by (simp add: e8_checked_add_Inl)
  with Inl show ?thesis by (auto simp: gross_ceiling_def OVERFILL_GROSS_MULTIPLE_def)
next
  case (Inr y)
  then have "in_i64 (2 * sint q)" by (metis e8_checked_add_Inr in_i64_sint mult_2)
  with Inr show ?thesis by (auto simp: gross_ceiling_def OVERFILL_GROSS_MULTIPLE_def)
qed

lemma guard_simps [simp]:
  "guard a b k = Inr u \<longleftrightarrow> permits a b" "guard a b k = Inl e \<longleftrightarrow> \<not> permits a b \<and> e = Illegal a k (Some b)"
  by (auto simp: guard_def)

lemma permits_iff: "permits a b \<longleftrightarrow> b \<in> set (allowed a)"
  by (simp add: permits_def)

text \<open>What an order carries through every event.\<close>

definition same_identity :: "order_core \<Rightarrow> order_core \<Rightarrow> bool" where
  "same_identity a b \<longleftrightarrow>
     oc_client_order_id b = oc_client_order_id a \<and> oc_instrument b = oc_instrument a \<and>
     oc_side b = oc_side a \<and> oc_qty b = oc_qty a"

definition fill_target :: "order_core \<Rightarrow> qty \<Rightarrow> order_state" where
  "fill_target o' q =
     (if oc_state o' = Reconciling then Reconciling
      else if sint (oc_qty o') \<le> sint (oc_filled_qty o') + sint q then Filled
      else if oc_state o' = CancelPending then CancelPending else Partial)"

lemma fill_InrD:
  assumes "transition_apply_fill o' q k = Inr p"
  shows "oc_state o' \<in> {Submitting, Working, Partial, CancelPending, Reconciling}" "0 < sint q"
    "sint (oc_filled_qty o') + sint q \<le> 2 * sint (oc_qty o')"
    "sint (oc_filled_qty p) = min (sint (oc_filled_qty o') + sint q) (sint (oc_qty o'))"
    "oc_state p = fill_target o' q" "same_identity o' p"
    "oc_venue_order_id p = oc_venue_order_id o'" "permits (oc_state o') (oc_state p)"
proof -
  from assms have s: "oc_state o' \<in> {Submitting, Working, Partial, CancelPending, Reconciling}" "0 < sint q"
    by (auto simp: transition_apply_fill_def Let_def e8_is_positive_def split: if_splits)
  then have np: "\<not> (state_is_terminal (oc_state o') \<or> oc_state o' = Unknown)" "e8_is_positive q"
    by (auto simp: state_is_terminal_def e8_is_positive_def)
  obtain n where add: "e8_checked_add (oc_filled_qty o') q = Inr n"
    using assms s np by (cases "e8_checked_add (oc_filled_qty o') q")
      (auto simp: transition_apply_fill_def Let_def)
  obtain c where ceil: "gross_ceiling (oc_qty o') = Inr c"
    using assms s np add by (cases "gross_ceiling (oc_qty o')")
      (auto simp: transition_apply_fill_def Let_def)
  have n: "sint n = sint (oc_filled_qty o') + sint q" "sint c = 2 * sint (oc_qty o')"
    using add ceil by (simp_all add: i64_simps)
  have tgt: "(if oc_state o' = Reconciling then Reconciling
       else if sint (oc_qty o') \<le> sint (e8_min n (oc_qty o')) then Filled
       else if oc_state o' = CancelPending then CancelPending else Partial) = fill_target o' q"
    using n by (auto simp: fill_target_def i64_simps)
  from assms s np add ceil have le: "sint n \<le> sint c" and g: "permits (oc_state o') (fill_target o' q)"
    and p: "p = o'\<lparr>oc_state := fill_target o' q, oc_filled_qty := e8_min n (oc_qty o')\<rparr>"
    by (simp_all add: transition_apply_fill_def Let_def tgt split: if_split_asm)
  show "oc_state o' \<in> {Submitting, Working, Partial, CancelPending, Reconciling}" "0 < sint q"
    using s by auto
  show "sint (oc_filled_qty o') + sint q \<le> 2 * sint (oc_qty o')" using n le by simp
  show "sint (oc_filled_qty p) = min (sint (oc_filled_qty o') + sint q) (sint (oc_qty o'))"
    "oc_state p = fill_target o' q" "same_identity o' p"
    "oc_venue_order_id p = oc_venue_order_id o'" "permits (oc_state o') (oc_state p)"
    using n p g by (simp_all add: i64_simps same_identity_def)
qed

lemma resolve_InrD:
  assumes "transition o' (ReconcileResolved st v f) = Inr p"
  shows "oc_state o' = Reconciling" "permits Reconciling st" "0 \<le> sint f"
    "sint f \<le> 2 * sint (oc_qty o')" "oc_state p = st" "same_identity o' p"
    "sint (oc_filled_qty p) = min (sint f) (sint (oc_qty o'))"
  using assms by (auto simp: transition_def Let_def same_identity_def e8_is_negative_def i64_simps
      split: if_splits)

text \<open>Every other accepted event: where it is accepted, and exactly what it does.\<close>

lemma transition_Inr_simps [lifecycle_simps]:
  "transition o' SubmissionStarted = Inr p \<longleftrightarrow>
     oc_state o' = Created \<and> p = o'\<lparr>oc_state := Submitting\<rparr>"
  "transition o' (VenueAcked v) = Inr p \<longleftrightarrow>
     oc_state o' = Submitting \<and> p = o'\<lparr>oc_state := Working, oc_venue_order_id := Some v\<rparr>"
  "transition o' (VenueRejected r) = Inr p \<longleftrightarrow>
     oc_state o' = Submitting \<and> p = o'\<lparr>oc_state := Rejected\<rparr>"
  "transition o' SubmissionTimedOut = Inr p \<longleftrightarrow>
     oc_state o' = Submitting \<and> p = o'\<lparr>oc_state := Unknown\<rparr>"
  "transition o' CancelRequested = Inr p \<longleftrightarrow>
     oc_state o' \<in> {Working, Partial} \<and> p = o'\<lparr>oc_state := CancelPending\<rparr>"
  "transition o' CancelConfirmed = Inr p \<longleftrightarrow>
     oc_state o' \<in> {Reconciling, Canceled} \<and> p = o' \<or>
     oc_state o' \<in> {CancelPending, Working, Partial} \<and> p = o'\<lparr>oc_state := Canceled\<rparr>"
  "transition o' (ReconcileStarted c) = Inr p \<longleftrightarrow>
     oc_state o' \<noteq> Reconciling \<and> p = o'\<lparr>oc_state := Reconciling\<rparr>"
  by (cases "oc_state o'";
      auto simp: transition_def apply_cancel_confirmed_def Let_def permits_iff)+

lemma transition_fill [lifecycle_simps]:
  "transition o' (FillReceived x q pr) = transition_apply_fill o' q KFillReceived"
  by (simp add: transition_def Let_def)

text \<open>An execution within the limits is accepted by every state that takes executions.\<close>

lemma fill_accepted:
  assumes "oc_state core \<in> {Submitting, Working, Partial, CancelPending, Reconciling}" "0 < sint q" "0 \<le> sint (oc_filled_qty core)"
    "sint (oc_filled_qty core) + sint q \<le> 2 * sint (oc_qty core)" "in_i64 (2 * sint (oc_qty core))"
  shows "\<exists>p. transition core (FillReceived x q pr) = Inr p"
proof -
  have "in_i64 (sint (oc_filled_qty core) + sint q)" using assms by (auto simp: in_i64_def i64_min_def)
  then obtain n where n: "e8_checked_add (oc_filled_qty core) q = Inr n" by (cases "e8_checked_add (oc_filled_qty core) q") (auto simp: e8_checked_add_Inl)
  then have sn: "sint n = sint (oc_filled_qty core) + sint q" by (simp add: e8_checked_add_Inr)
  obtain c where c: "gross_ceiling (oc_qty core) = Inr c" using assms(5) by (cases "gross_ceiling (oc_qty core)") (auto simp: gross_ceiling_Inl)
  then have sc: "sint c = 2 * sint (oc_qty core)" by (simp add: gross_ceiling_Inr)
  show ?thesis
    using assms(1,2,4) n sn c sc
    by (auto simp: transition_fill transition_apply_fill_def Let_def state_is_terminal_def e8_is_positive_def guard_def permits_iff)
qed

lemma transition_permits:
  assumes "transition o' e = Inr p"
  shows "permits (oc_state o') (oc_state p) \<or> e = CancelConfirmed \<and> p = o' \<and> oc_state o' \<in> {Reconciling, Canceled}"
proof (cases e)
  case (FillReceived x q pr)
  then show ?thesis using assms fill_InrD(8) by (simp add: transition_fill)
next
  case (ReconcileResolved st v f)
  then show ?thesis using assms resolve_InrD by metis
qed (use assms in \<open>auto simp: transition_Inr_simps permits_iff\<close>, (cases "oc_state o'"; simp)+)

lemma transition_identity:
  assumes "transition o' e = Inr p"
  shows "same_identity o' p"
proof (cases e)
  case (FillReceived x q pr)
  then show ?thesis using assms fill_InrD(6) by (simp add: transition_fill)
next
  case (ReconcileResolved st v f)
  then show ?thesis using assms resolve_InrD by metis
qed (use assms in \<open>auto simp: transition_Inr_simps same_identity_def\<close>)

subsection \<open>The life of an order\<close>

text \<open>
  The book replaces its order by the result of an accepted event and keeps it on a refusal, so the
  life of an order is a run of this operation over any sequence of events, refused ones included.
\<close>

definition transition_step :: "order_event \<Rightarrow> (order_core, transition_error, unit) op" where
  "transition_step e o' =
     (case transition o' e of Inl err \<Rightarrow> (Inl err, o') | Inr p \<Rightarrow> (Inr (), p))"

definition life :: "order_event list \<Rightarrow> order_core \<Rightarrow> order_core" where
  "life es o' = run_ops transition_step es o'"

text \<open>The events of a life that were accepted, in order.\<close>

fun accepted :: "order_core \<Rightarrow> order_event list \<Rightarrow> order_event list" where
  "accepted o' [] = []"
| "accepted o' (e # es) =
     (case transition o' e of Inl _ \<Rightarrow> accepted o' es | Inr p \<Rightarrow> e # accepted p es)"

lemma life_simps [simp]:
  "life [] o' = o'"
  "life (e # es) o' = (case transition o' e of Inl _ \<Rightarrow> life es o' | Inr p \<Rightarrow> life es p)"
  by (auto simp: life_def transition_step_def split: sum.splits)

text \<open>The order invariant: within its size, and nothing filled before the venue has it.\<close>

definition order_inv :: "order_core \<Rightarrow> bool" where
  "order_inv o' \<longleftrightarrow>
     0 < sint (oc_qty o') \<and> 0 \<le> sint (oc_filled_qty o') \<and> sint (oc_filled_qty o') \<le> sint (oc_qty o') \<and>
     (oc_state o' \<in> {Created, Submitting, Unknown} \<longrightarrow> oc_filled_qty o' = 0)"

lemma order_inv_transition:
  assumes "order_inv o'" "transition o' e = Inr p"
  shows "order_inv p"
proof (cases e)
  case (FillReceived x q pr)
  then have f: "transition_apply_fill o' q KFillReceived = Inr p" using assms(2) by (simp add: transition_fill)
  show ?thesis
    using assms(1) fill_InrD [OF f] by (auto simp: order_inv_def fill_target_def same_identity_def)
next
  case (ReconcileResolved st v f)
  then have r: "transition o' (ReconcileResolved st v f) = Inr p" using assms(2) by simp
  show ?thesis
    using assms(1) resolve_InrD [OF r] by (auto simp: order_inv_def same_identity_def permits_iff)
qed (use assms in \<open>auto simp: transition_Inr_simps order_inv_def\<close>)

interpretation lifecycle: machine transition_step order_inv
  by unfold_locales (auto simp: transition_step_def order_inv_transition split: sum.splits)

definition is_resolution :: "order_event \<Rightarrow> bool" where
  "is_resolution e = (case e of ReconcileResolved _ _ _ \<Rightarrow> True | _ \<Rightarrow> False)"

definition fill_of :: "order_event \<Rightarrow> int" where
  "fill_of e = (case e of FillReceived _ q _ \<Rightarrow> sint q | _ \<Rightarrow> 0)"

lemma fill_of_nonneg: "transition o' e = Inr p \<Longrightarrow> 0 \<le> fill_of e"
  by (cases e) (auto simp: fill_of_def transition_fill dest: fill_InrD(2))

lemma fills_accounted_step:
  assumes "order_inv o'" "transition o' e = Inr p" "\<not> is_resolution e"
  shows "sint (oc_filled_qty p) = min (sint (oc_qty o')) (sint (oc_filled_qty o') + fill_of e)"
proof (cases e)
  case (FillReceived x q pr)
  then have f: "transition_apply_fill o' q KFillReceived = Inr p" using assms(2) by (simp add: transition_fill)
  then show ?thesis using fill_InrD(4) [OF f] FillReceived by (simp add: fill_of_def)
next
  case (ReconcileResolved st v f)
  then show ?thesis using assms(3) by (simp add: is_resolution_def)
qed (use assms in \<open>auto simp: transition_Inr_simps fill_of_def order_inv_def\<close>)

lemma fills_accounted:
  "order_inv o' \<Longrightarrow> \<not> (\<exists>e \<in> set es. is_resolution e) \<Longrightarrow>
   0 \<le> sum_list (map fill_of (accepted o' es)) \<and>
   sint (oc_filled_qty (life es o')) =
     min (sint (oc_qty o')) (sint (oc_filled_qty o') + sum_list (map fill_of (accepted o' es)))"
proof (induction es arbitrary: o')
  case Nil
  then show ?case by (simp add: order_inv_def)
next
  case (Cons e es)
  show ?case
  proof (cases "transition o' e")
    case (Inl err)
    with Cons show ?thesis by simp
  next
    case (Inr p)
    have "order_inv p" "oc_qty p = oc_qty o'"
      using Cons.prems Inr order_inv_transition transition_identity by (auto simp: same_identity_def)
    moreover have "sint (oc_filled_qty p) = min (sint (oc_qty o')) (sint (oc_filled_qty o') + fill_of e)"
      using Cons.prems Inr by (intro fills_accounted_step) auto
    moreover have "0 \<le> sum_list (map fill_of (accepted p es)) \<and> sint (oc_filled_qty (life es p)) =
        min (sint (oc_qty p)) (sint (oc_filled_qty p) + sum_list (map fill_of (accepted p es)))"
      using Cons.prems \<open>order_inv p\<close> by (intro Cons.IH) auto
    ultimately show ?thesis using Inr fill_of_nonneg [OF Inr] by (simp add: min_def)
  qed
qed

lemma life_identity: "same_identity o' (life es o')"
proof (induction es arbitrary: o')
  case (Cons e es)
  show ?case
  proof (cases "transition o' e")
    case (Inr p)
    then show ?thesis using Cons [of p] transition_identity [OF Inr] by (auto simp: same_identity_def)
  qed (simp add: Cons)
qed (simp add: same_identity_def)

text \<open>\<open>CREATED\<close> is never entered, so leaving it is final, and so is a submission.\<close>

lemma never_created_again:
  assumes "transition o' e = Inr p"
  shows "oc_state p \<noteq> Created"
proof -
  have "Created \<notin> set (allowed s)" for s by (cases s) simp_all
  then show ?thesis using transition_permits [OF assms] by (auto simp: permits_iff)
qed

lemma submissions_after_created:
  "oc_state o' \<noteq> Created \<Longrightarrow> SubmissionStarted \<notin> set (accepted o' es)"
proof (induction es arbitrary: o')
  case (Cons e es)
  then show ?case
    using never_created_again by (auto simp: transition_Inr_simps split: sum.splits)
qed simp

lemma submitted_at_most_once_aux:
  "length (filter (\<lambda>e. e = SubmissionStarted) (accepted o' es)) \<le> 1"
proof (induction es arbitrary: o')
  case (Cons e es)
  have "filter (\<lambda>e. e = SubmissionStarted) (accepted p es) = []" if "transition o' e = Inr p" for p
    using submissions_after_created [OF never_created_again [OF that]] by (auto simp: filter_empty_conv)
  then show ?case using Cons by (auto split: sum.splits)
qed simp


lemma life_append: "life (es @ fs) o' = life fs (life es o')"
  by (induction es arbitrary: o') (auto split: sum.splits)

lemma left_by_resolution:
  assumes "oc_state o' = Reconciling" "transition o' e = Inr p" "oc_state p \<noteq> Reconciling"
  shows "is_resolution e"
proof (cases e)
  case (FillReceived x q pr)
  then show ?thesis using assms fill_InrD(5) [of o' q KFillReceived p]
    by (simp add: transition_fill fill_target_def)
qed (use assms in \<open>auto simp: transition_Inr_simps is_resolution_def\<close>)

lemma left_by_reconcile:
  assumes "oc_state o' \<in> {Unknown, Filled, Canceled, Rejected}" "transition o' e = Inr p" "p \<noteq> o'"
  shows "\<exists>c. e = ReconcileStarted c"
proof (cases e)
  case (FillReceived x q pr)
  then show ?thesis using assms fill_InrD(1) [of o' q KFillReceived p]
    by (auto simp: transition_fill)
next
  case (ReconcileResolved st v f)
  then show ?thesis using assms resolve_InrD(1) by auto
qed (use assms in \<open>auto simp: transition_Inr_simps\<close>)

text \<open>The refusals that ask for a reconciliation.\<close>

lemma late_evidence_iff:
  "(\<exists>err. transition o' e = Inl err \<and> needs_reconciliation err) \<longleftrightarrow>
     (case e of FillReceived _ _ _ \<Rightarrow> oc_state o' \<in> {Unknown, Filled, Canceled, Rejected}
      | CancelConfirmed \<Rightarrow> oc_state o' \<in> {Unknown, Filled, Rejected} | _ \<Rightarrow> False)"
  by (cases e; cases "oc_state o'")
    (auto simp: transition_def transition_apply_fill_def apply_cancel_confirmed_def Let_def
      needs_reconciliation_def state_is_terminal_def guard_def permits_iff res_bind_Inl i64_simps
      map_err_def e8_checked_add_def split: if_splits sum.splits)

subsection \<open>Properties of the lifecycle\<close>

text \<open>
  An accepted event moves the order along the allowed-transition map (a cancel confirmation
  that finds the order already cancelled or under reconciliation changes nothing at all), and never
  touches its id, its instrument, its side or its authorised size.
\<close>

theorem transition_follows_map:
  assumes "transition o' e = Inr p"
  shows "(permits (oc_state o') (oc_state p) \<or> e = CancelConfirmed \<and> p = o') \<and> same_identity o' p"
  using transition_permits [OF assms] transition_identity [OF assms] by blast

theorem transition_follows_map_witness:
  "(permits Created Submitting \<or> SubmissionStarted = CancelConfirmed) \<and>
   same_identity (created (inline_or_default 36 [65]) (inline_or_default 16 [66]) Buy 100)
     ((created (inline_or_default 36 [65]) (inline_or_default 16 [66]) Buy 100)\<lparr>oc_state := Submitting\<rparr>)"
  using transition_follows_map
    [of "created (inline_or_default 36 [65]) (inline_or_default 16 [66]) Buy 100" SubmissionStarted
        "(created (inline_or_default 36 [65]) (inline_or_default 16 [66]) Buy 100)\<lparr>oc_state := Submitting\<rparr>"]
  by (simp add: transition_Inr_simps created_def)

text \<open>
  C21: over any sequence of events, refused ones included, an order of positive size stays within
  its authorised size, and has no fill while the venue is not known to have it.
\<close>

theorem order_never_overfilled:
  assumes "0 < sint q"
  shows "order_inv (life es (created c i s q)) \<and> oc_qty (life es (created c i s q)) = q"
proof -
  have "order_inv (created c i s q)" using assms by (simp add: order_inv_def created_def e8_zero_def)
  then have "order_inv (life es (created c i s q))" unfolding life_def by (rule lifecycle.run_invar)
  moreover have "oc_qty (life es (created c i s q)) = q"
    using life_identity [of "created c i s q" es] by (simp add: same_identity_def created_def)
  ultimately show ?thesis ..
qed

theorem order_never_overfilled_witness:
  "order_inv (life [SubmissionStarted, FillReceived (inline_or_default 40 [65]) 150 7]
     (created (inline_or_default 36 [65]) (inline_or_default 16 [66]) Buy 100))"
  using order_never_overfilled
    [of 100 "[SubmissionStarted, FillReceived (inline_or_default 40 [65]) 150 7]"
       "inline_or_default 36 [65]" "inline_or_default 16 [66]" Buy]
  by simp

text \<open>
  As long as no reconciliation is resolved, the recorded fill is exactly the sum of the accepted
  fills, capped at the size of the order: no fill is lost and none is counted twice.
\<close>

theorem fills_are_accounted_exactly:
  assumes "0 < sint q" "\<not> (\<exists>e \<in> set es. is_resolution e)"
  shows "sint (oc_filled_qty (life es (created c i s q))) =
    min (sint q) (sum_list (map fill_of (accepted (created c i s q) es)))"
proof -
  have "order_inv (created c i s q)" using assms by (simp add: order_inv_def created_def e8_zero_def)
  from fills_accounted [OF this assms(2)] show ?thesis by (simp add: created_def e8_zero_def)
qed

theorem fills_are_accounted_exactly_witness:
  "sint (oc_filled_qty (life [SubmissionStarted, FillReceived (inline_or_default 40 [65]) 60 7]
     (created (inline_or_default 36 [65]) (inline_or_default 16 [66]) Buy 100))) =
   min 100 (sum_list (map fill_of (accepted
     (created (inline_or_default 36 [65]) (inline_or_default 16 [66]) Buy 100)
     [SubmissionStarted, FillReceived (inline_or_default 40 [65]) 60 7])))"
  using fills_are_accounted_exactly
    [of 100 "[SubmissionStarted, FillReceived (inline_or_default 40 [65]) 60 7]"
       "inline_or_default 36 [65]" "inline_or_default 16 [66]" Buy]
  by (simp add: is_resolution_def)

text \<open>
  C20: whatever the sequence of events, an order is submitted at most once in its life: a replay, a
  late acknowledgement or a resolved reconciliation never makes a second submission acceptable.
\<close>

theorem submitted_at_most_once:
  "length (filter (\<lambda>e. e = SubmissionStarted) (accepted o' es)) \<le> 1"
  by (rule submitted_at_most_once_aux)

text \<open>
  An unknown or terminal order is changed by nothing but the start of a reconciliation, and an
  order under reconciliation leaves that state by nothing but the venue's resolution.
\<close>

theorem reconciliation_is_the_only_way_out:
  assumes "transition o' e = Inr p"
  shows "(oc_state o' = Unknown \<or> core_is_terminal o' \<longrightarrow> p \<noteq> o' \<longrightarrow> (\<exists>c. e = ReconcileStarted c)) \<and>
    (oc_state o' = Reconciling \<longrightarrow> oc_state p \<noteq> Reconciling \<longrightarrow> is_resolution e)"
  using assms left_by_reconcile left_by_resolution
  by (auto simp: core_is_terminal_def state_is_terminal_def)

theorem reconciliation_is_the_only_way_out_witness:
  "\<exists>c. ReconcileStarted LateFill = ReconcileStarted c"
  using reconciliation_is_the_only_way_out
    [of "(created (inline_or_default 36 [65]) (inline_or_default 16 [66]) Buy 100)\<lparr>oc_state := Filled\<rparr>"
        "ReconcileStarted LateFill"
        "(created (inline_or_default 36 [65]) (inline_or_default 16 [66]) Buy 100)\<lparr>oc_state := Reconciling\<rparr>"]
  by (simp add: transition_Inr_simps core_is_terminal_def state_is_terminal_def)

text \<open>
  C32: venue evidence that arrives late is never dropped silently: a fill for an unknown or terminal
  order, and a cancel confirmation for an unknown, filled or rejected one, are refused with the error
  that asks for a reconciliation, nothing else is refused that way, and on each such refusal the
  start of a reconciliation is accepted and leaves the order under reconciliation.
\<close>

theorem late_evidence_reopens:
  "((\<exists>err. transition o' e = Inl err \<and> needs_reconciliation err) \<longleftrightarrow>
     (case e of FillReceived _ _ _ \<Rightarrow> oc_state o' = Unknown \<or> core_is_terminal o'
      | CancelConfirmed \<Rightarrow> oc_state o' \<in> {Unknown, Filled, Rejected} | _ \<Rightarrow> False)) \<and>
   (\<forall>err. transition o' e = Inl err \<longrightarrow> needs_reconciliation err \<longrightarrow>
     transition o' (ReconcileStarted c) = Inr (o'\<lparr>oc_state := Reconciling\<rparr>))"
proof
  show "(\<exists>err. transition o' e = Inl err \<and> needs_reconciliation err) \<longleftrightarrow>
     (case e of FillReceived _ _ _ \<Rightarrow> oc_state o' = Unknown \<or> core_is_terminal o'
      | CancelConfirmed \<Rightarrow> oc_state o' \<in> {Unknown, Filled, Rejected} | _ \<Rightarrow> False)"
    unfolding late_evidence_iff
    by (auto simp: core_is_terminal_def state_is_terminal_def split: order_event.splits)
  have "oc_state o' \<noteq> Reconciling" if "\<exists>err. transition o' e = Inl err \<and> needs_reconciliation err"
    using that unfolding late_evidence_iff by (auto split: order_event.splits)
  then show "\<forall>err. transition o' e = Inl err \<longrightarrow> needs_reconciliation err \<longrightarrow>
     transition o' (ReconcileStarted c) = Inr (o'\<lparr>oc_state := Reconciling\<rparr>)"
    by (auto simp: transition_Inr_simps)
qed

theorem late_evidence_reopens_witness:
  "transition ((created (inline_or_default 36 [65]) (inline_or_default 16 [66]) Buy 100)\<lparr>oc_state := Filled\<rparr>)
     (ReconcileStarted LateFill) =
   Inr ((created (inline_or_default 36 [65]) (inline_or_default 16 [66]) Buy 100)\<lparr>oc_state := Reconciling\<rparr>)"
  using late_evidence_reopens
    [of "(created (inline_or_default 36 [65]) (inline_or_default 16 [66]) Buy 100)\<lparr>oc_state := Filled\<rparr>"
        "FillReceived (inline_or_default 40 [65]) 60 7" LateFill]
  by (auto simp: core_is_terminal_def state_is_terminal_def)

end
