(* ===== verification/Codec.thy ===== *)
theory Codec
  imports Lifecycle
begin

unbundle bit_operations_syntax

text \<open>
  Checked little-endian reads and writes (\<open>sentinel-record/src/buf.rs\<close>). A \<open>Writer\<close> appends to its
  buffer, so each of its methods is the bytes it appends. A \<open>Reader\<close> holds a slice and a position
  that only moves forward, so its state here is the part of the slice not yet read.

  The locale \<open>field_codec\<close> is the contract between a writer method and its reader method: what is
  written is read back with the rest of the buffer untouched, the width is fixed, and a reader that
  succeeds consumed exactly that width. It is interpreted for every field the records are made of.
\<close>

subsection \<open>Little-endian integers\<close>

fun to_le_bytes :: "nat \<Rightarrow> 'a :: len word \<Rightarrow> u8 list" where
  "to_le_bytes 0 w = []"
| "to_le_bytes (Suc n) w = ucast w # to_le_bytes n (drop_bit 8 w)"

fun from_le_bytes :: "u8 list \<Rightarrow> 'a :: len word" where
  "from_le_bytes [] = 0"
| "from_le_bytes (b # bs) = ucast b OR push_bit 8 (from_le_bytes bs)"

lemma length_to_le_bytes [simp]: "length (to_le_bytes n w) = n"
  by (induction n arbitrary: w) simp_all

lemma from_to_le: "from_le_bytes (to_le_bytes n w) = (take_bit (8 * n) w :: 'a :: len word)"
proof (induction n arbitrary: w)
  case (Suc n)
  show ?case
    unfolding to_le_bytes.simps from_le_bytes.simps Suc
    by (rule bit_word_eqI) (auto simp: bit_simps)
qed simp

lemma from_to_le_bytes [simp]:
  "LENGTH('a) \<le> 8 * n \<Longrightarrow> from_le_bytes (to_le_bytes n w) = (w :: 'a :: len word)"
  by (simp add: from_to_le take_bit_word_eq_self)

lemma from_le_bytes_high: "bit (from_le_bytes bs :: 'a :: len word) i \<Longrightarrow> i < 8 * length bs"
proof (induction bs arbitrary: i)
  case (Cons b bs)
  then consider "bit b i" | "8 \<le> i" "bit (from_le_bytes bs :: 'a word) (i - 8)"
    by (auto simp: bit_simps)
  then show ?case
  proof cases
    case 1
    then show ?thesis by (auto dest: bit_imp_le_length)
  next
    case 2
    then show ?thesis using Cons.IH [of "i - 8"] by auto
  qed
qed simp

lemma to_from_le_bytes:
  "8 * length bs \<le> LENGTH('a) \<Longrightarrow> to_le_bytes (length bs) (from_le_bytes bs :: 'a :: len word) = bs"
proof (induction bs)
  case (Cons b bs)
  let ?w = "from_le_bytes bs :: 'a word"
  have "ucast (ucast b OR push_bit 8 ?w :: 'a word) = b"
    using Cons.prems by (intro bit_word_eqI) (auto simp: bit_simps)
  moreover have "drop_bit 8 (ucast b OR push_bit 8 ?w :: 'a word) = ?w"
  proof (rule bit_word_eqI)
    fix n assume "n < LENGTH('a)"
    have "bit ?w n \<Longrightarrow> n + 8 < LENGTH('a)"
      using from_le_bytes_high [of bs n, where 'a = 'a] Cons.prems by auto
    then show "bit (drop_bit 8 (ucast b OR push_bit 8 ?w :: 'a word)) n = bit ?w n"
      by (auto simp: bit_simps dest: bit_imp_le_length)
  qed
  ultimately show ?case using Cons by simp
qed simp

subsection \<open>Errors\<close>

datatype codec_error =
    Truncated nat nat
  | BadDiscriminant unknown_discriminant
  | BadText
  | BadFlag u8
  | TrailingBytes nat

subsection \<open>The writer\<close>

definition w_u8 :: "u8 \<Rightarrow> u8 list" where
  "w_u8 v = [v]"

definition w_flag :: "bool \<Rightarrow> u8 list" where
  "w_flag v = [if v then 1 else 0]"

definition w_i32 :: "i32 \<Rightarrow> u8 list" where
  "w_i32 v = to_le_bytes 4 v"

definition w_i64 :: "i64 \<Rightarrow> u8 list" where
  "w_i64 v = to_le_bytes 8 v"

definition w_u64 :: "u64 \<Rightarrow> u8 list" where
  "w_u64 v = to_le_bytes 8 v"

definition w_trace :: "trace_id \<Rightarrow> u8 list" where
  "w_trace v = to_le_bytes 16 v"

definition w_text :: "inline_str \<Rightarrow> u8 list" where
  "w_text v = str_bytes v"

definition w_opt_price :: "price option \<Rightarrow> u8 list" where
  "w_opt_price v = w_flag (v \<noteq> None) @ w_i64 (case v of Some p \<Rightarrow> p | None \<Rightarrow> e8_zero)"

subsection \<open>The reader\<close>

type_synonym 'a reader = "(u8 list, codec_error, 'a) op"

definition r_remaining :: "u8 list \<Rightarrow> nat" where
  "r_remaining bs = length bs"

definition r_finish :: "unit reader" where
  "r_finish bs = (if r_remaining bs = 0 then Inr () else Inl (TrailingBytes (r_remaining bs)), bs)"

definition r_take :: "nat \<Rightarrow> u8 list reader" where
  "r_take n bs = (if r_remaining bs < n then (Inl (Truncated n (r_remaining bs)), bs)
                  else (Inr (take n bs), drop n bs))"

definition r_u8 :: "u8 reader" where
  "r_u8 = op_bind (r_take 1) (\<lambda>b. op_ok (hd b))"

definition r_flag :: "bool reader" where
  "r_flag = op_bind r_u8 (\<lambda>v. if v = 0 then op_ok False else if v = 1 then op_ok True
                              else op_err (BadFlag v))"

definition r_i32 :: "i32 reader" where
  "r_i32 = op_bind (r_take 4) (\<lambda>b. op_ok (from_le_bytes b))"

definition r_i64 :: "i64 reader" where
  "r_i64 = op_bind (r_take 8) (\<lambda>b. op_ok (from_le_bytes b))"

definition r_u64 :: "u64 reader" where
  "r_u64 = op_bind (r_take 8) (\<lambda>b. op_ok (from_le_bytes b))"

definition r_trace :: "trace_id reader" where
  "r_trace = op_bind (r_take 16) (\<lambda>b. op_ok (from_le_bytes b))"

definition r_text :: "nat \<Rightarrow> inline_str reader" where
  "r_text N = op_bind (r_take N) (\<lambda>b. op_lift (map_err (\<lambda>_. BadText) (from_padded b)))"

definition r_opt_price :: "price option reader" where
  "r_opt_price = op_bind r_flag (\<lambda>present. op_bind r_i64 (\<lambda>v.
     op_ok (if present then Some v else None)))"

text \<open>\<open>T::from_u8(r.u8()?)?\<close> for a wire enum given by its table.\<close>

definition r_enum :: "string \<Rightarrow> 'a wire_table \<Rightarrow> 'a reader" where
  "r_enum name tbl = op_bind r_u8 (\<lambda>v. op_lift (map_err BadDiscriminant (wire_from_u8 name tbl v)))"

subsection \<open>The contract of a field\<close>

locale field_codec =
  fixes enc :: "'a \<Rightarrow> u8 list"
    and dec' :: "'a reader"
    and ok :: "'a \<Rightarrow> bool"
    and width :: nat
  assumes read_back: "ok x \<Longrightarrow> dec' (enc x @ rest) = (Inr x, rest)"
    and enc_width: "ok x \<Longrightarrow> length (enc x) = width"
    and dec_ok: "dec' bs = (Inr x, rest) \<Longrightarrow> ok x \<and> width \<le> length bs \<and> rest = drop width bs"
begin

lemma read_all: "ok x \<Longrightarrow> dec' (enc x) = (Inr x, [])"
  using read_back [of x "[]"] by simp

lemma short_refused: "length bs < width \<Longrightarrow> \<exists>e. fst (dec' bs) = Inl e"
  using dec_ok [of bs] by (cases "dec' bs"; cases "fst (dec' bs)") auto

lemma enc_unique: "ok x \<Longrightarrow> ok y \<Longrightarrow> enc x @ r = enc y @ r' \<Longrightarrow> x = y \<and> r = r'"
  by (metis Pair_inject read_back sum.inject(2))

lemma enc_inj: "ok x \<Longrightarrow> ok y \<Longrightarrow> enc x = enc y \<longleftrightarrow> x = y"
  using enc_unique [of x y "[]" "[]"] by auto

end

text \<open>A field every accepted encoding of which is the one the writer produces.\<close>

locale canonical_codec = field_codec +
  assumes canonical: "dec' bs = (Inr x, rest) \<Longrightarrow> bs = enc x @ rest"
begin

lemma dec_iff: "dec' bs = (Inr x, rest) \<longleftrightarrow> ok x \<and> bs = enc x @ rest"
  using canonical dec_ok read_back by blast

end

lemma r_take_append: "length xs = n \<Longrightarrow> r_take n (xs @ rest) = (Inr xs, rest)"
  by (simp add: r_take_def r_remaining_def)

lemma r_take_Inr: "r_take n bs = (Inr xs, rest) \<longleftrightarrow> length xs = n \<and> bs = xs @ rest"
  by (auto simp: r_take_def r_remaining_def split: if_splits)

lemmas reader_simps = op_bind_Inr r_take_Inr

lemma length_1_iff: "length xs = Suc 0 \<longleftrightarrow> (\<exists>x. xs = [x])"
  by (cases xs) auto

lemma r_u8_Inr: "r_u8 bs = (Inr v, rest) \<longleftrightarrow> bs = v # rest"
  by (auto simp: r_u8_def reader_simps length_1_iff)

lemma le_reader_Inr:
  assumes "LENGTH('a) = 8 * n"
  shows "op_bind (r_take n) (\<lambda>b. op_ok (from_le_bytes b :: 'a :: len word)) bs = (Inr v, rest) \<longleftrightarrow>
    bs = to_le_bytes n v @ rest"
proof
  assume "op_bind (r_take n) (\<lambda>b. op_ok (from_le_bytes b :: 'a word)) bs = (Inr v, rest)"
  then obtain b where "length b = n" "bs = b @ rest" "v = from_le_bytes b"
    by (auto simp: reader_simps)
  then show "bs = to_le_bytes n v @ rest" using to_from_le_bytes [of b, where 'a = 'a] assms by simp
next
  assume "bs = to_le_bytes n v @ rest"
  then show "op_bind (r_take n) (\<lambda>b. op_ok (from_le_bytes b :: 'a word)) bs = (Inr v, rest)"
    using assms by (auto simp: op_bind_Inr r_take_append)
qed

interpretation u8: canonical_codec w_u8 r_u8 "\<lambda>_. True" 1
  by unfold_locales (auto simp: w_u8_def r_u8_Inr)

interpretation flag: canonical_codec w_flag r_flag "\<lambda>_. True" 1
  by unfold_locales (auto simp: w_flag_def r_flag_def op_bind_Inr r_u8_Inr split: if_splits)

interpretation i32: canonical_codec w_i32 r_i32 "\<lambda>_. True" 4
  by unfold_locales (auto simp: w_i32_def r_i32_def le_reader_Inr)

interpretation i64: canonical_codec w_i64 r_i64 "\<lambda>_. True" 8
  by unfold_locales (auto simp: w_i64_def r_i64_def le_reader_Inr)

interpretation u64: canonical_codec w_u64 r_u64 "\<lambda>_. True" 8
  by unfold_locales (auto simp: w_u64_def r_u64_def le_reader_Inr)

interpretation trace: canonical_codec w_trace r_trace "\<lambda>_. True" 16
  by unfold_locales (auto simp: w_trace_def r_trace_def le_reader_Inr)

text \<open>Inline text survives exactly when it is free of the padding byte.\<close>

definition text_ok :: "nat \<Rightarrow> inline_str \<Rightarrow> bool" where
  "text_ok N s \<longleftrightarrow> inline_wf N s \<and> inline_nul_free s"

lemma utf8_valid_ascii: "list_all (\<lambda>b. b < 128) s \<Longrightarrow> utf8_valid s"
  by (induction s) (auto simp: utf8_tail_def)

lemma text_ok_ascii:
  assumes "list_all (\<lambda>b. b \<noteq> 0 \<and> b < 128) s" "length s \<le> N" "N \<le> 255"
  shows "text_ok N (inline_or_default N s)"
proof -
  obtain x where x: "inline_new N s = Inr x" using assms(2) by (simp add: inline_new_def)
  have "utf8_valid s" using assms(1) by (intro utf8_valid_ascii) (simp add: list_all_iff)
  then have wf: "inline_wf N x" using inline_new_wf [OF x] assms(3) by simp
  have "x = InlineStr (s @ replicate (N - length s) 0) (of_nat (length s))"
    using x assms(2) by (simp add: inline_new_def)
  then have "take (inline_len x) (str_bytes x) = s"
    using assms(2,3) by (simp add: inline_len_def unat_of_nat_u8)
  then have "inline_nul_free x" using assms(1) by (auto simp: inline_nul_free_def list_all_iff)
  with wf x show ?thesis by (simp add: text_ok_def inline_or_default_def)
qed

lemma r_text_Inr:
  assumes "N \<le> 255"
  shows "r_text N bs = (Inr s, rest) \<longleftrightarrow> text_ok N s \<and> bs = w_text s @ rest"
proof
  assume "r_text N bs = (Inr s, rest)"
  then obtain b where "length b = N" "bs = b @ rest" "from_padded b = Inr s"
    by (auto simp: r_text_def reader_simps)
  then show "text_ok N s \<and> bs = w_text s @ rest"
    using assms from_padded_wf from_padded_bytes from_padded_nul_free
    by (auto simp: text_ok_def w_text_def)
next
  assume "text_ok N s \<and> bs = w_text s @ rest"
  then show "r_text N bs = (Inr s, rest)"
    using from_padded_str_bytes by (auto simp: text_ok_def w_text_def r_text_def op_bind_Inr inline_wf_def
        r_take_append)
qed

lemma text_codec: "N \<le> 255 \<Longrightarrow> canonical_codec w_text (r_text N) (text_ok N) N"
  by unfold_locales (auto simp: r_text_Inr text_ok_def inline_wf_def w_text_def)

interpretation text8: canonical_codec w_text "r_text 8" "text_ok 8" 8
  by (rule text_codec) simp

interpretation text16: canonical_codec w_text "r_text 16" "text_ok 16" 16
  by (rule text_codec) simp

interpretation text32: canonical_codec w_text "r_text 32" "text_ok 32" 32
  by (rule text_codec) simp

interpretation text36: canonical_codec w_text "r_text 36" "text_ok 36" 36
  by (rule text_codec) simp

interpretation text40: canonical_codec w_text "r_text 40" "text_ok 40" 40
  by (rule text_codec) simp

interpretation text64: canonical_codec w_text "r_text 64" "text_ok 64" 64
  by (rule text_codec) simp

interpretation text96: canonical_codec w_text "r_text 96" "text_ok 96" 96
  by (rule text_codec) simp

text \<open>
  An absent price is written as a flag and a zero, but the reader ignores the value: the field reads
  back, and is not canonical.
\<close>

interpretation opt_price: field_codec w_opt_price r_opt_price "\<lambda>_. True" 9
proof
  fix x :: "price option" and rest :: "u8 list"
  show "r_opt_price (w_opt_price x @ rest) = (Inr x, rest)"
    by (cases x) (auto simp: r_opt_price_def w_opt_price_def op_bind_def op_ok_def flag.read_back i64.read_back)
  show "length (w_opt_price x) = 9"
    by (simp add: w_opt_price_def flag.enc_width i64.enc_width)
next
  fix bs x rest assume "r_opt_price bs = (Inr x, rest)"
  then obtain p v r1 where "r_flag bs = (Inr p, r1)" "r_i64 r1 = (Inr v, rest)"
    by (auto simp: r_opt_price_def op_bind_Inr)
  then show "True \<and> 9 \<le> length bs \<and> rest = drop 9 bs"
    using flag.dec_ok [of bs] i64.dec_ok [of r1] by auto
qed

lemma enum_codec:
  assumes "wire_enum tbl"
  shows "canonical_codec (\<lambda>x. w_u8 (wire_as_u8 tbl x)) (r_enum name tbl) (\<lambda>_. True) 1"
proof -
  have iff: "r_enum name tbl bs = (Inr x, rest) \<longleftrightarrow> bs = wire_as_u8 tbl x # rest" for bs x rest
    using wire_enum.from_u8_iff [OF assms] by (auto simp: r_enum_def op_bind_Inr r_u8_Inr)
  show ?thesis by unfold_locales (auto simp: iff w_u8_def)
qed

text \<open>All the fields, as rewrite rules that read a written buffer from the left.\<close>

lemmas field_read_back = u8.read_back flag.read_back i32.read_back i64.read_back u64.read_back
  trace.read_back text8.read_back text16.read_back text32.read_back text36.read_back text40.read_back
  text64.read_back text96.read_back opt_price.read_back

lemmas field_widths = u8.enc_width flag.enc_width i32.enc_width i64.enc_width u64.enc_width
  trace.enc_width text8.enc_width text16.enc_width text32.enc_width text36.enc_width text40.enc_width
  text64.enc_width text96.enc_width opt_price.enc_width

end
