(* ===== verification/Frame.thy ===== *)
theory Frame
  imports Codec
begin

text \<open>
  The on-disk layout (\<open>sentinel-journal/src/format.rs\<close>) and its checksum
  (\<open>sentinel-journal/src/crc32c.rs\<close>). Fixed-size output arrays are the list of their bytes, in the
  order of the slices the code fills.

  Shown here: the table-driven checksum is the bit-at-a-time division by the Castagnoli polynomial and
  continues over split buffers, a written frame reads back as the header that was written, a segment
  header reads back, and a frame with any one byte changed is refused.
\<close>

subsection \<open>CRC-32C\<close>

definition POLY :: u32 where
  "POLY = 0x82F63B78"

definition crc_bit :: "u32 \<Rightarrow> u32" where
  "crc_bit crc = (if crc AND 1 = 1 then drop_bit 1 crc XOR POLY else drop_bit 1 crc)"

definition table_entry :: "nat \<Rightarrow> u32" where
  "table_entry i = (crc_bit ^^ 8) (of_nat i)"

definition TABLE :: "u32 list" where
  "TABLE = map table_entry [0..<256]"

definition crc_byte :: "u32 \<Rightarrow> u8 \<Rightarrow> u32" where
  "crc_byte crc b = drop_bit 8 crc XOR TABLE ! unat (ucast crc XOR b :: u8)"

definition crc_update :: "u32 \<Rightarrow> u8 list \<Rightarrow> u32" where
  "crc_update crc bytes = NOT (foldl crc_byte (NOT crc) bytes)"

definition checksum :: "u8 list \<Rightarrow> u32" where
  "checksum bytes = crc_update 0 bytes"

text \<open>The reference: a byte is added to the low end of the register and divided out bit by bit.\<close>

definition crc_byte_ref :: "u32 \<Rightarrow> u8 \<Rightarrow> u32" where
  "crc_byte_ref crc b = (crc_bit ^^ 8) (crc XOR ucast b)"

lemma and_1_iff: "x AND 1 = 1 \<longleftrightarrow> bit x 0" for x :: u32
  by (simp add: and_one_eq odd_iff_mod_2_eq_one [symmetric] bit_0)

lemma crc_bit_eq: "crc_bit x = drop_bit 1 x XOR (if bit x 0 then POLY else 0)"
  by (simp add: crc_bit_def and_1_iff)

lemma crc_bit_xor: "crc_bit (x XOR y) = crc_bit x XOR crc_bit y"
  by (rule bit_word_eqI) (auto simp: crc_bit_eq bit_simps)

lemma crc_bits_xor: "(crc_bit ^^ n) (x XOR y) = (crc_bit ^^ n) x XOR (crc_bit ^^ n) y"
  by (induction n) (simp_all add: crc_bit_xor)

lemma crc_bits_shift: "(\<forall>i < n. \<not> bit x i) \<Longrightarrow> (crc_bit ^^ n) x = drop_bit n x"
proof (induction n arbitrary: x)
  case (Suc n)
  have "crc_bit x = drop_bit 1 x" using Suc.prems by (simp add: crc_bit_eq)
  moreover have "(crc_bit ^^ n) (drop_bit 1 x) = drop_bit n (drop_bit 1 x)"
    using Suc.prems by (intro Suc.IH) (simp add: bit_simps)
  ultimately show ?case by (simp add: funpow_Suc_right del: funpow.simps)
qed simp

lemma table_lookup: "TABLE ! unat b = (crc_bit ^^ 8) (ucast b)" for b :: u8
proof -
  have "unat b < 256" using unsigned_less [of b] by simp
  then show ?thesis by (simp add: TABLE_def table_entry_def)
qed

lemma crc_byte_is_ref: "crc_byte crc b = crc_byte_ref crc b"
proof -
  let ?low = "ucast (ucast crc XOR b :: u8) :: u32"
  let ?high = "push_bit 8 (drop_bit 8 crc)"
  have "crc XOR ucast b = ?high XOR ?low"
    by (rule bit_word_eqI) (auto simp: bit_simps)
  moreover have "(crc_bit ^^ 8) ?high = drop_bit 8 crc"
  proof -
    have "(crc_bit ^^ 8) ?high = drop_bit 8 ?high" by (rule crc_bits_shift) (simp add: bit_simps)
    also have "\<dots> = drop_bit 8 crc"
      by (rule bit_word_eqI) (auto simp: bit_simps dest: bit_imp_le_length)
    finally show ?thesis .
  qed
  ultimately show ?thesis
    unfolding crc_byte_def crc_byte_ref_def table_lookup by (simp add: crc_bits_xor)
qed

lemma xor_cancel: "a XOR x = a XOR y \<longleftrightarrow> x = y" for a :: u32
  by (metis bit.xor_left_self)

lemma xor_cancel_right: "x XOR a = y XOR a \<longleftrightarrow> x = y" for a :: u32
  by (metis xor.commute xor_cancel)

lemma crc_bit_inj: "inj crc_bit"
proof (rule injI)
  fix x y assume eq: "crc_bit x = crc_bit y"
  have top: "bit (crc_bit z) 31 \<longleftrightarrow> bit z 0" for z
    by (auto simp: crc_bit_eq bit_simps POLY_def dest: bit_imp_le_length)
  have low: "bit x 0 = bit y 0" using eq top by metis
  then have "drop_bit 1 x = drop_bit 1 y" using eq by (auto simp: crc_bit_eq xor_cancel_right)
  then show "x = y"
  proof -
    assume d: "drop_bit 1 x = drop_bit 1 y"
    show "x = y"
    proof (rule bit_word_eqI)
      fix n
      have "bit (drop_bit 1 x) (n - 1) = bit (drop_bit 1 y) (n - 1)" by (simp only: d)
      then show "bit x n = bit y n" using low by (cases n) (simp_all add: bit_simps)
    qed
  qed
qed

lemma crc_bits_inj: "(crc_bit ^^ n) x = (crc_bit ^^ n) y \<longleftrightarrow> x = y"
  using inj_fn [OF crc_bit_inj, of n] by (auto dest: injD)

lemma crc_byte_inj: "crc_byte c b = crc_byte d b \<longleftrightarrow> c = d"
  unfolding crc_byte_is_ref crc_byte_ref_def crc_bits_inj
  by (rule xor_cancel_right)

lemma crc_byte_inj_byte: "crc_byte c b = crc_byte c b' \<longleftrightarrow> b = b'"
proof -
  have "ucast b = (ucast b' :: u32) \<longleftrightarrow> b = b'"
  proof
    assume eq: "ucast b = (ucast b' :: u32)"
    have "ucast (ucast c :: u32) = c" for c :: u8 by (rule bit_word_eqI) (simp add: bit_simps)
    with eq show "b = b'" by metis
  qed simp
  then show ?thesis
    unfolding crc_byte_is_ref crc_byte_ref_def crc_bits_inj xor_cancel .
qed

lemma crc_fold_inj: "foldl crc_byte c bs = foldl crc_byte d bs \<longleftrightarrow> c = d"
  by (induction bs arbitrary: c d) (simp_all add: crc_byte_inj)

lemma not_inj: "NOT a = NOT b \<longleftrightarrow> a = b" for a b :: u32
  by (metis bit.double_compl)

lemma crc_update_append: "crc_update (crc_update c xs) ys = crc_update c (xs @ ys)"
  by (simp add: crc_update_def)

lemma crc_one_byte:
  assumes "i < length bs" "v \<noteq> bs ! i"
  shows "crc_update c (bs[i := v]) \<noteq> crc_update c bs"
proof -
  let ?c = "foldl crc_byte (NOT c) (take i bs)"
  have "bs[i := v] = take i bs @ v # drop (Suc i) bs" using assms(1) by (rule upd_conv_take_nth_drop)
  then have new: "crc_update c (bs[i := v]) = NOT (foldl crc_byte (crc_byte ?c v) (drop (Suc i) bs))"
    by (simp add: crc_update_def)
  have "bs = take i bs @ bs ! i # drop (Suc i) bs" using assms(1) by (rule id_take_nth_drop)
  then have "crc_update c bs = crc_update c (take i bs @ bs ! i # drop (Suc i) bs)" by simp
  also have "\<dots> = NOT (foldl crc_byte (crc_byte ?c (bs ! i)) (drop (Suc i) bs))"
    by (simp add: crc_update_def)
  finally show ?thesis using assms(2) by (simp add: new not_inj crc_fold_inj crc_byte_inj_byte)
qed

subsection \<open>Layout\<close>

definition MAGIC :: "u8 list" where
  "MAGIC = lit ''SENTJRN'' @ [1]"

definition VERSION :: u32 where
  "VERSION = 2"

definition SEGMENT_HEADER_LEN :: nat where
  "SEGMENT_HEADER_LEN = 32"

definition FRAME_HEADER_LEN :: nat where
  "FRAME_HEADER_LEN = 36"

definition MAX_PAYLOAD :: nat where
  "MAX_PAYLOAD = 1048576"

definition SEGMENT_TARGET_BYTES :: u64 where
  "SEGMENT_TARGET_BYTES = 67108864"

datatype record_kind =
    KEpochClaimed | KIntentPersisted | KOrderEvent | KDecision | KMark | KBalance | KTicked

definition record_kind_table :: "record_kind wire_table" where
  "record_kind_table =
     [(KEpochClaimed, 1, ''EPOCH_CLAIMED''), (KIntentPersisted, 2, ''INTENT_PERSISTED''),
      (KOrderEvent, 3, ''ORDER_EVENT''), (KDecision, 4, ''DECISION''), (KMark, 5, ''MARK''),
      (KBalance, 6, ''BALANCE''), (KTicked, 7, ''TICKED'')]"

abbreviation record_kind_as_u8 :: "record_kind \<Rightarrow> u8" where
  "record_kind_as_u8 \<equiv> wire_as_u8 record_kind_table"

abbreviation record_kind_from_u8 :: "u8 \<Rightarrow> unknown_discriminant + record_kind" where
  "record_kind_from_u8 \<equiv> wire_from_u8 ''RecordKind'' record_kind_table"

interpretation record_kind: wire_enum record_kind_table "''RecordKind''"
proof
  fix x :: record_kind show "x \<in> fst ` set record_kind_table"
    by (cases x) (simp_all add: record_kind_table_def)
qed (simp_all add: record_kind_table_def lit_def)

record frame_header =
  fh_seq :: seq
  fh_epoch :: epoch
  fh_nanos :: nanos
  fh_kind :: record_kind
  fh_len :: u32

definition frame_len :: "frame_header \<Rightarrow> nat" where
  "frame_len h = FRAME_HEADER_LEN + unat (fh_len h)"

record segment_header =
  sh_base_seq :: seq
  sh_created :: nanos

datatype format_error =
    NotAJournal
  | UnsupportedVersion u32
  | FPayloadTooLarge u32
  | FTruncated nat nat
  | ChecksumMismatch u32 u32
  | UnknownKind u16

text \<open>\<open>bytes[at..at + n]\<close>, for the constant offsets of the layout.\<close>

definition take_at :: "nat \<Rightarrow> u8 list \<Rightarrow> nat \<Rightarrow> u8 list" where
  "take_at n bytes at = take n (drop at bytes)"

definition encode_segment_header :: "seq \<Rightarrow> nanos \<Rightarrow> u8 list" where
  "encode_segment_header base_seq created_at =
     MAGIC @ to_le_bytes 4 VERSION @ to_le_bytes 4 (0 :: u32) @ to_le_bytes 8 base_seq
       @ to_le_bytes 8 created_at"

definition decode_segment_header :: "u8 list \<Rightarrow> format_error + segment_header" where
  "decode_segment_header bytes =
     (if take_at 8 bytes 0 \<noteq> MAGIC then Inl NotAJournal
      else let version = from_le_bytes (take_at 4 bytes 8) in
        if version \<noteq> VERSION then Inl (UnsupportedVersion version)
        else Inr \<lparr>sh_base_seq = from_le_bytes (take_at 8 bytes 16),
                  sh_created = from_le_bytes (take_at 8 bytes 24)\<rparr>)"

definition encode_frame_header :: "frame_header \<Rightarrow> u8 list" where
  "encode_frame_header h =
     to_le_bytes 4 (fh_len h) @ to_le_bytes 4 (0 :: u32) @ to_le_bytes 8 (fh_seq h)
       @ to_le_bytes 8 (fh_epoch h) @ to_le_bytes 8 (fh_nanos h)
       @ to_le_bytes 2 (ucast (record_kind_as_u8 (fh_kind h)) :: u16) @ to_le_bytes 2 (0 :: u16)"

definition finish_frame_header :: "u8 list \<Rightarrow> u8 list \<Rightarrow> u8 list" where
  "finish_frame_header out payload =
     (let crc = crc_update (checksum (drop 8 out)) payload
      in take 4 out @ to_le_bytes 4 crc @ drop 8 out)"

definition decode_frame_header :: "u8 list \<Rightarrow> u8 list \<Rightarrow> format_error + frame_header" where
  "decode_frame_header bytes payload =
     (let len = from_le_bytes (take_at 4 bytes 0) :: u32 in
      if unat len > MAX_PAYLOAD then Inl (FPayloadTooLarge len)
      else if length payload \<noteq> unat len then Inl (FTruncated (unat len) (length payload))
      else let stored = from_le_bytes (take_at 4 bytes 4) :: u32;
               without_crc = take 4 bytes @ to_le_bytes 4 (0 :: u32) @ drop 8 bytes;
               computed = crc_update (checksum (drop 8 without_crc)) payload in
        if stored \<noteq> computed then Inl (ChecksumMismatch stored computed)
        else let kind_raw = from_le_bytes (take_at 2 bytes 32) :: u16 in
          res_bind (if kind_raw \<le> 255
                    then map_err (\<lambda>_. UnknownKind kind_raw) (record_kind_from_u8 (ucast kind_raw))
                    else Inl (UnknownKind kind_raw))
            (\<lambda>kind. Inr \<lparr>fh_seq = from_le_bytes (take_at 8 bytes 8),
                     fh_epoch = from_le_bytes (take_at 8 bytes 16),
                     fh_nanos = from_le_bytes (take_at 8 bytes 24), fh_kind = kind, fh_len = len\<rparr>))"

lemma take_at_skip [simp]:
  "length xs \<le> at \<Longrightarrow> take_at n (xs @ ys) at = take_at n ys (at - length xs)"
  "length xs = n \<Longrightarrow> take_at n (xs @ ys) 0 = xs"
  "length xs = n \<Longrightarrow> take_at n xs 0 = xs"
  by (simp_all add: take_at_def)

lemma segment_header_length: "length (encode_segment_header b c) = SEGMENT_HEADER_LEN"
  by (simp add: encode_segment_header_def MAGIC_def lit_def SEGMENT_HEADER_LEN_def)

lemma segment_header_read_back:
  "decode_segment_header (encode_segment_header b c) = Inr \<lparr>sh_base_seq = b, sh_created = c\<rparr>"
proof -
  have "length MAGIC = 8" by (simp add: MAGIC_def lit_def)
  then show ?thesis by (simp add: decode_segment_header_def encode_segment_header_def)
qed

text \<open>A frame, as the writer lays it out.\<close>

definition frame_header_bytes :: "frame_header \<Rightarrow> u8 list \<Rightarrow> u8 list" where
  "frame_header_bytes h payload = finish_frame_header (encode_frame_header h) payload"

definition frame_tail :: "frame_header \<Rightarrow> u8 list" where
  "frame_tail h = to_le_bytes 8 (fh_seq h)
       @ to_le_bytes 8 (fh_epoch h) @ to_le_bytes 8 (fh_nanos h)
       @ to_le_bytes 2 (ucast (record_kind_as_u8 (fh_kind h)) :: u16) @ to_le_bytes 2 (0 :: u16)"

lemma frame_header_bytes_eq:
  "frame_header_bytes h payload =
     to_le_bytes 4 (fh_len h) @ to_le_bytes 4 (crc_update 0 (frame_tail h @ payload)) @ frame_tail h"
  by (simp add: frame_header_bytes_def finish_frame_header_def encode_frame_header_def frame_tail_def
      checksum_def crc_update_append Let_def)

lemma frame_tail_length [simp]: "length (frame_tail h) = 28"
  by (simp add: frame_tail_def)

lemma frame_header_length [simp]: "length (frame_header_bytes h payload) = FRAME_HEADER_LEN"
  by (simp add: frame_header_bytes_eq FRAME_HEADER_LEN_def)

lemma record_kind_u16:
  "(ucast (record_kind_as_u8 k) :: u16) \<le> 255" "ucast (ucast (record_kind_as_u8 k) :: u16) = record_kind_as_u8 k"
  by (cases k; simp add: wire_as_u8_def record_kind_table_def)+

lemma frame_read_back:
  assumes "unat (fh_len h) = length payload" "length payload \<le> MAX_PAYLOAD"
  shows "decode_frame_header (frame_header_bytes h payload) payload = Inr h"
  using assms
  by (simp add: decode_frame_header_def frame_header_bytes_eq checksum_def crc_update_append Let_def)
    (simp add: frame_tail_def record_kind_u16 record_kind.from_as_u8)

lemma decode_frame_Inr:
  assumes "decode_frame_header bytes payload = Inr h"
  shows "unat (from_le_bytes (take_at 4 bytes 0) :: u32) = length payload"
    "8 \<le> length bytes \<Longrightarrow> from_le_bytes (take_at 4 bytes 4) = crc_update 0 (drop 8 bytes @ payload)"
  using assms
  by (auto simp: decode_frame_header_def Let_def checksum_def crc_update_append split: if_splits)

lemma from_le_take_update:
  fixes bytes :: "u8 list"
  assumes "at \<le> i" "i < at + 4" "at + 4 \<le> length bytes" "v \<noteq> bytes ! i"
  shows "(from_le_bytes (take_at 4 (bytes[i := v]) at) :: u32) \<noteq> from_le_bytes (take_at 4 bytes at)"
proof
  let ?w = "\<lambda>bs. from_le_bytes bs :: u32"
  assume "?w (take_at 4 (bytes[i := v]) at) = ?w (take_at 4 bytes at)"
  then have "to_le_bytes 4 (?w (take_at 4 (bytes[i := v]) at)) = to_le_bytes 4 (?w (take_at 4 bytes at))" by simp
  then have eq: "take_at 4 (bytes[i := v]) at = take_at 4 bytes at"
    using to_from_le_bytes [of "take_at 4 (bytes[i := v]) at", where 'a = 32]
      to_from_le_bytes [of "take_at 4 bytes at", where 'a = 32] assms(3)
    by (simp add: take_at_def)
  have "take_at 4 (bytes[i := v]) at ! (i - at) = v" "take_at 4 bytes at ! (i - at) = bytes ! i"
    using assms by (simp_all add: take_at_def)
  with eq assms(4) show False by simp
qed

lemma take_at_update_other:
  "i < at \<or> at + n \<le> i \<Longrightarrow> take_at n (bs[i := v]) at = take_at n bs at"
  unfolding take_at_def by (cases "i < at") (auto simp: drop_update_swap drop_update_cancel)

lemma drop_update_ge: "n \<le> i \<Longrightarrow> drop n (bs[i := v]) = (drop n bs)[i - n := v]"
  by (rule drop_update_swap)

subsection \<open>Properties\<close>


text \<open>
  A record that is framed and read back is the same record: the header that was laid out and
  checksummed decodes, against its payload, to itself, and occupies exactly the fixed header size.
\<close>

theorem frame_roundtrip:
  assumes "unat (fh_len h) = length payload" "length payload \<le> MAX_PAYLOAD"
  shows "decode_frame_header (finish_frame_header (encode_frame_header h) payload) payload = Inr h \<and>
    length (finish_frame_header (encode_frame_header h) payload) = FRAME_HEADER_LEN"
  using frame_read_back [OF assms] frame_header_length [of h payload] by (simp add: frame_header_bytes_def)

theorem frame_roundtrip_witness:
  "decode_frame_header (finish_frame_header (encode_frame_header
      \<lparr>fh_seq = 7, fh_epoch = 2, fh_nanos = 900, fh_kind = KMark, fh_len = 3\<rparr>) [1, 2, 3]) [1, 2, 3] =
   Inr \<lparr>fh_seq = 7, fh_epoch = 2, fh_nanos = 900, fh_kind = KMark, fh_len = 3\<rparr>"
  using frame_roundtrip [of "\<lparr>fh_seq = 7, fh_epoch = 2, fh_nanos = 900, fh_kind = KMark, fh_len = 3\<rparr>"
      "[1, 2, 3]"]
  by (simp add: MAX_PAYLOAD_def)

text \<open>
  C36: damage is seen. When a frame decodes, the same frame with any one byte changed, in the header
  (length, checksum and reserved bytes included) or in the payload, is refused.
\<close>

theorem one_changed_byte_is_refused:
  assumes "decode_frame_header bytes payload = Inr h" "length bytes = FRAME_HEADER_LEN"
  shows "(\<forall>i v. i < length bytes \<longrightarrow> v \<noteq> bytes ! i \<longrightarrow>
            \<not> is_ok (decode_frame_header (bytes[i := v]) payload)) \<and>
    (\<forall>i v. i < length payload \<longrightarrow> v \<noteq> payload ! i \<longrightarrow>
            \<not> is_ok (decode_frame_header bytes (payload[i := v])))"
proof (intro conjI allI impI notI)
  have len: "length bytes = 36" using assms(2) by (simp add: FRAME_HEADER_LEN_def)
  note old = decode_frame_Inr [OF assms(1)]
  fix i v assume i: "i < length bytes" "v \<noteq> bytes ! i"
    and "is_ok (decode_frame_header (bytes[i := v]) payload)"
  then obtain h' where "decode_frame_header (bytes[i := v]) payload = Inr h'" by (auto simp: is_ok_iff)
  note new = decode_frame_Inr [OF this]
  consider "i < 4" | "4 \<le> i" "i < 8" | "8 \<le> i" by linarith
  then show False
  proof cases
    case 1
    have "unat (from_le_bytes (take_at 4 (bytes[i := v]) 0) :: u32) =
        unat (from_le_bytes (take_at 4 bytes 0) :: u32)" using old(1) new(1) by simp
    then show False using from_le_take_update [of 0 i bytes v] i len 1 by (simp add: word_unat_eq_iff)
  next
    case 2
    then have "drop 8 (bytes[i := v]) = drop 8 bytes" by simp
    then show False using old(2) new(2) from_le_take_update [of 4 i bytes v] i len 2 by simp
  next
    case 3
    then have "drop 8 (bytes[i := v]) @ payload = (drop 8 bytes @ payload)[i - 8 := v]"
      using i len by (simp add: drop_update_ge list_update_append1)
    moreover have "i - 8 < length (drop 8 bytes)" using i 3 by simp
    then have "(drop 8 bytes @ payload) ! (i - 8) = bytes ! i"
      using 3 len by (simp only: nth_append if_True) simp
    moreover have "i - 8 < length (drop 8 bytes @ payload)" using i 3 by (simp add: less_diff_conv)
    ultimately show False
      using old(2) new(2) crc_one_byte [of "i - 8" "drop 8 bytes @ payload" v 0] i len 3
      by (simp add: take_at_update_other)
  qed
next
  note old = decode_frame_Inr [OF assms(1)]
  fix i v assume i: "i < length payload" "v \<noteq> payload ! i"
    and "is_ok (decode_frame_header bytes (payload[i := v]))"
  then obtain h' where "decode_frame_header bytes (payload[i := v]) = Inr h'" by (auto simp: is_ok_iff)
  note new = decode_frame_Inr [OF this]
  have "drop 8 bytes @ payload[i := v] = (drop 8 bytes @ payload)[length (drop 8 bytes) + i := v]"
    by (simp add: list_update_append)
  then show False
    using old(2) new(2) i crc_one_byte [of "length (drop 8 bytes) + i" "drop 8 bytes @ payload" v 0] assms(2)
    by (simp add: nth_append FRAME_HEADER_LEN_def)
qed

theorem one_changed_byte_is_refused_witness:
  "\<not> is_ok (decode_frame_header (finish_frame_header (encode_frame_header
      \<lparr>fh_seq = 7, fh_epoch = 2, fh_nanos = 900, fh_kind = KMark, fh_len = 3\<rparr>) [1, 2, 3]) ([1, 2, 3][1 := 9]))"
proof -
  let ?h = "\<lparr>fh_seq = 7, fh_epoch = 2, fh_nanos = 900, fh_kind = KMark, fh_len = 3\<rparr>"
  have "decode_frame_header (frame_header_bytes ?h [1, 2, 3]) [1, 2, 3] = Inr ?h"
    by (rule frame_read_back) (simp_all add: MAX_PAYLOAD_def)
  from one_changed_byte_is_refused [OF this frame_header_length, THEN conjunct2, rule_format, of 1 9]
  show ?thesis unfolding frame_header_bytes_def by simp
qed

end
