(* ===== verification/Intent.thy ===== *)
theory Intent
  imports Enums
begin

text \<open>
  Economic order intents (\<open>sentinel-domain/src/intent.rs\<close>, \<open>error.rs\<close>) and product definitions
  (\<open>sentinel-domain/src/product.rs\<close>). Construction validates, so the theory states exactly which
  intents exist and which definitions describe a tradable contract.
\<close>

subsection \<open>Intents\<close>

datatype intent_error =
    NonPositiveQty | NonPositivePrice | StopLimitUnsupported | EmptyIdempotencyKey
  | MissingPrice order_kind

record economic_order_intent =
  in_client_order_id :: client_order_id
  in_instrument :: instrument
  in_side :: side
  in_qty :: qty
  in_kind :: order_kind
  in_limit_price :: "price option"
  in_stop_price :: "price option"
  in_authority :: authority
  in_trace_id :: trace_id
  in_quote_at_decision :: "price option"

text \<open>\<open>Option::is_some_and\<close>.\<close>

definition is_some_and :: "('a \<Rightarrow> bool) \<Rightarrow> 'a option \<Rightarrow> bool" where
  "is_some_and P x = (case x of None \<Rightarrow> False | Some y \<Rightarrow> P y)"

definition is_some :: "'a option \<Rightarrow> bool" where
  "is_some x = (case x of None \<Rightarrow> False | Some _ \<Rightarrow> True)"

lemma is_some_simps [simp]: "is_some (Some y)" "\<not> is_some None" "is_some x \<longleftrightarrow> x \<noteq> None"
  by (auto simp: is_some_def split: option.splits)

lemma is_some_and_simps [simp]: "is_some_and P (Some y) = P y" "\<not> is_some_and P None"
  by (simp_all add: is_some_and_def)

definition intent_new ::
    "client_order_id \<Rightarrow> instrument \<Rightarrow> side \<Rightarrow> qty \<Rightarrow> order_kind \<Rightarrow> price option \<Rightarrow> price option \<Rightarrow>
     authority \<Rightarrow> trace_id \<Rightarrow> price option \<Rightarrow> intent_error + economic_order_intent" where
  "intent_new client_order_id instrument side qty kind limit_price stop_price authority trace_id quote =
     (if inline_is_empty client_order_id then Inl EmptyIdempotencyKey
      else if \<not> e8_is_positive qty then Inl NonPositiveQty
      else if is_some_and (\<lambda>p. \<not> e8_is_positive p) limit_price
            \<or> is_some_and (\<lambda>p. \<not> e8_is_positive p) stop_price
            \<or> is_some_and (\<lambda>p. \<not> e8_is_positive p) quote
      then Inl NonPositivePrice
      else if is_some limit_price \<and> is_some stop_price then Inl StopLimitUnsupported
      else if needs_limit_price kind \<and> \<not> is_some limit_price then Inl (MissingPrice kind)
      else if needs_stop_price kind \<and> \<not> is_some stop_price then Inl (MissingPrice kind)
      else Inr \<lparr>in_client_order_id = client_order_id, in_instrument = instrument, in_side = side,
             in_qty = qty, in_kind = kind, in_limit_price = limit_price, in_stop_price = stop_price,
             in_authority = authority, in_trace_id = trace_id, in_quote_at_decision = quote\<rparr>)"

definition intent_market ::
    "client_order_id \<Rightarrow> instrument \<Rightarrow> side \<Rightarrow> qty \<Rightarrow> authority \<Rightarrow> trace_id \<Rightarrow>
     intent_error + economic_order_intent" where
  "intent_market c i s q a t = intent_new c i s q Market None None a t None"

definition intent_limit ::
    "client_order_id \<Rightarrow> instrument \<Rightarrow> side \<Rightarrow> qty \<Rightarrow> price \<Rightarrow> authority \<Rightarrow> trace_id \<Rightarrow>
     intent_error + economic_order_intent" where
  "intent_limit c i s q p a t = intent_new c i s q Limit (Some p) None a t None"

definition intent_stop_market ::
    "client_order_id \<Rightarrow> instrument \<Rightarrow> side \<Rightarrow> qty \<Rightarrow> price \<Rightarrow> trace_id \<Rightarrow>
     intent_error + economic_order_intent" where
  "intent_stop_market c i s q trigger t =
     intent_new c i s q StopMarket None (Some trigger) ProtectiveExit t None"

definition opens_exposure :: "economic_order_intent \<Rightarrow> bool" where
  "opens_exposure intent = authority_opens_exposure (in_authority intent)"

definition intent_signed_qty :: "economic_order_intent \<Rightarrow> qty" where
  "intent_signed_qty intent = saturating_mul_i64 (in_qty intent) (side_sign (in_side intent))"

text \<open>What every constructed intent satisfies.\<close>

definition intent_wf :: "economic_order_intent \<Rightarrow> bool" where
  "intent_wf i \<longleftrightarrow>
     \<not> inline_is_empty (in_client_order_id i) \<and> 0 < sint (in_qty i) \<and>
     (\<forall>p \<in> set_option (in_limit_price i). 0 < sint p) \<and>
     (\<forall>p \<in> set_option (in_stop_price i). 0 < sint p) \<and>
     (\<forall>p \<in> set_option (in_quote_at_decision i). 0 < sint p) \<and>
     (in_limit_price i = None \<or> in_stop_price i = None) \<and>
     (in_kind i = Limit \<longrightarrow> in_limit_price i \<noteq> None) \<and>
     (in_kind i = StopMarket \<longrightarrow> in_stop_price i \<noteq> None)"

lemma intent_new_Inr:
  "intent_new c i s q k l st a t qu = Inr x \<longleftrightarrow>
     intent_wf x \<and> x = \<lparr>in_client_order_id = c, in_instrument = i, in_side = s, in_qty = q,
       in_kind = k, in_limit_price = l, in_stop_price = st, in_authority = a, in_trace_id = t,
       in_quote_at_decision = qu\<rparr>"
proof -
  let ?r = "\<lparr>in_client_order_id = c, in_instrument = i, in_side = s, in_qty = q, in_kind = k,
       in_limit_price = l, in_stop_price = st, in_authority = a, in_trace_id = t,
       in_quote_at_decision = qu\<rparr>"
  have "intent_wf ?r \<Longrightarrow> intent_new c i s q k l st a t qu = Inr ?r"
    by (cases k) (auto simp: intent_new_def intent_wf_def e8_is_positive_def needs_limit_price_def
        needs_stop_price_def is_some_and_def split: option.splits)
  moreover have "intent_wf ?r \<and> x = ?r" if "intent_new c i s q k l st a t qu = Inr x"
  proof -
    from that have "x = ?r" by (simp add: intent_new_def split: if_splits)
    moreover from that have "intent_wf ?r"
      by (cases k) (auto simp: intent_new_def intent_wf_def e8_is_positive_def needs_limit_price_def
        needs_stop_price_def split: if_splits)
    ultimately show ?thesis by simp
  qed
  ultimately show ?thesis by blast
qed

lemma intent_rebuild:
  "intent_wf x \<Longrightarrow> intent_new (in_client_order_id x) (in_instrument x) (in_side x) (in_qty x) (in_kind x)
     (in_limit_price x) (in_stop_price x) (in_authority x) (in_trace_id x) (in_quote_at_decision x) = Inr x"
  by (simp add: intent_new_Inr)

lemma intent_market_Inr:
  "intent_market c i s q a t = Inr x \<longleftrightarrow>
     \<not> inline_is_empty c \<and> 0 < sint q \<and>
     x = \<lparr>in_client_order_id = c, in_instrument = i, in_side = s, in_qty = q,
       in_kind = Market, in_limit_price = None, in_stop_price = None, in_authority = a, in_trace_id = t,
       in_quote_at_decision = None\<rparr>"
  by (auto simp: intent_market_def intent_new_Inr intent_wf_def)

lemma intent_signed_qty_exact:
  "intent_wf x \<Longrightarrow> sint (intent_signed_qty x) =
     (case in_side x of Buy \<Rightarrow> sint (in_qty x) | Sell \<Rightarrow> - sint (in_qty x))"
  using sint_i64_range [of "in_qty x"]
  by (cases "in_side x") (auto simp: intent_wf_def intent_signed_qty_def saturating_mul_i64_def i64_simps
      i64_min_def i64_max_def)

subsection \<open>Products\<close>

datatype settlement = Cash | Physical

definition settlement_table :: "settlement wire_table" where
  "settlement_table = [(Cash, 1, ''CASH''), (Physical, 2, ''PHYSICAL'')]"

datatype exercise = European | American | NotApplicable

definition exercise_table :: "exercise wire_table" where
  "exercise_table = [(European, 1, ''EUROPEAN''), (American, 2, ''AMERICAN''), (NotApplicable, 3, ''NONE'')]"

datatype contract_kind = Perpetual | Future | OptionContract

definition contract_kind_table :: "contract_kind wire_table" where
  "contract_kind_table =
     [(Perpetual, 1, ''PERPETUAL''), (Future, 2, ''FUTURE''), (OptionContract, 3, ''OPTION'')]"

interpretation settlement: wire_enum settlement_table "''Settlement''"
proof
  fix x :: settlement show "x \<in> fst ` set settlement_table"
    by (cases x) (simp_all add: settlement_table_def)
qed (simp_all add: settlement_table_def lit_def)

interpretation exercise: wire_enum exercise_table "''Exercise''"
proof
  fix x :: exercise show "x \<in> fst ` set exercise_table"
    by (cases x) (simp_all add: exercise_table_def)
qed (simp_all add: exercise_table_def lit_def)

interpretation contract_kind: wire_enum contract_kind_table "''ContractKind''"
proof
  fix x :: contract_kind show "x \<in> fst ` set contract_kind_table"
    by (cases x) (simp_all add: contract_kind_table_def)
qed (simp_all add: contract_kind_table_def lit_def)

datatype expiration = Never | At nanos

record product_definition =
  pd_instrument :: instrument
  pd_contract :: contract_kind
  pd_settlement :: settlement
  pd_exercise :: exercise
  pd_multiplier :: qty
  pd_tick_size :: price
  pd_lot_size :: qty
  pd_expiration :: expiration
  pd_listed_at :: nanos

datatype product_error =
    NonPositiveIncrement | ExpirationContradictsKind | ExerciseContradictsKind | ExpiresBeforeListing

definition product_validate :: "product_definition \<Rightarrow> product_error + unit" where
  "product_validate p =
     (if \<not> e8_is_positive (pd_multiplier p) \<or> \<not> e8_is_positive (pd_tick_size p)
         \<or> \<not> e8_is_positive (pd_lot_size p)
      then Inl NonPositiveIncrement
      else if (case (pd_contract p, pd_expiration p) of
                 (Perpetual, At _) \<Rightarrow> True | (Future, Never) \<Rightarrow> True | (OptionContract, Never) \<Rightarrow> True
               | _ \<Rightarrow> False)
      then Inl ExpirationContradictsKind
      else if (case (pd_contract p, pd_exercise p) of
                 (OptionContract, NotApplicable) \<Rightarrow> True
               | (Perpetual, European) \<Rightarrow> True | (Perpetual, American) \<Rightarrow> True
               | (Future, European) \<Rightarrow> True | (Future, American) \<Rightarrow> True
               | _ \<Rightarrow> False)
      then Inl ExerciseContradictsKind
      else case pd_expiration p of
             At t \<Rightarrow> if t \<le> pd_listed_at p then Inl ExpiresBeforeListing else Inr ()
           | Never \<Rightarrow> Inr ())"

definition early_assignment_possible :: "product_definition \<Rightarrow> bool" where
  "early_assignment_possible p = (case pd_exercise p of American \<Rightarrow> True | _ \<Rightarrow> False)"

definition has_delivery_risk :: "product_definition \<Rightarrow> bool" where
  "has_delivery_risk p = (case pd_settlement p of Physical \<Rightarrow> True | _ \<Rightarrow> False)"

definition is_tradable_at :: "product_definition \<Rightarrow> nanos \<Rightarrow> bool" where
  "is_tradable_at p now =
     (if now < pd_listed_at p then False
      else case pd_expiration p of Never \<Rightarrow> True | At t \<Rightarrow> now < t)"

definition accrues_funding :: "product_definition \<Rightarrow> bool" where
  "accrues_funding p = (case pd_contract p of Perpetual \<Rightarrow> True | _ \<Rightarrow> False)"

lemma product_validate_Inr:
  "product_validate p = Inr u \<longleftrightarrow>
     0 < sint (pd_multiplier p) \<and> 0 < sint (pd_tick_size p) \<and> 0 < sint (pd_lot_size p) \<and>
     (pd_contract p = Perpetual \<longleftrightarrow> pd_expiration p = Never) \<and>
     (pd_contract p = OptionContract \<longleftrightarrow> pd_exercise p \<noteq> NotApplicable) \<and>
     (\<forall>t. pd_expiration p = At t \<longrightarrow> pd_listed_at p < t)"
  by (cases "pd_contract p"; cases "pd_expiration p"; cases "pd_exercise p")
    (auto simp: product_validate_def e8_is_positive_def)

subsection \<open>Properties\<close>

text \<open>
  An intent is constructed exactly when it is one the system authorises (a key, a positive size,
  positive prices, never both a stop and a limit, the price its kind requires), it then carries the
  arguments unchanged, and a resting stop is always a protective exit.
\<close>

theorem intent_validation_exact:
  "(intent_new c i s q k l st a t qu = Inr x \<longleftrightarrow>
     intent_wf x \<and> x = \<lparr>in_client_order_id = c, in_instrument = i, in_side = s, in_qty = q,
       in_kind = k, in_limit_price = l, in_stop_price = st, in_authority = a, in_trace_id = t,
       in_quote_at_decision = qu\<rparr>) \<and>
   (intent_stop_market c i s q p t = Inr y \<longrightarrow> \<not> opens_exposure y \<and> in_stop_price y = Some p)"
  by (auto simp: intent_new_Inr intent_stop_market_def opens_exposure_def authority_opens_exposure_def)

theorem intent_validation_exact_witness:
  "\<not> opens_exposure \<lparr>in_client_order_id = inline_or_default 36 [65], in_instrument = inline_or_default 16 [66],
     in_side = Sell, in_qty = 5, in_kind = StopMarket, in_limit_price = None, in_stop_price = Some 9,
     in_authority = ProtectiveExit, in_trace_id = 1, in_quote_at_decision = None\<rparr>"
  using intent_validation_exact [where c = "inline_or_default 36 [65]" and i = "inline_or_default 16 [66]"
      and s = Sell and q = 5 and p = 9 and t = 1 and
      y = "\<lparr>in_client_order_id = inline_or_default 36 [65], in_instrument = inline_or_default 16 [66],
     in_side = Sell, in_qty = 5, in_kind = StopMarket, in_limit_price = None, in_stop_price = Some 9,
     in_authority = ProtectiveExit, in_trace_id = 1, in_quote_at_decision = None\<rparr>"]
  by (simp add: intent_stop_market_def intent_new_def inline_is_empty_def inline_or_default_def
      inline_new_def e8_is_positive_def needs_limit_price_def needs_stop_price_def)

text \<open>
  A validated product has a lifetime: it is tradable at its listing, it is tradable at no instant
  before that, a perpetual never stops being tradable and pays funding instead, and a dated contract
  is tradable exactly from its listing up to, and not at, its expiry.
\<close>

theorem product_lifetime:
  assumes "product_validate p = Inr ()"
  shows "is_tradable_at p (pd_listed_at p) \<and>
    (is_tradable_at p now \<longleftrightarrow> pd_listed_at p \<le> now \<and>
      (accrues_funding p \<or> (\<exists>t. pd_expiration p = At t \<and> now < t)))"
  using assms unfolding product_validate_Inr
  by (cases "pd_expiration p") (auto simp: is_tradable_at_def accrues_funding_def not_less
      split: contract_kind.splits)

theorem product_lifetime_witness:
  "\<not> is_tradable_at \<lparr>pd_instrument = inline_or_default 16 [66], pd_contract = Future, pd_settlement = Cash,
     pd_exercise = NotApplicable, pd_multiplier = 1, pd_tick_size = 1, pd_lot_size = 1,
     pd_expiration = At 20, pd_listed_at = 10\<rparr> 20"
  using product_lifetime [of "\<lparr>pd_instrument = inline_or_default 16 [66], pd_contract = Future,
     pd_settlement = Cash, pd_exercise = NotApplicable, pd_multiplier = 1, pd_tick_size = 1,
     pd_lot_size = 1, pd_expiration = At 20, pd_listed_at = 10\<rparr>" 20]
  by (simp add: product_validate_def e8_is_positive_def accrues_funding_def)

end
