(* ===== verification/Records.thy ===== *)
theory Records
  imports Frame Intent
begin

text \<open>
  The journal's vocabulary (\<open>sentinel-record/src/record.rs\<close>): what a record can be and its bytes.

  Shown here: every record the system can write decodes, under its own kind, to itself; whatever
  decodes is a well-formed record of the kind the frame named, of that kind's exact width; and no
  record comes near the payload cap.
\<close>

datatype actor = Gateway | Guards | Reconciler | Protection | Strategy | Supervisor | Sizing

definition actor_table :: "actor wire_table" where
  "actor_table =
     [(Gateway, 1, ''gateway''), (Guards, 2, ''guards''), (Reconciler, 3, ''reconciler''),
      (Protection, 4, ''protection''), (Strategy, 5, ''strategy''), (Supervisor, 6, ''supervisor''),
      (Sizing, 7, ''sizing'')]"

datatype decision_kind =
    EntryPlaced | EntryBlocked | ExitPlaced | ExitClamped | SizingComputed | ReconcileScheduled
  | Halted | Resumed | StanceDeclared

definition decision_kind_table :: "decision_kind wire_table" where
  "decision_kind_table =
     [(EntryPlaced, 1, ''ENTRY_PLACED''), (EntryBlocked, 2, ''ENTRY_BLOCKED''),
      (ExitPlaced, 3, ''EXIT_PLACED''), (ExitClamped, 4, ''EXIT_CLAMPED''),
      (SizingComputed, 5, ''SIZING_COMPUTED''), (ReconcileScheduled, 6, ''RECONCILE_SCHEDULED''),
      (Halted, 7, ''HALTED''), (Resumed, 8, ''RESUMED''), (StanceDeclared, 9, ''STANCE_DECLARED'')]"

interpretation actor: wire_enum actor_table "''Actor''"
proof
  fix x :: actor show "x \<in> fst ` set actor_table" by (cases x) (simp_all add: actor_table_def)
qed (simp_all add: actor_table_def lit_def)

interpretation decision_kind: wire_enum decision_kind_table "''DecisionKind''"
proof
  fix x :: decision_kind show "x \<in> fst ` set decision_kind_table"
    by (cases x) (simp_all add: decision_kind_table_def)
qed (simp_all add: decision_kind_table_def lit_def)

type_synonym note_text = inline_str
type_synonym asset = inline_str

datatype log_record =
    EpochClaimed epoch seq
  | IntentPersisted economic_order_intent
  | OrderEvent client_order_id trace_id order_state order_state bool order_event
  | Decision instrument actor decision_kind trace_id money note_text
  | Mark instrument price
  | Balance asset money
  | Ticked

fun record_kind :: "log_record \<Rightarrow> record_kind" where
  "record_kind (EpochClaimed _ _) = KEpochClaimed"
| "record_kind (IntentPersisted _) = KIntentPersisted"
| "record_kind (OrderEvent _ _ _ _ _ _) = KOrderEvent"
| "record_kind (Decision _ _ _ _ _ _) = KDecision"
| "record_kind (Mark _ _) = KMark"
| "record_kind (Balance _ _) = KBalance"
| "record_kind Ticked = KTicked"

subsection \<open>Encoding\<close>

fun cause_to_u8 :: "reconcile_cause \<Rightarrow> u8" where
  "cause_to_u8 SubmissionTimeout = 1"
| "cause_to_u8 CancelTimeout = 2"
| "cause_to_u8 ReplayedMidSubmission = 3"
| "cause_to_u8 LateFill = 4"
| "cause_to_u8 LateCancelConfirm = 5"
| "cause_to_u8 StaleSweep = 6"
| "cause_to_u8 PositionDisagreement = 7"

definition cause_from_u8 :: "u8 \<Rightarrow> codec_error + reconcile_cause" where
  "cause_from_u8 v =
     (if v = 1 then Inr SubmissionTimeout else if v = 2 then Inr CancelTimeout
      else if v = 3 then Inr ReplayedMidSubmission else if v = 4 then Inr LateFill
      else if v = 5 then Inr LateCancelConfirm else if v = 6 then Inr StaleSweep
      else if v = 7 then Inr PositionDisagreement
      else Inl (BadDiscriminant (UnknownDiscriminant ''ReconcileCause'' v)))"

fun encode_event :: "order_event \<Rightarrow> u8 list" where
  "encode_event SubmissionStarted = []"
| "encode_event SubmissionTimedOut = []"
| "encode_event CancelRequested = []"
| "encode_event CancelConfirmed = []"
| "encode_event (VenueAcked venue_order_id) = w_text venue_order_id"
| "encode_event (VenueRejected reason) = w_i32 (rr_code reason) @ w_text (rr_text reason)"
| "encode_event (FillReceived exec_id qty price) = w_text exec_id @ w_i64 qty @ w_i64 price"
| "encode_event (ReconcileStarted cause) = w_u8 (cause_to_u8 cause)"
| "encode_event (ReconcileResolved state venue_order_id filled_qty) =
     w_u8 (order_state_as_u8 state) @ w_flag (venue_order_id \<noteq> None)
       @ w_text (case venue_order_id of Some v \<Rightarrow> v | None \<Rightarrow> inline_empty 32) @ w_i64 filled_qty"

fun record_encode :: "log_record \<Rightarrow> u8 list" where
  "record_encode (EpochClaimed epoch resumed_from) = w_u64 epoch @ w_u64 resumed_from"
| "record_encode (IntentPersisted intent) =
     w_text (in_client_order_id intent) @ w_text (in_instrument intent)
       @ w_u8 (side_as_u8 (in_side intent)) @ w_u8 (order_kind_as_u8 (in_kind intent))
       @ w_u8 (authority_as_u8 (in_authority intent)) @ w_i64 (in_qty intent)
       @ w_opt_price (in_limit_price intent) @ w_opt_price (in_stop_price intent)
       @ w_opt_price (in_quote_at_decision intent) @ w_trace (in_trace_id intent)"
| "record_encode (OrderEvent client_order_id trace_id from_state to_state applied event) =
     w_text client_order_id @ w_trace trace_id @ w_u8 (order_state_as_u8 from_state)
       @ w_u8 (order_state_as_u8 to_state) @ w_u8 (if applied then 1 else 0)
       @ w_u8 (event_kind_as_u8 (event_kind_of event)) @ encode_event event"
| "record_encode (Decision instrument actor kind trace_id v note) =
     w_text instrument @ w_u8 (wire_as_u8 actor_table actor)
       @ w_u8 (wire_as_u8 decision_kind_table kind) @ w_trace trace_id @ w_i64 v @ w_text note"
| "record_encode (Mark instrument price) = w_text instrument @ w_i64 price"
| "record_encode (Balance asset amount) = w_text asset @ w_i64 amount"
| "record_encode Ticked = []"

subsection \<open>Decoding\<close>

definition decode_event_body :: "event_kind \<Rightarrow> order_event reader" where
  "decode_event_body k =
     (case k of
        KSubmissionStarted \<Rightarrow> op_ok SubmissionStarted
      | KVenueAcked \<Rightarrow> op_bind (r_text 32) (\<lambda>v. op_ok (VenueAcked v))
      | KVenueRejected \<Rightarrow> op_bind r_i32 (\<lambda>code. op_bind (r_text 64) (\<lambda>t.
          op_ok (VenueRejected \<lparr>rr_code = code, rr_text = t\<rparr>)))
      | KSubmissionTimedOut \<Rightarrow> op_ok SubmissionTimedOut
      | KFillReceived \<Rightarrow> op_bind (r_text 40) (\<lambda>e. op_bind r_i64 (\<lambda>q. op_bind r_i64 (\<lambda>p.
          op_ok (FillReceived e q p))))
      | KCancelRequested \<Rightarrow> op_ok CancelRequested
      | KCancelConfirmed \<Rightarrow> op_ok CancelConfirmed
      | KReconcileStarted \<Rightarrow> op_bind r_u8 (\<lambda>v. op_bind (op_lift (cause_from_u8 v)) (\<lambda>c.
          op_ok (ReconcileStarted c)))
      | KReconcileResolved \<Rightarrow>
          op_bind (r_enum ''OrderState'' order_state_table) (\<lambda>state.
          op_bind r_flag (\<lambda>present. op_bind (r_text 32) (\<lambda>v. op_bind r_i64 (\<lambda>q.
          op_ok (ReconcileResolved state (if present then Some v else None) q))))))"

definition decode_event :: "order_event reader" where
  "decode_event = op_bind (r_enum ''EventKind'' event_kind_table) decode_event_body"

definition decode_intent :: "log_record reader" where
  "decode_intent =
     op_bind (r_text 36) (\<lambda>client_order_id.
     op_bind (r_text 16) (\<lambda>instrument.
     op_bind (r_enum ''Side'' side_table) (\<lambda>side.
     op_bind (r_enum ''OrderKind'' order_kind_table) (\<lambda>order_kind.
     op_bind (r_enum ''Authority'' authority_table) (\<lambda>authority.
     op_bind r_i64 (\<lambda>qty.
     op_bind r_opt_price (\<lambda>limit_price.
     op_bind r_opt_price (\<lambda>stop_price.
     op_bind r_opt_price (\<lambda>quote_at_decision.
     op_bind r_trace (\<lambda>trace_id.
     op_bind (op_lift (map_err (\<lambda>_. BadText)
       (intent_new client_order_id instrument side qty order_kind limit_price stop_price authority
          trace_id quote_at_decision))) (\<lambda>intent.
     op_ok (IntentPersisted intent))))))))))))"

definition decode_order_event :: "log_record reader" where
  "decode_order_event =
     op_bind (r_text 36) (\<lambda>client_order_id.
     op_bind r_trace (\<lambda>trace_id.
     op_bind (r_enum ''OrderState'' order_state_table) (\<lambda>from_state.
     op_bind (r_enum ''OrderState'' order_state_table) (\<lambda>to_state.
     op_bind r_u8 (\<lambda>applied.
     op_bind decode_event (\<lambda>event.
     op_ok (OrderEvent client_order_id trace_id from_state to_state (applied \<noteq> 0) event)))))))"

definition decode_decision :: "log_record reader" where
  "decode_decision =
     op_bind (r_text 16) (\<lambda>instrument.
     op_bind (r_enum ''Actor'' actor_table) (\<lambda>actor.
     op_bind (r_enum ''DecisionKind'' decision_kind_table) (\<lambda>kind.
     op_bind r_trace (\<lambda>trace_id.
     op_bind r_i64 (\<lambda>v.
     op_bind (r_text 96) (\<lambda>note.
     op_ok (Decision instrument actor kind trace_id v note)))))))"

definition decode_body :: "record_kind \<Rightarrow> log_record reader" where
  "decode_body kind =
     (case kind of
        KEpochClaimed \<Rightarrow> op_bind r_u64 (\<lambda>e. op_bind r_u64 (\<lambda>s. op_ok (EpochClaimed e s)))
      | KIntentPersisted \<Rightarrow> decode_intent
      | KOrderEvent \<Rightarrow> decode_order_event
      | KDecision \<Rightarrow> decode_decision
      | KMark \<Rightarrow> op_bind (r_text 16) (\<lambda>i. op_bind r_i64 (\<lambda>p. op_ok (Mark i p)))
      | KBalance \<Rightarrow> op_bind (r_text 8) (\<lambda>a. op_bind r_i64 (\<lambda>m. op_ok (Balance a m)))
      | KTicked \<Rightarrow> op_ok Ticked)"

definition record_decode :: "record_kind \<Rightarrow> u8 list \<Rightarrow> codec_error + log_record" where
  "record_decode kind payload =
     fst (op_bind (decode_body kind) (\<lambda>r. op_seq r_finish (op_ok r)) payload)"

subsection \<open>Well-formed records\<close>

text \<open>Every text field is an inline string of its type's capacity, free of the padding byte.\<close>

fun event_wf :: "order_event \<Rightarrow> bool" where
  "event_wf (VenueAcked v) = text_ok 32 v"
| "event_wf (VenueRejected r) = text_ok 64 (rr_text r)"
| "event_wf (FillReceived e _ _) = text_ok 40 e"
| "event_wf (ReconcileResolved _ v _) = (case v of None \<Rightarrow> True | Some x \<Rightarrow> text_ok 32 x)"
| "event_wf _ = True"

fun record_wf :: "log_record \<Rightarrow> bool" where
  "record_wf (IntentPersisted i) \<longleftrightarrow>
     intent_wf i \<and> text_ok 36 (in_client_order_id i) \<and> text_ok 16 (in_instrument i)"
| "record_wf (OrderEvent c _ _ _ _ e) \<longleftrightarrow> text_ok 36 c \<and> event_wf e"
| "record_wf (Decision i _ _ _ _ n) \<longleftrightarrow> text_ok 16 i \<and> text_ok 96 n"
| "record_wf (Mark i _) \<longleftrightarrow> text_ok 16 i"
| "record_wf (Balance a _) \<longleftrightarrow> text_ok 8 a"
| "record_wf _ = True"

fun event_len :: "event_kind \<Rightarrow> nat" where
  "event_len KVenueAcked = 32"
| "event_len KVenueRejected = 68"
| "event_len KFillReceived = 56"
| "event_len KReconcileStarted = 1"
| "event_len KReconcileResolved = 42"
| "event_len _ = 0"

text \<open>The width of a record, which its kind and, for a lifecycle event, the event decide.\<close>

fun record_len :: "log_record \<Rightarrow> nat" where
  "record_len (EpochClaimed _ _) = 16"
| "record_len (IntentPersisted _) = 106"
| "record_len (OrderEvent _ _ _ _ _ e) = 56 + event_len (event_kind_of e)"
| "record_len (Decision _ _ _ _ _ _) = 138"
| "record_len (Mark _ _) = 24"
| "record_len (Balance _ _) = 16"
| "record_len Ticked = 0"

interpretation enum_state: canonical_codec "\<lambda>x. w_u8 (order_state_as_u8 x)"
    "r_enum ''OrderState'' order_state_table" "\<lambda>_. True" 1
  by (rule enum_codec) (rule order_state.wire_enum_axioms)

interpretation enum_event: canonical_codec "\<lambda>x. w_u8 (event_kind_as_u8 x)"
    "r_enum ''EventKind'' event_kind_table" "\<lambda>_. True" 1
  by (rule enum_codec) (rule event_kind.wire_enum_axioms)

interpretation enum_side: canonical_codec "\<lambda>x. w_u8 (side_as_u8 x)"
    "r_enum ''Side'' side_table" "\<lambda>_. True" 1
  by (rule enum_codec) (rule side.wire_enum_axioms)

interpretation enum_kind: canonical_codec "\<lambda>x. w_u8 (order_kind_as_u8 x)"
    "r_enum ''OrderKind'' order_kind_table" "\<lambda>_. True" 1
  by (rule enum_codec) (rule order_kind.wire_enum_axioms)

interpretation enum_authority: canonical_codec "\<lambda>x. w_u8 (authority_as_u8 x)"
    "r_enum ''Authority'' authority_table" "\<lambda>_. True" 1
  by (rule enum_codec) (rule authority.wire_enum_axioms)

interpretation enum_actor: canonical_codec "\<lambda>x. w_u8 (wire_as_u8 actor_table x)"
    "r_enum ''Actor'' actor_table" "\<lambda>_. True" 1
  by (rule enum_codec) (rule actor.wire_enum_axioms)

interpretation enum_decision: canonical_codec "\<lambda>x. w_u8 (wire_as_u8 decision_kind_table x)"
    "r_enum ''DecisionKind'' decision_kind_table" "\<lambda>_. True" 1
  by (rule enum_codec) (rule decision_kind.wire_enum_axioms)

lemmas enum_read_back = enum_state.read_back enum_event.read_back enum_side.read_back
  enum_kind.read_back enum_authority.read_back enum_actor.read_back enum_decision.read_back

lemmas read_simps = op_bind_def op_ok_def op_seq_def op_lift_def field_read_back enum_read_back

lemma cause_read_back [simp]: "cause_from_u8 (cause_to_u8 c) = Inr c"
  by (cases c) (simp_all add: cause_from_u8_def)

lemma text_ok_empty: "text_ok 32 (inline_empty 32)"
  using inline_empty_wf [of 32] by (simp add: text_ok_def inline_nul_free_def inline_empty_def inline_len_def)

lemma event_read_back:
  "event_wf e \<Longrightarrow> decode_event (w_u8 (event_kind_as_u8 (event_kind_of e)) @ encode_event e @ rest) = (Inr e, rest)"
proof (cases e)
  case (ReconcileResolved st v q)
  then show "event_wf e \<Longrightarrow> ?thesis"
    by (cases v) (simp_all add: decode_event_def decode_event_body_def read_simps text_ok_empty)
qed (simp_all add: decode_event_def decode_event_body_def read_simps)

lemma body_read_back:
  "record_wf r \<Longrightarrow> decode_body (record_kind r) (record_encode r @ rest) = (Inr r, rest)"
proof (cases r)
  case (IntentPersisted i)
  then show "record_wf r \<Longrightarrow> ?thesis"
    by (simp add: decode_body_def decode_intent_def read_simps intent_rebuild)
next
  case (OrderEvent c t f g a e)
  then show "record_wf r \<Longrightarrow> ?thesis"
    by (simp add: decode_body_def decode_order_event_def read_simps event_read_back)
qed (simp_all add: decode_body_def decode_decision_def read_simps)

lemma record_read_back: "record_wf r \<Longrightarrow> record_decode (record_kind r) (record_encode r) = Inr r"
  using body_read_back [of r "[]"]
  by (simp add: record_decode_def op_bind_def op_seq_def r_finish_def r_remaining_def op_ok_def)

text \<open>Soundness: what a successful read says about the bytes.\<close>

lemma cause_from_Inr: "cause_from_u8 v = Inr c \<longleftrightarrow> v = cause_to_u8 c"
  by (cases c) (auto simp: cause_from_u8_def)

text \<open>A reader that consumes a width it can tell from its result.\<close>

definition reads :: "('a \<Rightarrow> nat) \<Rightarrow> ('a \<Rightarrow> bool) \<Rightarrow> 'a reader \<Rightarrow> bool" where
  "reads w P m \<longleftrightarrow> (\<forall>bs x rest. m bs = (Inr x, rest) \<longrightarrow> P x \<and> w x \<le> length bs \<and> rest = drop (w x) bs)"

lemma reads_field: "field_codec enc m ok n \<Longrightarrow> reads (\<lambda>_. n) ok m"
  using field_codec.dec_ok by (fastforce simp: reads_def)

lemma reads_ok: "P x \<Longrightarrow> w x = 0 \<Longrightarrow> reads w P (op_ok x)"
  by (simp add: reads_def)

lemma reads_bind:
  assumes "reads (\<lambda>_. n) Q m" "\<And>x. Q x \<Longrightarrow> reads (\<lambda>y. w y - n) (\<lambda>y. P y \<and> n \<le> w y) (f x)"
  shows "reads w P (op_bind m f)"
  unfolding reads_def
proof (intro allI impI)
  fix bs y rest assume "op_bind m f bs = (Inr y, rest)"
  then obtain x u where 1: "m bs = (Inr x, u)" and 2: "f x u = (Inr y, rest)" by (auto simp: op_bind_Inr)
  from 1 assms(1) have 3: "Q x" "n \<le> length bs" "u = drop n bs" by (auto simp: reads_def)
  with 2 assms(2) have "P y" "n \<le> w y" "w y - n \<le> length u" "rest = drop (w y - n) u"
    unfolding reads_def by blast+
  with 3 show "P y \<and> w y \<le> length bs \<and> rest = drop (w y) bs" by auto
qed

lemma reads_weaken:
  "reads w P m \<Longrightarrow> (\<And>x. P x \<Longrightarrow> P' x \<and> w' x = w x) \<Longrightarrow> reads w' P' m"
  unfolding reads_def by metis

lemma reads_lift_bind:
  "(\<And>x. r = Inr x \<Longrightarrow> reads w P (f x)) \<Longrightarrow> reads w P (op_bind (op_lift r) f)"
  by (cases r) (auto simp: reads_def op_bind_def op_lift_def)

lemmas field_reads = u8.field_codec_axioms [THEN reads_field] flag.field_codec_axioms [THEN reads_field]
  i32.field_codec_axioms [THEN reads_field] i64.field_codec_axioms [THEN reads_field]
  u64.field_codec_axioms [THEN reads_field] trace.field_codec_axioms [THEN reads_field]
  text8.field_codec_axioms [THEN reads_field] text16.field_codec_axioms [THEN reads_field]
  text32.field_codec_axioms [THEN reads_field] text36.field_codec_axioms [THEN reads_field]
  text40.field_codec_axioms [THEN reads_field] text64.field_codec_axioms [THEN reads_field]
  text96.field_codec_axioms [THEN reads_field] opt_price.field_codec_axioms [THEN reads_field]
  enum_state.field_codec_axioms [THEN reads_field] enum_event.field_codec_axioms [THEN reads_field]
  enum_side.field_codec_axioms [THEN reads_field] enum_kind.field_codec_axioms [THEN reads_field]
  enum_authority.field_codec_axioms [THEN reads_field] enum_actor.field_codec_axioms [THEN reads_field]
  enum_decision.field_codec_axioms [THEN reads_field]

lemma reads_event_body:
  "reads (\<lambda>e. event_len (event_kind_of e)) (\<lambda>e. event_wf e \<and> event_kind_of e = k) (decode_event_body k)"
  by (cases k) (auto simp: decode_event_body_def intro!: reads_ok reads_lift_bind reads_bind field_reads)

lemma reads_event:
  "reads (\<lambda>e. 1 + event_len (event_kind_of e)) event_wf decode_event"
  unfolding decode_event_def
proof (rule reads_bind [OF field_reads(16)])
  fix k
  show "reads (\<lambda>e. 1 + event_len (event_kind_of e) - 1) (\<lambda>e. event_wf e \<and> 1 \<le> 1 + event_len (event_kind_of e))
     (decode_event_body k)"
    using reads_event_body [of k] by (auto simp: reads_def)
qed

lemma reads_intent: "reads record_len (\<lambda>r. record_wf r \<and> record_kind r = KIntentPersisted) decode_intent"
  unfolding decode_intent_def
  by (auto simp: intent_new_Inr intro!: reads_ok reads_lift_bind reads_bind field_reads)

lemma reads_decision: "reads record_len (\<lambda>r. record_wf r \<and> record_kind r = KDecision) decode_decision"
  unfolding decode_decision_def
  by (auto intro!: reads_ok reads_bind field_reads)

lemma reads_order_event:
  "reads record_len (\<lambda>r. record_wf r \<and> record_kind r = KOrderEvent) decode_order_event"
proof -
  define tail where "tail = (\<lambda>c t f g (a :: u8). op_bind decode_event
    (\<lambda>event. op_ok (OrderEvent c t f g (a \<noteq> 0) event)))"
  have "reads (\<lambda>r. record_len r - 55) (\<lambda>r. record_wf r \<and> record_kind r = KOrderEvent \<and> 55 \<le> record_len r)
     (tail c t f g a)" if "text_ok 36 c" for c t f g a
    using reads_event that unfolding tail_def by (fastforce simp: reads_def op_bind_Inr)
  note tail = reads_weaken [OF this]
  have eq: "decode_order_event =
     op_bind (r_text 36) (\<lambda>c. op_bind r_trace (\<lambda>t.
     op_bind (r_enum ''OrderState'' order_state_table) (\<lambda>f.
     op_bind (r_enum ''OrderState'' order_state_table) (\<lambda>g. op_bind r_u8 (tail c t f g)))))"
    by (simp add: decode_order_event_def tail_def)
  show ?thesis
    unfolding eq by (auto intro!: reads_bind field_reads tail)
qed

lemma reads_body: "reads record_len (\<lambda>r. record_wf r \<and> record_kind r = k) (decode_body k)"
  using reads_intent reads_decision reads_order_event
  by (cases k) (auto simp: decode_body_def intro!: reads_ok reads_bind field_reads)

lemma record_decode_Inr:
  assumes "record_decode k bs = Inr r"
  shows "record_wf r" "record_kind r = k" "length bs = record_len r"
proof -
  from assms obtain rest where "decode_body k bs = (Inr r, rest)" "rest = []"
    by (auto simp: record_decode_def op_bind_def op_seq_def r_finish_def r_remaining_def op_ok_def
        split: prod.splits sum.splits if_splits)
  with reads_body [of k] have "record_wf r \<and> record_kind r = k" "record_len r \<le> length bs"
      "[] = drop (record_len r) bs"
    unfolding reads_def by blast+
  then show "record_wf r" "record_kind r = k" "length bs = record_len r" by auto
qed

lemma record_encode_length: "record_wf r \<Longrightarrow> length (record_encode r) = record_len r"
  using record_decode_Inr(3) [OF record_read_back] by simp

lemma record_len_bound: "record_len r \<le> 138"
proof (cases r)
  case (OrderEvent c t f g a e)
  then show ?thesis by (cases e) simp_all
qed simp_all

lemma record_len_fits: "record_len r \<le> MAX_PAYLOAD"
  using record_len_bound [of r] by (simp add: MAX_PAYLOAD_def)

subsection \<open>Properties\<close>

text \<open>
  C35: the log means what was written to it: every well-formed record, encoded and decoded under its
  own kind, is the same record, and its encoding has the record's fixed width, far below the cap.
\<close>

theorem record_roundtrip:
  assumes "record_wf r"
  shows "record_decode (record_kind r) (record_encode r) = Inr r \<and>
    length (record_encode r) = record_len r \<and> length (record_encode r) \<le> 138"
  using record_read_back [OF assms] record_encode_length [OF assms] record_len_bound [of r] by simp

theorem record_roundtrip_witness:
  "record_decode KOrderEvent (record_encode (OrderEvent (inline_or_default 36 (lit ''c-1'')) 7 Working Partial
     True (FillReceived (inline_or_default 40 (lit ''x-1'')) 5 9))) =
   Inr (OrderEvent (inline_or_default 36 (lit ''c-1'')) 7 Working Partial
     True (FillReceived (inline_or_default 40 (lit ''x-1'')) 5 9))"
  using record_roundtrip [of "OrderEvent (inline_or_default 36 (lit ''c-1'')) 7 Working Partial
     True (FillReceived (inline_or_default 40 (lit ''x-1'')) 5 9)"]
  by (simp add: text_ok_ascii lit_def)

text \<open>
  A log is an input like any other: whatever bytes decode under a kind are a well-formed record
  of that kind, every intent among them validated again, with no byte missing and none left over; and
  the record they decode to, written again, decodes to itself.
\<close>

theorem record_decode_sound:
  assumes "record_decode k bs = Inr r"
  shows "record_wf r \<and> record_kind r = k \<and> length bs = record_len r \<and>
    record_decode k (record_encode r) = Inr r"
  using record_decode_Inr [OF assms] record_read_back [of r] by simp

theorem record_decode_sound_witness:
  "record_wf (EpochClaimed 1 0) \<and> length (w_u64 1 @ w_u64 0) = record_len (EpochClaimed 1 0)"
  using record_decode_sound [of KEpochClaimed "w_u64 1 @ w_u64 0" "EpochClaimed 1 0"]
    record_read_back [of "EpochClaimed 1 0"]
  by simp

end
