(* ===== verification/Journal.thy ===== *)
theory Journal
  imports Records
begin

text \<open>
  The journal writer and the segment scan (\<open>sentinel-journal/src/writer.rs\<close>, \<open>segment.rs\<close>, \<open>error.rs\<close>).
  The files are part of the state: the closed segments and the bytes of the current one. What the
  operating system answers to a write, a sync and a file creation is an argument of \<open>flush\<close>
  (record \<open>os\<close>); a failed write may have left any prefix behind. The counters (\<open>buffered_records\<close>, the
  statistics and file lengths) are natural numbers: they count bytes and records held in memory or on
  one disk.

  Shown here: appending frames exactly one record under the next sequence; a flush that succeeds leaves
  nothing behind and writes exactly the buffer; a failed flush poisons the writer for good; the log is at
  every moment a gap-free run of frames; and the scan of a segment with a torn tail finds exactly the
  intact frames.
\<close>

datatype journal_error =
    JIo string
  | JFormat format_error
  | AlreadyClaimed
  | SequenceGap seq seq
  | JPayloadTooLarge nat
  | Poisoned string

definition journal_is_fatal :: "journal_error \<Rightarrow> bool" where
  "journal_is_fatal e = (case e of Poisoned _ \<Rightarrow> True | SequenceGap _ _ \<Rightarrow> True | _ \<Rightarrow> False)"

record stats =
  st_records :: nat
  st_payload_bytes :: nat
  st_flushes :: nat
  st_segments_rolled :: nat

record claim_report =
  cr_epoch :: epoch
  cr_resumed_from :: seq
  cr_existing_records :: nat
  cr_truncated_bytes :: nat

record journal =
  jn_epoch :: epoch
  jn_next_seq :: seq
  jn_closed :: "(seq \<times> u8 list) list"
  jn_segment_base :: seq
  jn_segment_file :: "u8 list"
  jn_segment_bytes :: nat
  jn_buffer :: "u8 list"
  jn_buffered_records :: nat
  jn_poisoned :: "string option"
  jn_stats :: stats
  jn_claim_report :: claim_report

text \<open>
  What the operating system answers: bytes that reached the file when a write fails, whether the sync was made, and
  whether the next segment was created with its header. One that was created without it is looked at in the theory of
  the segment files.
\<close>

record os =
  os_write :: "nat option"
  os_sync :: bool
  os_create :: bool

type_synonym 'a journal_op = "(journal, journal_error, 'a) op"

definition stats_default :: stats where
  "stats_default = \<lparr>st_records = 0, st_payload_bytes = 0, st_flushes = 0, st_segments_rolled = 0\<rparr>"

definition durable_seq :: "journal \<Rightarrow> seq" where
  "durable_seq j = saturating_sub_u64 (jn_next_seq j) (of_nat (jn_buffered_records j + 1))"

definition append_header :: "journal \<Rightarrow> record_kind \<Rightarrow> nanos \<Rightarrow> u8 list \<Rightarrow> frame_header" where
  "append_header j kind now payload =
     \<lparr>fh_seq = jn_next_seq j, fh_epoch = jn_epoch j, fh_nanos = now, fh_kind = kind,
      fh_len = of_nat (length payload)\<rparr>"

definition journal_append :: "record_kind \<Rightarrow> nanos \<Rightarrow> u8 list \<Rightarrow> seq journal_op" where
  "journal_append kind now payload j =
     (case jn_poisoned j of
        Some doing \<Rightarrow> (Inl (Poisoned doing), j)
      | None \<Rightarrow>
          if length payload > MAX_PAYLOAD then (Inl (JPayloadTooLarge (length payload)), j)
          else
            let seq = jn_next_seq j;
                header = append_header j kind now payload;
                bytes = finish_frame_header (encode_frame_header header) payload;
                s = jn_stats j
            in (Inr seq,
                j\<lparr>jn_buffer := jn_buffer j @ bytes @ payload,
                  jn_buffered_records := jn_buffered_records j + 1,
                  jn_next_seq := seq_next seq,
                  jn_stats := s\<lparr>st_records := st_records s + 1,
                                st_payload_bytes := st_payload_bytes s + length payload\<rparr>\<rparr>))"

definition poison :: "string \<Rightarrow> journal \<Rightarrow> journal" where
  "poison doing j = j\<lparr>jn_poisoned := Some doing\<rparr>"

definition roll :: "os \<Rightarrow> unit journal_op" where
  "roll os j =
     (if \<not> os_create os then (Inl (JIo ''create segment''), j)
      else (Inr (), j\<lparr>
        jn_closed := jn_closed j @ [(jn_segment_base j, jn_segment_file j)],
        jn_segment_file := encode_segment_header (jn_next_seq j) 0,
        jn_segment_base := jn_next_seq j,
        jn_segment_bytes := SEGMENT_HEADER_LEN,
        jn_stats := (jn_stats j)\<lparr>st_segments_rolled := st_segments_rolled (jn_stats j) + 1\<rparr>\<rparr>))"

definition journal_flush :: "os \<Rightarrow> seq journal_op" where
  "journal_flush os j =
     (case jn_poisoned j of
        Some doing \<Rightarrow> (Inl (Poisoned doing), j)
      | None \<Rightarrow>
          if jn_buffer j = [] then (Inr (durable_seq j), j)
          else case os_write os of
            Some n \<Rightarrow> (Inl (JIo ''write records''),
              poison ''write records'' (j\<lparr>jn_segment_file := jn_segment_file j @ take n (jn_buffer j)\<rparr>))
          | None \<Rightarrow>
              let j1 = j\<lparr>jn_segment_file := jn_segment_file j @ jn_buffer j\<rparr> in
              if \<not> os_sync os then (Inl (JIo ''sync records''), poison ''sync records'' j1)
              else
                let j2 = j1\<lparr>jn_segment_bytes := jn_segment_bytes j1 + length (jn_buffer j1),
                            jn_buffer := [], jn_buffered_records := 0,
                            jn_stats := (jn_stats j1)\<lparr>st_flushes := st_flushes (jn_stats j1) + 1\<rparr>\<rparr>
                in if jn_segment_bytes j2 \<ge> unat SEGMENT_TARGET_BYTES
                   then (case roll os j2 of
                           (Inl e, j3) \<Rightarrow> (Inl e, j3)
                         | (Inr _, j3) \<Rightarrow> (Inr (durable_seq j3), j3))
                   else (Inr (durable_seq j2), j2))"

definition append_and_flush :: "os \<Rightarrow> record_kind \<Rightarrow> nanos \<Rightarrow> u8 list \<Rightarrow> seq journal_op" where
  "append_and_flush os kind now payload =
     op_bind (journal_append kind now payload) (\<lambda>seq. op_seq (journal_flush os) (op_ok seq))"

definition is_poisoned :: "journal \<Rightarrow> bool" where
  "is_poisoned j = (case jn_poisoned j of None \<Rightarrow> False | Some _ \<Rightarrow> True)"

subsection \<open>Scanning a segment\<close>

record scan_result =
  sc_last_seq :: seq
  sc_last_epoch :: epoch
  sc_good_end :: nat
  sc_torn :: bool
  sc_records :: nat

text \<open>One frame at the head of the unread bytes of a file, as the scan takes it.\<close>

definition scan_frame :: "u8 list \<Rightarrow> (frame_header \<times> u8 list) option" where
  "scan_frame rest =
     (if length rest < FRAME_HEADER_LEN then None
      else let frame_header = take FRAME_HEADER_LEN rest;
               claimed = unat (from_le_bytes (take_at 4 frame_header 0) :: u32) in
        if claimed > MAX_PAYLOAD \<or> FRAME_HEADER_LEN + claimed > length rest then None
        else let payload = take claimed (drop FRAME_HEADER_LEN rest) in
          case decode_frame_header frame_header payload of
            Inl _ \<Rightarrow> None | Inr header \<Rightarrow> Some (header, payload))"

lemma scan_frame_length:
  "scan_frame rest = Some (h, p) \<Longrightarrow> frame_len h \<le> length rest \<and> length p = unat (fh_len h) \<and> 0 < frame_len h"
  by (auto simp: scan_frame_def Let_def decode_frame_header_def frame_len_def FRAME_HEADER_LEN_def
      split: if_splits sum.splits)

function scan_loop :: "seq \<Rightarrow> u8 list \<Rightarrow> scan_result \<Rightarrow> journal_error + scan_result" where
  "scan_loop expected rest acc =
     (case scan_frame rest of
        None \<Rightarrow> Inr acc
      | Some (header, _) \<Rightarrow>
          if fh_seq header \<noteq> expected then Inl (SequenceGap expected (fh_seq header))
          else scan_loop (seq_next (fh_seq header)) (drop (frame_len header) rest)
            (acc\<lparr>sc_last_seq := fh_seq header, sc_last_epoch := fh_epoch header,
                 sc_good_end := sc_good_end acc + frame_len header,
                 sc_records := sc_records acc + 1\<rparr>))"
  by pat_completeness auto
termination
  by (relation "measure (\<lambda>(_, rest, _). length rest)") (auto dest!: scan_frame_length)

declare scan_loop.simps [simp del]

definition scan_segment :: "u8 list \<Rightarrow> journal_error + scan_result" where
  "scan_segment file =
     (if length file < SEGMENT_HEADER_LEN then Inl (JIo ''read segment header'')
      else res_bind (map_err JFormat (decode_segment_header (take SEGMENT_HEADER_LEN file))) (\<lambda>segment.
        res_bind (scan_loop (sh_base_seq segment) (drop SEGMENT_HEADER_LEN file)
            \<lparr>sc_last_seq = 0, sc_last_epoch = 0, sc_good_end = SEGMENT_HEADER_LEN, sc_torn = False, sc_records = 0\<rparr>)
          (\<lambda>r. Inr (r\<lparr>sc_torn := sc_good_end r < length file\<rparr>))))"

definition read_frame_at :: "u8 list \<Rightarrow> nat \<Rightarrow> journal_error + (frame_header \<times> u8 list) option" where
  "read_frame_at file offset =
     (if length file - offset < FRAME_HEADER_LEN then Inr None
      else let frame_header = take FRAME_HEADER_LEN (drop offset file);
               claimed = from_le_bytes (take_at 4 frame_header 0) :: u32 in
        if unat claimed > MAX_PAYLOAD then Inl (JFormat (FPayloadTooLarge claimed))
        else if offset + FRAME_HEADER_LEN + unat claimed > length file then Inr None
        else let payload = take (unat claimed) (drop (offset + FRAME_HEADER_LEN) file) in
          case decode_frame_header frame_header payload of
            Inl e \<Rightarrow> Inl (JFormat e) | Inr header \<Rightarrow> Inr (Some (header, payload)))"

subsection \<open>Claiming\<close>

text \<open>
  The scans of the segments a claim finds, in order. The lock is an argument, and so is whether the
  truncation of a torn tail and the creation of the first segment succeed.
\<close>

record claim_scan =
  cs_truncated_bytes :: nat
  cs_existing_records :: nat
  cs_last_seq :: seq
  cs_last_epoch :: epoch

fun claim_segments ::
    "bool \<Rightarrow> (seq \<times> u8 list) list \<Rightarrow> claim_scan \<Rightarrow> journal_error + (claim_scan \<times> (seq \<times> u8 list) list)" where
  "claim_segments can_truncate [] acc = Inr (acc, [])"
| "claim_segments can_truncate ((base, file) # segments) acc =
     res_bind (scan_segment file) (\<lambda>scan.
       let acc = acc\<lparr>cs_existing_records := cs_existing_records acc + sc_records scan\<rparr>;
           acc = (if sc_records scan > 0
                  then acc\<lparr>cs_last_seq := sc_last_seq scan, cs_last_epoch := sc_last_epoch scan\<rparr> else acc)
       in if sc_torn scan then
            if segments \<noteq> [] then Inl (SequenceGap (seq_next (sc_last_seq scan)) (sc_last_seq scan))
            else if \<not> can_truncate then Inl (JIo ''truncate torn tail'')
            else Inr (acc\<lparr>cs_truncated_bytes := length file - sc_good_end scan\<rparr>, [(base, take (sc_good_end scan) file)])
          else res_bind (claim_segments can_truncate segments acc)
            (\<lambda>(acc, rest). Inr (acc, (base, file) # rest)))"

definition journal_claim ::
    "bool \<Rightarrow> bool \<Rightarrow> os \<Rightarrow> (seq \<times> u8 list) list \<Rightarrow> nanos \<Rightarrow> journal_error + journal" where
  "journal_claim locked can_truncate os segments now =
     (if locked then Inl AlreadyClaimed
      else res_bind (claim_segments can_truncate segments
          \<lparr>cs_truncated_bytes = 0, cs_existing_records = 0, cs_last_seq = 0, cs_last_epoch = 0\<rparr>) (\<lambda>(scan, segs).
        let epoch = epoch_next (cs_last_epoch scan);
            next_seq = seq_next (cs_last_seq scan) in
        res_bind (if segs = [] then
                    (if os_create os then Inr ([], next_seq, encode_segment_header next_seq now, SEGMENT_HEADER_LEN)
                     else Inl (JIo ''create segment''))
                  else Inr (butlast segs, fst (last segs), snd (last segs), length (snd (last segs))))
          (\<lambda>(closed, base, file, bytes).
            let j = \<lparr>jn_epoch = epoch, jn_next_seq = next_seq, jn_closed = closed, jn_segment_base = base,
                  jn_segment_file = file, jn_segment_bytes = bytes, jn_buffer = [], jn_buffered_records = 0,
                  jn_poisoned = None, jn_stats = stats_default,
                  jn_claim_report = \<lparr>cr_epoch = epoch, cr_resumed_from = cs_last_seq scan,
                    cr_existing_records = cs_existing_records scan, cr_truncated_bytes = cs_truncated_bytes scan\<rparr>\<rparr>;
                payload = to_le_bytes 8 epoch @ to_le_bytes 8 (cs_last_seq scan)
            in case op_seq (journal_append KEpochClaimed now payload) (journal_flush os) j of
                 (Inl e, _) \<Rightarrow> Inl e
               | (Inr _, j') \<Rightarrow> Inr (j'\<lparr>jn_stats := stats_default\<rparr>))))"

subsection \<open>Frames in bytes\<close>

type_synonym frame = "frame_header \<times> u8 list"

definition frame_ok :: "frame \<Rightarrow> bool" where
  "frame_ok f \<longleftrightarrow> unat (fh_len (fst f)) = length (snd f) \<and> length (snd f) \<le> MAX_PAYLOAD"

definition frame_bytes :: "frame \<Rightarrow> u8 list" where
  "frame_bytes f = frame_header_bytes (fst f) (snd f) @ snd f"

definition log_bytes :: "frame list \<Rightarrow> u8 list" where
  "log_bytes fs = concat (map frame_bytes fs)"

lemma frame_bytes_length: "frame_ok f \<Longrightarrow> length (frame_bytes f) = frame_len (fst f)"
  by (simp add: frame_bytes_def frame_ok_def frame_len_def)

lemma scan_frame_frame:
  assumes "frame_ok f"
  shows "scan_frame (frame_bytes f @ rest) = Some f"
proof -
  obtain h p where f: "f = (h, p)" by (cases f)
  have ok: "unat (fh_len h) = length p" "length p \<le> MAX_PAYLOAD" using assms by (simp_all add: f frame_ok_def)
  have hd: "take FRAME_HEADER_LEN (frame_bytes f @ rest) = frame_header_bytes h p"
    "drop FRAME_HEADER_LEN (frame_bytes f @ rest) = p @ rest"
    by (simp_all add: f frame_bytes_def)
  have len: "unat (from_le_bytes (take_at 4 (frame_header_bytes h p) 0) :: u32) = length p"
    using ok(1) by (simp add: frame_header_bytes_eq)
  show ?thesis
    unfolding scan_frame_def Let_def hd len
    using ok frame_read_back [OF ok] by (simp add: f frame_bytes_def)
qed

lemma scan_frame_short: "length bs < FRAME_HEADER_LEN \<Longrightarrow> scan_frame bs = None"
  by (simp add: scan_frame_def)

text \<open>A write cut short anywhere inside a frame is not a frame.\<close>

lemma scan_frame_torn:
  assumes "frame_ok f" "n < length (frame_bytes f)"
  shows "scan_frame (take n (frame_bytes f)) = None"
proof (cases "n < FRAME_HEADER_LEN")
  case True
  then show ?thesis by (intro scan_frame_short) simp
next
  case False
  obtain h p where f: "f = (h, p)" by (cases f)
  have ok: "unat (fh_len h) = length p" using assms(1) by (simp add: f frame_ok_def)
  have hd: "take FRAME_HEADER_LEN (take n (frame_bytes f)) = frame_header_bytes h p"
    using False by (simp add: f frame_bytes_def)
  have len: "unat (from_le_bytes (take_at 4 (frame_header_bytes h p) 0) :: u32) = length p"
    using ok by (simp add: frame_header_bytes_eq)
  have "length (take n (frame_bytes f)) < FRAME_HEADER_LEN + length p"
    using assms by (simp add: frame_bytes_length frame_len_def f ok)
  then show ?thesis unfolding scan_frame_def Let_def hd len by simp
qed

function frames_in :: "u8 list \<Rightarrow> frame list" where
  "frames_in rest =
     (case scan_frame rest of None \<Rightarrow> []
      | Some (h, p) \<Rightarrow> (h, p) # frames_in (drop (frame_len h) rest))"
  by pat_completeness auto
termination
  by (relation "measure length") (auto dest!: scan_frame_length)

declare frames_in.simps [simp del]

lemma drop_frame: "frame_ok f \<Longrightarrow> drop (frame_len (fst f)) (frame_bytes f @ rest) = rest"
  by (simp add: frame_bytes_length [symmetric])

lemma frames_in_Cons: "frame_ok f \<Longrightarrow> frames_in (frame_bytes f @ rest) = f # frames_in rest"
  by (subst frames_in.simps) (simp add: scan_frame_frame case_prod_unfold drop_frame del: drop_append)

lemma log_bytes_simps [simp]:
  "log_bytes [] = []" "log_bytes (f # fs) = frame_bytes f @ log_bytes fs"
  "log_bytes (fs @ gs) = log_bytes fs @ log_bytes gs"
  by (simp_all add: log_bytes_def)

lemma frames_in_log:
  "list_all frame_ok fs \<Longrightarrow> frames_in (log_bytes fs @ rest) = fs @ frames_in rest"
  by (induction fs) (simp_all add: frames_in_Cons)

lemma frames_in_none: "scan_frame torn = None \<Longrightarrow> frames_in torn = []"
  by (subst frames_in.simps) simp

lemma scan_frame_Nil [simp]: "scan_frame [] = None"
  by (simp add: scan_frame_def FRAME_HEADER_LEN_def)

lemma frames_in_log_all: "list_all frame_ok fs \<Longrightarrow> frames_in (log_bytes fs) = fs"
  using frames_in_log [of fs "[]"] by (simp add: frames_in_none)

fun seq_run :: "seq \<Rightarrow> frame list \<Rightarrow> bool" where
  "seq_run s [] = True"
| "seq_run s (f # fs) \<longleftrightarrow> fh_seq (fst f) = s \<and> seq_run (seq_next s) fs"

fun seq_after :: "seq \<Rightarrow> frame list \<Rightarrow> seq" where
  "seq_after s [] = s"
| "seq_after s (f # fs) = seq_after (seq_next s) fs"

lemma seq_run_append: "seq_run s (fs @ gs) \<longleftrightarrow> seq_run s fs \<and> seq_run (seq_after s fs) gs"
  by (induction fs arbitrary: s) auto

lemma seq_after_append: "seq_after s (fs @ gs) = seq_after (seq_after s fs) gs"
  by (induction fs arbitrary: s) auto

definition last_of :: "scan_result \<Rightarrow> frame list \<Rightarrow> scan_result" where
  "last_of acc fs =
     (if fs = [] then acc
      else acc\<lparr>sc_last_seq := fh_seq (fst (last fs)), sc_last_epoch := fh_epoch (fst (last fs)),
               sc_good_end := sc_good_end acc + length (log_bytes fs),
               sc_records := sc_records acc + length fs\<rparr>)"

lemma scan_loop_Cons:
  "frame_ok f \<Longrightarrow> fh_seq (fst f) = s \<Longrightarrow>
   scan_loop s (frame_bytes f @ rest) acc = scan_loop (seq_next s) rest (last_of acc [f])"
  by (subst scan_loop.simps)
    (simp add: scan_frame_frame case_prod_unfold drop_frame last_of_def frame_bytes_length del: drop_append)

lemma last_of_Cons: "last_of (last_of acc [f]) fs = last_of acc (f # fs)"
  by (auto simp: last_of_def)

lemma scan_loop_log:
  "list_all frame_ok fs \<Longrightarrow> seq_run s fs \<Longrightarrow> scan_frame torn = None \<Longrightarrow>
   scan_loop s (log_bytes fs @ torn) acc = Inr (last_of acc fs)"
proof (induction fs arbitrary: s acc)
  case Nil
  then show ?case by (simp add: scan_loop.simps [of s torn] last_of_def)
next
  case (Cons f fs)
  then show ?case by (simp add: scan_loop_Cons last_of_Cons)
qed

subsection \<open>The writer's log\<close>

definition body :: "u8 list \<Rightarrow> u8 list" where
  "body file = drop SEGMENT_HEADER_LEN file"

definition segment_ok :: "seq \<Rightarrow> u8 list \<Rightarrow> frame list \<Rightarrow> bool" where
  "segment_ok base file fs \<longleftrightarrow>
     (\<exists>t. file = encode_segment_header base t @ log_bytes fs) \<and> list_all frame_ok fs \<and> seq_run base fs"

text \<open>Segments that follow each other without a gap, each starting where the one before it ended.\<close>

fun chain :: "seq \<Rightarrow> (seq \<times> u8 list) list \<Rightarrow> bool" where
  "chain s [] = True"
| "chain s ((b, file) # rest) \<longleftrightarrow>
     b = s \<and> segment_ok b file (frames_in (body file)) \<and> chain (seq_after s (frames_in (body file))) rest"

definition frames_of :: "(seq \<times> u8 list) list \<Rightarrow> frame list" where
  "frames_of segs = concat (map (\<lambda>(_, file). frames_in (body file)) segs)"

definition disk :: "journal \<Rightarrow> (seq \<times> u8 list) list" where
  "disk j = jn_closed j @ [(jn_segment_base j, jn_segment_file j)]"

text \<open>What is on disk, and what waits for the next flush.\<close>

definition durable_frames :: "journal \<Rightarrow> frame list" where
  "durable_frames j = frames_of (disk j)"

definition pending_frames :: "journal \<Rightarrow> frame list" where
  "pending_frames j = frames_in (jn_buffer j)"

definition journal_ok :: "journal \<Rightarrow> bool" where
  "journal_ok j \<longleftrightarrow> jn_poisoned j = None \<and> chain 1 (disk j) \<and>
     jn_buffer j = log_bytes (pending_frames j) \<and> list_all frame_ok (pending_frames j) \<and>
     seq_run 1 (durable_frames j @ pending_frames j) \<and>
     jn_next_seq j = seq_after 1 (durable_frames j @ pending_frames j) \<and>
     jn_buffered_records j = length (pending_frames j)"

lemma body_segment [simp]: "body (encode_segment_header b t @ xs) = xs"
  by (simp add: body_def segment_header_length [symmetric, of b t])

lemma frames_of_simps [simp]:
  "frames_of [] = []" "frames_of ((b, file) # segs) = frames_in (body file) @ frames_of segs"
  "frames_of (segs @ segs') = frames_of segs @ frames_of segs'"
  by (simp_all add: frames_of_def)

lemma chain_append: "chain s (xs @ ys) \<longleftrightarrow> chain s xs \<and> chain (seq_after s (frames_of xs)) ys"
  by (induction xs arbitrary: s) (auto simp: seq_after_append)

lemma chain_seq_run: "chain s segs \<Longrightarrow> seq_run s (frames_of segs)"
  by (induction segs arbitrary: s) (auto simp: seq_run_append segment_ok_def)

lemma segment_okI:
  "list_all frame_ok fs \<Longrightarrow> seq_run b fs \<Longrightarrow>
   segment_ok b (encode_segment_header b t @ log_bytes fs) (frames_in (log_bytes fs))"
  by (auto simp: segment_ok_def frames_in_log_all)

lemma segment_ok_fresh: "segment_ok b (encode_segment_header b t) []"
  by (auto simp: segment_ok_def)

lemma frames_in_fresh [simp]: "frames_in (body (encode_segment_header b t)) = []"
  using body_segment [of b t "[]"] by (simp add: frames_in_none)

text \<open>Writing whole frames, or frames and a torn one, to the end of a segment.\<close>

lemma segment_grow:
  assumes "segment_ok b file (frames_in (body file))" "list_all frame_ok gs"
    "seq_run (seq_after b (frames_in (body file))) gs"
  shows "frames_in (body (file @ log_bytes gs @ torn)) = frames_in (body file) @ gs @ frames_in torn"
    "segment_ok b (file @ log_bytes gs) (frames_in (body (file @ log_bytes gs)))"
proof -
  let ?fs = "frames_in (body file)"
  obtain t where seg: "file = encode_segment_header b t @ log_bytes ?fs" and ok: "list_all frame_ok ?fs" "seq_run b ?fs"
    using assms(1) by (auto simp: segment_ok_def)
  have app: "file @ log_bytes gs @ x = encode_segment_header b t @ log_bytes (?fs @ gs) @ x" for x
    by (subst seg) simp
  have "body (file @ log_bytes gs @ x) = log_bytes (?fs @ gs) @ x" for x
    unfolding app by (rule body_segment)
  then show grow: "frames_in (body (file @ log_bytes gs @ x)) = ?fs @ gs @ frames_in x" for x
    using frames_in_log [of "?fs @ gs" x] ok assms(2) by simp
  show "segment_ok b (file @ log_bytes gs) (frames_in (body (file @ log_bytes gs)))"
    using grow [of "[]"] app [of "[]"] ok assms(2,3)
    by (auto simp: segment_ok_def seq_run_append frames_in_none)
qed

lemma append_header_ok:
  "length payload \<le> MAX_PAYLOAD \<Longrightarrow> frame_ok (append_header j kind now payload, payload)"
proof -
  assume "length payload \<le> MAX_PAYLOAD"
  then have "length payload < 2 ^ 32" by (simp add: MAX_PAYLOAD_def)
  then have "unat (of_nat (length payload) :: u32) = length payload"
    by (simp add: unat_of_nat take_bit_nat_eq_self)
  then show ?thesis using \<open>length payload \<le> MAX_PAYLOAD\<close> by (simp add: frame_ok_def append_header_def)
qed

lemma append_state:
  assumes "jn_poisoned j = None" "length payload \<le> MAX_PAYLOAD"
  shows "fst (journal_append kind now payload j) = Inr (jn_next_seq j)"
    "disk (snd (journal_append kind now payload j)) = disk j"
    "jn_poisoned (snd (journal_append kind now payload j)) = None"
    "jn_epoch (snd (journal_append kind now payload j)) = jn_epoch j"
    "jn_next_seq (snd (journal_append kind now payload j)) = seq_next (jn_next_seq j)"
    "jn_buffered_records (snd (journal_append kind now payload j)) = Suc (jn_buffered_records j)"
    "jn_buffer (snd (journal_append kind now payload j)) =
       jn_buffer j @ frame_bytes (append_header j kind now payload, payload)"
  using assms by (simp_all add: journal_append_def Let_def frame_bytes_def frame_header_bytes_def disk_def)

lemma append_ok:
  assumes "journal_ok j" "length payload \<le> MAX_PAYLOAD"
  shows "journal_ok (snd (journal_append kind now payload j))"
    "durable_frames (snd (journal_append kind now payload j)) = durable_frames j"
    "pending_frames (snd (journal_append kind now payload j)) =
       pending_frames j @ [(append_header j kind now payload, payload)]"
proof -
  let ?f = "(append_header j kind now payload, payload)"
  let ?j = "snd (journal_append kind now payload j)"
  have inv: "jn_poisoned j = None" "chain 1 (disk j)" "jn_buffer j = log_bytes (pending_frames j)"
      "list_all frame_ok (pending_frames j)" "seq_run 1 (durable_frames j @ pending_frames j)"
      "jn_next_seq j = seq_after 1 (durable_frames j @ pending_frames j)"
      "jn_buffered_records j = length (pending_frames j)"
    using assms(1) by (auto simp: journal_ok_def)
  note st = append_state [OF inv(1) assms(2), of kind now]
  have fok: "frame_ok ?f" using assms(2) by (rule append_header_ok)
  have buf: "jn_buffer ?j = log_bytes (pending_frames j @ [?f])" using st(7) inv(3) by simp
  show dur: "durable_frames ?j = durable_frames j" by (simp add: durable_frames_def st)
  show pend: "pending_frames ?j = pending_frames j @ [?f]"
    using frames_in_log_all [of "pending_frames j @ [?f]"] inv(4) fok
    unfolding pending_frames_def [of ?j] buf by simp
  have "fh_seq (append_header j kind now payload) = seq_after 1 (durable_frames j @ pending_frames j)"
    using inv(6) by (simp add: append_header_def)
  then show "journal_ok ?j"
    using inv fok buf unfolding journal_ok_def dur pend st
    by (simp add: seq_run_append seq_after_append)
qed

lemma durable_split:
  "durable_frames j = frames_of (jn_closed j) @ frames_in (body (jn_segment_file j))"
  by (simp add: durable_frames_def disk_def)

lemma journal_ok_segment:
  "journal_ok j \<Longrightarrow> chain 1 (jn_closed j) \<and> jn_segment_base j = seq_after 1 (frames_of (jn_closed j)) \<and>
     segment_ok (jn_segment_base j) (jn_segment_file j) (frames_in (body (jn_segment_file j)))"
  by (auto simp: journal_ok_def disk_def chain_append)

text \<open>A write that stops after any number of bytes leaves whole frames and one torn one.\<close>

lemma take_log:
  "list_all frame_ok gs \<Longrightarrow>
   \<exists>k torn. take n (log_bytes gs) = log_bytes (take k gs) @ torn \<and> scan_frame torn = None"
proof (induction gs arbitrary: n)
  case Nil
  then show ?case by simp
next
  case (Cons g gs)
  show ?case
  proof (cases "n < length (frame_bytes g)")
    case True
    then have "take n (log_bytes (g # gs)) = log_bytes (take 0 (g # gs)) @ take n (frame_bytes g)" by simp
    moreover have "scan_frame (take n (frame_bytes g)) = None"
      using scan_frame_torn [OF _ True] Cons.prems by simp
    ultimately show ?thesis by blast
  next
    case False
    obtain k torn where "take (n - length (frame_bytes g)) (log_bytes gs) = log_bytes (take k gs) @ torn"
      "scan_frame torn = None"
      using Cons.IH [of "n - length (frame_bytes g)"] Cons.prems by auto
    then have "take n (log_bytes (g # gs)) = log_bytes (take (Suc k) (g # gs)) @ torn" using False by simp
    then show ?thesis using \<open>scan_frame torn = None\<close> by blast
  qed
qed

text \<open>The state after a group has been written and synced, before the segment is rolled.\<close>

definition synced :: "journal \<Rightarrow> journal" where
  "synced j = j\<lparr>jn_segment_file := jn_segment_file j @ jn_buffer j,
     jn_segment_bytes := jn_segment_bytes j + length (jn_buffer j), jn_buffer := [], jn_buffered_records := 0,
     jn_stats := (jn_stats j)\<lparr>st_flushes := st_flushes (jn_stats j) + 1\<rparr>\<rparr>"

lemma pending_Nil [simp]: "jn_buffer j = [] \<Longrightarrow> pending_frames j = []"
  by (simp add: pending_frames_def frames_in_none)

lemma synced_ok:
  assumes "journal_ok j"
  shows "journal_ok (synced j)" "durable_frames (synced j) = durable_frames j @ pending_frames j"
    "pending_frames (synced j) = []"
proof -
  have inv: "jn_poisoned j = None" "jn_buffer j = log_bytes (pending_frames j)"
      "list_all frame_ok (pending_frames j)" "seq_run 1 (durable_frames j @ pending_frames j)"
      "jn_next_seq j = seq_after 1 (durable_frames j @ pending_frames j)"
    using assms by (auto simp: journal_ok_def)
  have seg: "chain 1 (jn_closed j)" "jn_segment_base j = seq_after 1 (frames_of (jn_closed j))"
      "segment_ok (jn_segment_base j) (jn_segment_file j) (frames_in (body (jn_segment_file j)))"
    using journal_ok_segment [OF assms] by auto
  have run: "seq_run (seq_after (jn_segment_base j) (frames_in (body (jn_segment_file j)))) (pending_frames j)"
    using inv(4) by (simp add: durable_split seq_run_append seq_after_append seg(2))
  note grow = segment_grow [OF seg(3) inv(3) run]
  have body: "frames_in (body (jn_segment_file j @ jn_buffer j)) = frames_in (body (jn_segment_file j)) @ pending_frames j"
    using grow(1) [of "[]"] inv(2) by (simp add: frames_in_none)
  show pend: "pending_frames (synced j) = []" by (simp add: synced_def)
  show dur: "durable_frames (synced j) = durable_frames j @ pending_frames j"
    by (simp add: durable_split synced_def body)
  show "journal_ok (synced j)"
    using seg grow(2) inv unfolding journal_ok_def dur pend
    by (auto simp: synced_def disk_def chain_append body)
qed

lemma roll_ok:
  assumes "journal_ok j" "jn_buffer j = []"
  shows "journal_ok (snd (roll os j))" "durable_frames (snd (roll os j)) = durable_frames j"
    "pending_frames (snd (roll os j)) = []"
proof -
  have nxt: "jn_next_seq j = seq_after 1 (durable_frames j)" and inv: "chain 1 (disk j)"
      "jn_poisoned j = None" "seq_run 1 (durable_frames j)" "jn_buffered_records j = 0"
    using assms by (auto simp: journal_ok_def)
  show pend: "pending_frames (snd (roll os j)) = []" using assms(2) by (simp add: roll_def)
  show dur: "durable_frames (snd (roll os j)) = durable_frames j"
    by (simp add: durable_split roll_def)
  have "chain 1 (disk (snd (roll os j)))"
    using inv(1) nxt by (auto simp: roll_def disk_def chain_append durable_split segment_ok_fresh seq_after_append)
  then show "journal_ok (snd (roll os j))"
    using assms inv nxt unfolding journal_ok_def dur pend by (auto simp: roll_def)
qed

lemma flush_synced:
  assumes "jn_poisoned j = None" "jn_buffer j \<noteq> []" "os_write os = None" "os_sync os"
  shows "journal_flush os j =
    (if jn_segment_bytes (synced j) \<ge> unat SEGMENT_TARGET_BYTES
     then (map_sum id (\<lambda>_. durable_seq (snd (roll os (synced j)))) (fst (roll os (synced j))), snd (roll os (synced j)))
     else (Inr (durable_seq (synced j)), synced j))"
  using assms by (simp add: journal_flush_def Let_def synced_def split: prod.splits sum.splits)

lemma flush_ok:
  assumes "journal_ok j" "os_write os = None" "os_sync os"
  shows "journal_ok (snd (journal_flush os j))"
    "durable_frames (snd (journal_flush os j)) = durable_frames j @ pending_frames j"
    "pending_frames (snd (journal_flush os j)) = []"
    "os_create os \<Longrightarrow> fst (journal_flush os j) = Inr (durable_seq (snd (journal_flush os j)))"
proof -
  have np: "jn_poisoned j = None" using assms(1) by (simp add: journal_ok_def)
  have "journal_ok (snd (journal_flush os j)) \<and>
    durable_frames (snd (journal_flush os j)) = durable_frames j @ pending_frames j \<and>
    pending_frames (snd (journal_flush os j)) = [] \<and>
    (os_create os \<longrightarrow> fst (journal_flush os j) = Inr (durable_seq (snd (journal_flush os j))))"
  proof (cases "jn_buffer j = []")
    case True
    then show ?thesis using assms(1) np by (simp add: journal_flush_def)
  next
    case False
    have "jn_buffer (synced j) = []" by (simp add: synced_def)
    note roll_ok = roll_ok [OF synced_ok(1) [OF assms(1)] this, of os]
    have "os_create os \<Longrightarrow> fst (roll os (synced j)) = Inr ()" by (simp add: roll_def)
    then show ?thesis
      using flush_synced [OF np False assms(2,3)] synced_ok [OF assms(1)] roll_ok by (auto split: if_splits)
  qed
  then show "journal_ok (snd (journal_flush os j))"
    "durable_frames (snd (journal_flush os j)) = durable_frames j @ pending_frames j"
    "pending_frames (snd (journal_flush os j)) = []"
    "os_create os \<Longrightarrow> fst (journal_flush os j) = Inr (durable_seq (snd (journal_flush os j)))"
    by auto
qed

text \<open>Only a segment that holds records is ever closed.\<close>

definition full :: "(seq \<times> u8 list) list \<Rightarrow> bool" where
  "full segs \<longleftrightarrow> list_all (\<lambda>(_, file). frames_in (body file) \<noteq> []) segs"

lemma append_closed: "jn_closed (snd (journal_append kind now payload j)) = jn_closed j"
  by (simp add: journal_append_def Let_def split: option.split)

lemma flush_full:
  assumes "journal_ok j" "full (jn_closed j)"
  shows "full (jn_closed (snd (journal_flush os j)))"
proof -
  have "frames_in (body (jn_segment_file j @ jn_buffer j)) = frames_in (body (jn_segment_file j)) @ pending_frames j"
    using synced_ok(2) [OF assms(1)] by (simp add: durable_split synced_def)
  moreover have "pending_frames j \<noteq> []" if "jn_buffer j \<noteq> []"
    using that assms(1) by (auto simp: journal_ok_def)
  ultimately show ?thesis using assms(2) by (auto simp: journal_flush_def roll_def poison_def full_def Let_def split: option.split)
qed

text \<open>
  Whatever the operating system answers, what a flush leaves on disk is the old log, a run of the group's
  frames and at most one torn frame.
\<close>

definition torn_disk :: "journal \<Rightarrow> frame list \<Rightarrow> u8 list \<Rightarrow> (seq \<times> u8 list) list" where
  "torn_disk j gs torn = jn_closed j @ [(jn_segment_base j, jn_segment_file j @ log_bytes gs @ torn)]"

lemma flush_failed:
  assumes "journal_ok j" "pending_frames j \<noteq> []" "os_write os \<noteq> None \<or> \<not> os_sync os"
  shows "\<exists>k torn doing. journal_flush os j = (Inl (JIo doing), poison doing (snd (journal_flush os j))) \<and>
    disk (snd (journal_flush os j)) = torn_disk j (take k (pending_frames j)) torn \<and> scan_frame torn = None"
proof -
  have inv: "jn_poisoned j = None" "jn_buffer j = log_bytes (pending_frames j)" "list_all frame_ok (pending_frames j)"
    using assms(1) by (auto simp: journal_ok_def)
  have ne: "jn_buffer j \<noteq> []" using assms(2) pending_Nil by blast
  show ?thesis
  proof (cases "os_write os")
    case None
    then show ?thesis
      using assms(3) inv ne
      by (intro exI [of _ "length (pending_frames j)"] exI [of _ "[]"] exI [of _ "''sync records''"])
        (simp add: journal_flush_def Let_def poison_def disk_def torn_disk_def)
  next
    case (Some n)
    obtain k torn where "take n (jn_buffer j) = log_bytes (take k (pending_frames j)) @ torn" "scan_frame torn = None"
      using take_log [OF inv(3), of n] inv(2) by auto
    then show ?thesis
      using inv ne Some
      by (intro exI [of _ k] exI [of _ torn] exI [of _ "''write records''"])
        (simp add: journal_flush_def poison_def disk_def torn_disk_def)
  qed
qed

subsection \<open>Recovery\<close>

lemma scan_segment_log:
  assumes "list_all frame_ok fs" "seq_run base fs" "scan_frame torn = None"
  shows "scan_segment (encode_segment_header base t @ log_bytes fs @ torn) =
    Inr \<lparr>sc_last_seq = (if fs = [] then 0 else fh_seq (fst (last fs))),
         sc_last_epoch = (if fs = [] then 0 else fh_epoch (fst (last fs))),
         sc_good_end = SEGMENT_HEADER_LEN + length (log_bytes fs),
         sc_torn = (torn \<noteq> []), sc_records = length fs\<rparr>"
proof -
  let ?file = "encode_segment_header base t @ log_bytes fs @ torn"
  have "take SEGMENT_HEADER_LEN ?file = encode_segment_header base t"
    "drop SEGMENT_HEADER_LEN ?file = log_bytes fs @ torn"
    "length ?file = SEGMENT_HEADER_LEN + length (log_bytes fs) + length torn"
    using segment_header_length [of base t] by (simp_all del: append_assoc add: append_assoc [symmetric])
  then show ?thesis
    by (simp add: scan_segment_def segment_header_read_back map_err_def res_bind_def
        scan_loop_log [OF assms] last_of_def)
qed

lemma seq_after_last: "seq_run s fs \<Longrightarrow> fs \<noteq> [] \<Longrightarrow> seq_after s fs = seq_next (fh_seq (fst (last fs)))"
  by (induction fs arbitrary: s) auto

lemma scan_segment_ok:
  assumes "segment_ok b file fs" "scan_frame torn = None"
  shows "scan_segment (file @ torn) =
    Inr \<lparr>sc_last_seq = (if fs = [] then 0 else fh_seq (fst (last fs))),
         sc_last_epoch = (if fs = [] then 0 else fh_epoch (fst (last fs))),
         sc_good_end = length file, sc_torn = (torn \<noteq> []), sc_records = length fs\<rparr>"
  using assms scan_segment_log [of fs b torn] by (auto simp: segment_ok_def segment_header_length)

text \<open>The log a claim reads: whole segments, the last of them followed by the remains of a torn write.\<close>

lemma claim_segments_chain:
  assumes "chain s (segs @ [(b, file)])" "scan_frame torn = None" "seq_next (cs_last_seq acc) = s"
    "cs_truncated_bytes acc = 0"
  shows "\<exists>acc'. claim_segments True (segs @ [(b, file @ torn)]) acc = Inr (acc', segs @ [(b, file)]) \<and>
    seq_next (cs_last_seq acc') = seq_after s (frames_of (segs @ [(b, file)])) \<and>
    cs_existing_records acc' = cs_existing_records acc + length (frames_of (segs @ [(b, file)])) \<and>
    cs_truncated_bytes acc' = length torn"
  using assms
proof (induction segs arbitrary: s acc)
  case Nil
  then have ok: "segment_ok b file (frames_in (body file))" and run: "seq_run s (frames_in (body file))"
    by (auto simp: segment_ok_def)
  show ?case
    using Nil scan_segment_ok [OF ok Nil(2)] seq_after_last [OF run]
    by (auto simp: res_bind_def Let_def frames_in_none)
next
  case (Cons seg segs)
  obtain b' file' where seg: "seg = (b', file')" by (cases seg)
  let ?fs = "frames_in (body file')"
  have ok: "segment_ok b' file' ?fs" and run: "seq_run s ?fs" and more: "chain (seq_after s ?fs) (segs @ [(b, file)])"
    using Cons.prems(1) by (auto simp: seg segment_ok_def)
  define acc1 where "acc1 = acc\<lparr>cs_existing_records := cs_existing_records acc + length ?fs\<rparr>"
  define acc2 where "acc2 = (if ?fs = [] then acc1 else acc1\<lparr>cs_last_seq := fh_seq (fst (last ?fs)), cs_last_epoch := fh_epoch (fst (last ?fs))\<rparr>)"
  have scan: "scan_segment file' = Inr \<lparr>sc_last_seq = (if ?fs = [] then 0 else fh_seq (fst (last ?fs))),
         sc_last_epoch = (if ?fs = [] then 0 else fh_epoch (fst (last ?fs))),
         sc_good_end = length file', sc_torn = False, sc_records = length ?fs\<rparr>"
    using scan_segment_ok [OF ok scan_frame_Nil] by simp
  have "seq_next (cs_last_seq acc2) = seq_after s ?fs" "cs_truncated_bytes acc2 = 0"
    using Cons.prems(3,4) seq_after_last [OF run] by (simp_all add: acc2_def acc1_def)
  note IH = Cons.IH [OF more assms(2) this]
  have step: "claim_segments True ((seg # segs) @ [(b, file @ torn)]) acc =
      res_bind (claim_segments True (segs @ [(b, file @ torn)]) acc2) (\<lambda>(acc, rest). Inr (acc, (b', file') # rest))"
    by (simp add: seg scan res_bind_def acc2_def acc1_def Let_def)
  have "cs_existing_records acc2 = cs_existing_records acc + length ?fs" by (simp add: acc2_def acc1_def)
  with IH show ?case unfolding step by (auto simp: res_bind_def seg seq_after_append)
qed

definition reopened :: "epoch \<Rightarrow> seq \<Rightarrow> (seq \<times> u8 list) list \<Rightarrow> seq \<Rightarrow> u8 list \<Rightarrow> claim_report \<Rightarrow> journal" where
  "reopened e n closed b file r =
     \<lparr>jn_epoch = e, jn_next_seq = n, jn_closed = closed, jn_segment_base = b, jn_segment_file = file,
      jn_segment_bytes = length file, jn_buffer = [], jn_buffered_records = 0, jn_poisoned = None,
      jn_stats = stats_default, jn_claim_report = r\<rparr>"

lemma reopened_ok:
  assumes "chain 1 (closed @ [(b, file)])" "n = seq_after 1 (frames_of (closed @ [(b, file)]))"
  shows "journal_ok (reopened e n closed b file r)" "pending_frames (reopened e n closed b file r) = []"
    "durable_frames (reopened e n closed b file r) = frames_of (closed @ [(b, file)])"
proof -
  show pend: "pending_frames (reopened e n closed b file r) = []" by (simp add: reopened_def)
  show dur: "durable_frames (reopened e n closed b file r) = frames_of (closed @ [(b, file)])"
    by (simp add: reopened_def durable_frames_def disk_def)
  show "journal_ok (reopened e n closed b file r)"
    unfolding journal_ok_def dur pend using assms chain_seq_run [OF assms(1)]
    by (simp add: reopened_def disk_def del: frames_of_simps)
qed

lemma stats_irrelevant [simp]:
  "disk (j\<lparr>jn_stats := s\<rparr>) = disk j" "durable_frames (j\<lparr>jn_stats := s\<rparr>) = durable_frames j"
  "pending_frames (j\<lparr>jn_stats := s\<rparr>) = pending_frames j" "journal_ok (j\<lparr>jn_stats := s\<rparr>) = journal_ok j"
  by (simp_all add: disk_def durable_frames_def pending_frames_def journal_ok_def)

definition os_works :: "os \<Rightarrow> bool" where
  "os_works os \<longleftrightarrow> os_write os = None \<and> os_sync os \<and> os_create os"

lemma append_flush_ok:
  assumes "journal_ok j" "length payload \<le> MAX_PAYLOAD" "os_works os"
  shows "\<exists>x j'. op_seq (journal_append kind now payload) (journal_flush os) j = (Inr x, j') \<and> journal_ok j' \<and>
    pending_frames j' = [] \<and>
    durable_frames j' = durable_frames j @ pending_frames j @ [(append_header j kind now payload, payload)]"
proof -
  let ?j = "snd (journal_append kind now payload j)"
  have np: "jn_poisoned j = None" using assms(1) by (simp add: journal_ok_def)
  have eq: "journal_append kind now payload j = (Inr (jn_next_seq j), ?j)"
    using append_state(1) [OF np assms(2), of kind now] by (metis prod.collapse)
  have os: "os_write os = None" "os_sync os" "os_create os" using assms(3) by (auto simp: os_works_def)
  note fl = flush_ok [OF append_ok(1) [OF assms(1,2), of kind now] os(1,2)]
  have "journal_flush os ?j = (Inr (durable_seq (snd (journal_flush os ?j))), snd (journal_flush os ?j))"
    using fl(4) [OF os(3)] by (metis prod.collapse)
  moreover have "op_seq (journal_append kind now payload) (journal_flush os) j = journal_flush os ?j"
    unfolding op_seq_def op_bind_def by (subst eq) simp
  ultimately show ?thesis using fl(1-3) append_ok(2,3) [OF assms(1,2), of kind now] by auto
qed

lemma claim_ok:
  assumes "chain 1 (segs @ [(b, file)])" "scan_frame torn = None" "os_works os"
  shows "\<exists>j f. journal_claim False True os (segs @ [(b, file @ torn)]) now = Inr j \<and> journal_ok j \<and>
    pending_frames j = [] \<and> fh_kind (fst f) = KEpochClaimed \<and>
    durable_frames j = frames_of (segs @ [(b, file)]) @ [f] \<and>
    (\<exists>(epoch :: epoch) (resumed :: seq). snd f = to_le_bytes 8 epoch @ to_le_bytes 8 resumed) \<and> (full segs \<longrightarrow> full (jn_closed j))"
proof -
  let ?acc = "\<lparr>cs_truncated_bytes = 0, cs_existing_records = 0, cs_last_seq = 0, cs_last_epoch = 0\<rparr>"
  have "seq_next (cs_last_seq ?acc) = 1" by (simp add: seq_next_def saturating_add_u64_def)
  from claim_segments_chain [OF assms(1,2) this] obtain acc where
    acc: "claim_segments True (segs @ [(b, file @ torn)]) ?acc = Inr (acc, segs @ [(b, file)])"
      "seq_next (cs_last_seq acc) = seq_after 1 (frames_of (segs @ [(b, file)]))" by auto
  define payload where "payload = to_le_bytes 8 (epoch_next (cs_last_epoch acc)) @ to_le_bytes 8 (cs_last_seq acc)"
  define j where "j = reopened (epoch_next (cs_last_epoch acc)) (seq_next (cs_last_seq acc)) segs b file
    \<lparr>cr_epoch = epoch_next (cs_last_epoch acc), cr_resumed_from = cs_last_seq acc,
     cr_existing_records = cs_existing_records acc, cr_truncated_bytes = cs_truncated_bytes acc\<rparr>"
  have len: "length payload \<le> MAX_PAYLOAD" by (simp add: payload_def MAX_PAYLOAD_def)
  have ok: "journal_ok j" "pending_frames j = []" "durable_frames j = frames_of (segs @ [(b, file)])"
    unfolding j_def using reopened_ok [OF assms(1) acc(2)] by blast+
  from append_flush_ok [OF ok(1) len assms(3), of KEpochClaimed now] obtain x j' where
    j': "op_seq (journal_append KEpochClaimed now payload) (journal_flush os) j = (Inr x, j')" "journal_ok j'"
      "pending_frames j' = []" "durable_frames j' = durable_frames j @ [(append_header j KEpochClaimed now payload, payload)]"
    using ok by auto
  have "j' = snd (journal_flush os (snd (journal_append KEpochClaimed now payload j)))"
    using j'(1) by (auto simp: op_seq_def op_bind_def split: prod.splits sum.splits)
  then have "full segs \<longrightarrow> full (jn_closed j')"
    using flush_full [OF append_ok(1) [OF ok(1) len]] append_closed by (simp add: j_def reopened_def)
  moreover have "\<exists>(epoch :: epoch) (resumed :: seq). payload = to_le_bytes 8 epoch @ to_le_bytes 8 resumed"
    unfolding payload_def by blast
  moreover have "journal_claim False True os (segs @ [(b, file @ torn)]) now = Inr (j'\<lparr>jn_stats := stats_default\<rparr>)"
    using acc(1) j'(1) by (simp add: journal_claim_def res_bind_def Let_def payload_def j_def reopened_def)
  ultimately show ?thesis using j'(2-) ok(3)
    by (intro exI [of _ "j'\<lparr>jn_stats := stats_default\<rparr>"] exI [of _ "(append_header j KEpochClaimed now payload, payload)"])
      (simp add: append_header_def)
qed

lemma torn_disk_frames:
  assumes "journal_ok j" "scan_frame torn = None"
  shows "frames_of (torn_disk j (take k (pending_frames j)) torn) = durable_frames j @ take k (pending_frames j)"
    "chain 1 (torn_disk j (take k (pending_frames j)) [])"
proof -
  let ?gs = "take k (pending_frames j)"
  have seg: "chain 1 (jn_closed j)" "jn_segment_base j = seq_after 1 (frames_of (jn_closed j))"
      "segment_ok (jn_segment_base j) (jn_segment_file j) (frames_in (body (jn_segment_file j)))"
    using journal_ok_segment [OF assms(1)] by auto
  have run: "seq_run 1 (durable_frames j @ pending_frames j)" and all: "list_all frame_ok (pending_frames j)"
    using assms(1) by (auto simp: journal_ok_def)
  have "seq_run 1 ((durable_frames j @ ?gs) @ drop k (pending_frames j))" using run by simp
  then have "seq_run (seq_after 1 (durable_frames j)) ?gs" by (simp only: seq_run_append)
  then have run: "seq_run (seq_after (jn_segment_base j) (frames_in (body (jn_segment_file j)))) ?gs"
    by (simp add: durable_split seq_after_append seg(2))
  have "list_all frame_ok ?gs" using all by (metis append_take_drop_id list_all_append)
  note grow = segment_grow [OF seg(3) this run]
  show "frames_of (torn_disk j ?gs torn) = durable_frames j @ ?gs"
    using grow(1) [of torn] frames_in_none [OF assms(2)] by (simp add: torn_disk_def durable_split)
  show "chain 1 (torn_disk j ?gs [])"
    using seg grow(2) by (simp add: torn_disk_def chain_append)
qed

lemma flush_leaves:
  assumes "journal_ok j"
  shows "\<exists>k segs b file torn. disk (snd (journal_flush os j)) = segs @ [(b, file @ torn)] \<and> scan_frame torn = None \<and>
    chain 1 (segs @ [(b, file)]) \<and> frames_of (segs @ [(b, file)]) = durable_frames j @ take k (pending_frames j) \<and>
    ((\<exists>x. fst (journal_flush os j) = Inr x) \<longrightarrow> length (pending_frames j) \<le> k)"
proof (cases "pending_frames j = [] \<or> os_write os = None \<and> os_sync os")
  case True
  let ?j = "snd (journal_flush os j)"
  have "pending_frames j = [] \<Longrightarrow> ?j = j" using assms by (simp add: journal_flush_def journal_ok_def)
  then have "journal_ok ?j" and dur: "durable_frames ?j = durable_frames j @ pending_frames j"
    using True flush_ok(1,2) [OF assms, of os] assms by auto
  then have "chain 1 (disk ?j)" by (simp add: journal_ok_def)
  with dur show ?thesis
    by (intro exI [of _ "length (pending_frames j)"] exI [of _ "jn_closed ?j"] exI [of _ "jn_segment_base ?j"]
        exI [of _ "jn_segment_file ?j"] exI [of _ "[]"]) (simp add: disk_def durable_frames_def)
next
  case False
  then obtain k torn doing where
    fl: "journal_flush os j = (Inl (JIo doing), poison doing (snd (journal_flush os j)))"
      "disk (snd (journal_flush os j)) = torn_disk j (take k (pending_frames j)) torn" "scan_frame torn = None"
    using flush_failed [OF assms, of os] by blast
  have "fst (journal_flush os j) = Inl (JIo doing)" by (subst fl(1)) simp
  then show ?thesis
    using fl(2,3) torn_disk_frames [OF assms, of "[]" k]
    by (intro exI [of _ k] exI [of _ "jn_closed j"] exI [of _ "jn_segment_base j"]
        exI [of _ "jn_segment_file j @ log_bytes (take k (pending_frames j))"] exI [of _ torn])
      (simp add: torn_disk_def del: frames_of_simps)
qed

subsection \<open>The write-ahead log as an interface\<close>

text \<open>
  What a client relies on: appending queues one record, a flush that returns has moved everything queued
  to the durable log, and no flush, whatever it returns, makes anything durable but a run of the queue.
\<close>

locale append_log =
  fixes good :: "'s \<Rightarrow> bool" and durable pending :: "'s \<Rightarrow> 'f list" and content :: "'f \<Rightarrow> 'r"
    and fits :: "'r \<Rightarrow> bool" and append :: "'r \<Rightarrow> ('s, 'e, unit) op" and flush :: "'o \<Rightarrow> ('s, 'e, 'b) op"
  assumes append_returns: "good s \<Longrightarrow> fits r \<Longrightarrow> fst (append r s) = Inr ()"
    and append_good: "good s \<Longrightarrow> fits r \<Longrightarrow> good (snd (append r s))"
    and append_durable: "good s \<Longrightarrow> fits r \<Longrightarrow> durable (snd (append r s)) = durable s"
    and append_pending: "good s \<Longrightarrow> fits r \<Longrightarrow> \<exists>f. pending (snd (append r s)) = pending s @ [f] \<and> content f = r"
    and flush_returns: "good s \<Longrightarrow> flush w s = (Inr x, s') \<Longrightarrow>
      good s' \<and> durable s' = durable s @ pending s \<and> pending s' = []"
    and flush_any: "good s \<Longrightarrow> \<exists>k. durable (snd (flush w s)) = durable s @ take k (pending s)"
begin

lemma append_all:
  "good s \<Longrightarrow> list_all fits rs \<Longrightarrow>
   \<exists>s'. op_for append rs s = (Inr (), s') \<and> good s' \<and> durable s' = durable s \<and>
     map content (pending s') = map content (pending s) @ rs"
proof (induction rs arbitrary: s)
  case Nil
  then show ?case by (simp add: op_ok_def)
next
  case (Cons r rs)
  let ?s = "snd (append r s)"
  have r: "good s" "fits r" "list_all fits rs" using Cons.prems by auto
  have x: "append r s = (Inr (), ?s)" using append_returns [OF r(1,2)] by (metis prod.collapse)
  have "op_for append (r # rs) s = op_for append rs ?s" unfolding op_for.simps op_seq_def op_bind_def by (subst x) simp
  then show ?case
    using Cons.IH [OF append_good [OF r(1,2)] r(3)] append_pending [OF r(1,2)] append_durable [OF r(1,2)] by auto
qed

lemma group_commit:
  assumes "good s" "list_all fits rs" "op_seq (op_for append rs) (flush w) s = (Inr x, s')"
  shows "good s' \<and> pending s' = [] \<and> map content (durable s') = map content (durable s @ pending s) @ rs"
proof -
  obtain s1 where s1: "op_for append rs s = (Inr (), s1)" "good s1" "durable s1 = durable s"
    "map content (pending s1) = map content (pending s) @ rs" using append_all [OF assms(1,2)] by auto
  have "flush w s1 = (Inr x, s')" using assms(3) s1(1) by (simp add: op_seq_def op_bind_def)
  from flush_returns [OF s1(2) this] show ?thesis using s1(3,4) by simp
qed

lemma lost_group:
  assumes "good s" "list_all fits rs"
  shows "\<exists>k. map content (durable (snd (op_seq (op_for append rs) (flush w) s))) =
    map content (durable s) @ take k (map content (pending s) @ rs)"
proof -
  obtain s1 where s1: "op_for append rs s = (Inr (), s1)" "good s1" "durable s1 = durable s"
    "map content (pending s1) = map content (pending s) @ rs" using append_all [OF assms] by auto
  obtain k where "durable (snd (flush w s1)) = durable s1 @ take k (pending s1)" using flush_any [OF s1(2)] by auto
  then show ?thesis using s1 by (intro exI [of _ k]) (simp add: op_seq_def op_bind_def take_map [symmetric])
qed

end

type_synonym entry = "record_kind \<times> nanos \<times> u8 list"

definition entry_of :: "frame \<Rightarrow> entry" where
  "entry_of f = (fh_kind (fst f), fh_nanos (fst f), snd f)"

definition entry_fits :: "entry \<Rightarrow> bool" where
  "entry_fits e \<longleftrightarrow> length (snd (snd e)) \<le> MAX_PAYLOAD"

definition append_entry :: "entry \<Rightarrow> unit journal_op" where
  "append_entry e = op_seq (journal_append (fst e) (fst (snd e)) (snd (snd e))) (op_ok ())"

lemma append_entry_eq:
  "journal_ok j \<Longrightarrow> length (snd (snd e)) \<le> MAX_PAYLOAD \<Longrightarrow>
   append_entry e j = (Inr (), snd (journal_append (fst e) (fst (snd e)) (snd (snd e)) j))"
  by (simp add: append_entry_def op_defs journal_append_def journal_ok_def Let_def)

lemma flush_Inr_ok:
  assumes "journal_ok j" "journal_flush os j = (Inr x, j')"
  shows "journal_ok j' \<and> durable_frames j' = durable_frames j @ pending_frames j \<and> pending_frames j' = []"
proof (cases "pending_frames j = []")
  case True
  then show ?thesis using assms by (auto simp: journal_flush_def journal_ok_def)
next
  case False
  have "os_write os = None \<and> os_sync os"
  proof (rule ccontr)
    assume "\<not> (os_write os = None \<and> os_sync os)"
    then obtain doing where "journal_flush os j = (Inl (JIo doing), poison doing (snd (journal_flush os j)))"
      using flush_failed [OF assms(1) False, of os] by blast
    then show False using assms(2) by simp
  qed
  then show ?thesis using flush_ok [OF assms(1), of os] assms(2) by simp
qed

interpretation wal: append_log journal_ok durable_frames pending_frames entry_of entry_fits append_entry journal_flush
proof
  fix j and e :: entry assume ok: "journal_ok j" "entry_fits e"
  then have len: "length (snd (snd e)) \<le> MAX_PAYLOAD" by (simp add: entry_fits_def)
  note eq = append_entry_eq [OF ok(1) len]
  show "fst (append_entry e j) = Inr ()" by (simp add: eq)
  show "journal_ok (snd (append_entry e j))" "durable_frames (snd (append_entry e j)) = durable_frames j"
    using append_ok(1,2) [OF ok(1) len] by (simp_all add: eq)
  show "\<exists>f. pending_frames (snd (append_entry e j)) = pending_frames j @ [f] \<and> entry_of f = e"
    using append_ok(3) [OF ok(1) len] by (simp add: eq entry_of_def append_header_def)
next
  fix j w x j' assume "journal_ok j" "journal_flush w j = (Inr x, j')"
  then show "journal_ok j' \<and> durable_frames j' = durable_frames j @ pending_frames j \<and> pending_frames j' = []"
    by (rule flush_Inr_ok)
next
  fix j w assume ok: "journal_ok j"
  obtain k segs b "file" torn where "disk (snd (journal_flush w j)) = segs @ [(b, file @ torn)]" "scan_frame torn = None"
    "chain 1 (segs @ [(b, file)])" "frames_of (segs @ [(b, file)]) = durable_frames j @ take k (pending_frames j)"
    using flush_leaves [OF ok, of w] by blast
  moreover from this(3) have "segment_ok b file (frames_in (body file))" by (auto simp: chain_append)
  then have "frames_in (body (file @ torn)) = frames_in (body file)"
    using segment_grow(1) [of b "file" "[]" torn] \<open>scan_frame torn = None\<close> by (simp add: frames_in_none)
  ultimately show "\<exists>k. durable_frames (snd (journal_flush w j)) = durable_frames j @ take k (pending_frames j)"
    by (auto simp: durable_frames_def)
qed

subsection \<open>Properties\<close>

definition sample_journal :: journal where
  "sample_journal = reopened 1 1 [] 1 (encode_segment_header 1 0)
     \<lparr>cr_epoch = 1, cr_resumed_from = 0, cr_existing_records = 0, cr_truncated_bytes = 0\<rparr>"

lemma sample_journal_ok:
  "journal_ok sample_journal" "pending_frames sample_journal = []" "durable_frames sample_journal = []"
  using reopened_ok [of "[]" 1 "encode_segment_header 1 0" 1]
  by (simp_all add: sample_journal_def segment_ok_fresh)

definition sample_os :: os where
  "sample_os = \<lparr>os_write = None, os_sync = True, os_create = True\<rparr>"

definition sample_entry :: entry where
  "sample_entry = (KMark, 5, [1, 2, 3])"

definition sample_pending :: journal where
  "sample_pending = snd (journal_append KMark 5 [1, 2, 3] sample_journal)"

lemma sample_pending_ok:
  "journal_ok sample_pending" "durable_frames sample_pending = []" "length (pending_frames sample_pending) = 1"
  using append_ok [OF sample_journal_ok(1), of "[1, 2, 3]" KMark 5]
  by (simp_all add: sample_pending_def sample_journal_ok MAX_PAYLOAD_def)

text \<open>
  The log is what was appended to it. A group of records appended and then flushed with a flush that
  returns leaves on disk exactly the records that were there, those already waiting, and the group, in
  order and under a gap-free run of sequence numbers from 1, with nothing left waiting.
\<close>

theorem flush_makes_the_group_durable:
  assumes "journal_ok j" "list_all entry_fits es"
    "op_seq (op_for append_entry es) (journal_flush os) j = (Inr x, j')"
  shows "map entry_of (durable_frames j') = map entry_of (durable_frames j @ pending_frames j) @ es \<and>
    pending_frames j' = [] \<and> seq_run 1 (durable_frames j') \<and> jn_poisoned j' = None"
  using wal.group_commit [OF assms] by (auto simp: journal_ok_def)

theorem flush_makes_the_group_durable_witness:
  "map entry_of (durable_frames (snd (op_seq (op_for append_entry [sample_entry]) (journal_flush sample_os) sample_journal))) =
     [sample_entry]"
proof -
  have fits: "list_all entry_fits [sample_entry]" by (simp add: entry_fits_def sample_entry_def MAX_PAYLOAD_def)
  obtain s1 where s1: "op_for append_entry [sample_entry] sample_journal = (Inr (), s1)" "journal_ok s1"
    using wal.append_all [OF sample_journal_ok(1) fits] by blast
  have os: "os_write sample_os = None" "os_sync sample_os" "os_create sample_os" by (simp_all add: sample_os_def)
  obtain x j' where "journal_flush sample_os s1 = (Inr x, j')"
    using flush_ok(4) [OF s1(2) os] by (metis prod.collapse)
  then have run: "op_seq (op_for append_entry [sample_entry]) (journal_flush sample_os) sample_journal = (Inr x, j')"
    using s1(1) by (simp only: op_seq_Inr) blast
  show ?thesis
    using flush_makes_the_group_durable [OF sample_journal_ok(1) fits run]
    unfolding run by (simp add: sample_journal_ok)
qed



text \<open>
  A torn tail is found where it starts. Scanning a segment that holds a run of frames followed by any
  proper part of one more stops exactly behind the last whole frame and counts exactly the whole frames.
\<close>

theorem scan_stops_at_the_torn_frame:
  assumes "list_all frame_ok fs" "seq_run base fs" "frame_ok f" "n < length (frame_bytes f)"
  shows "\<exists>r. scan_segment (encode_segment_header base t @ log_bytes fs @ take n (frame_bytes f)) = Inr r \<and>
    sc_good_end r = SEGMENT_HEADER_LEN + length (log_bytes fs) \<and> sc_records r = length fs \<and>
    sc_torn r = (0 < n) \<and> (fs \<noteq> [] \<longrightarrow> sc_last_seq r = fh_seq (fst (last fs)))"
  using scan_segment_log [OF assms(1,2) scan_frame_torn [OF assms(3,4)], of t] assms(4) by auto

theorem scan_stops_at_the_torn_frame_witness:
  "\<exists>r. scan_segment (encode_segment_header 1 0 @
      take 9 (frame_bytes (append_header sample_journal KMark 5 [1, 2, 3], [1, 2, 3]))) = Inr r \<and>
    sc_records r = 0 \<and> sc_torn r"
proof -
  have ok: "frame_ok (append_header sample_journal KMark 5 [1, 2, 3], [1, 2, 3])"
    by (rule append_header_ok) (simp add: MAX_PAYLOAD_def)
  have "9 < length (frame_bytes (append_header sample_journal KMark 5 [1, 2, 3], [1, 2, 3]))"
    by (simp add: frame_bytes_length [OF ok] frame_len_def FRAME_HEADER_LEN_def)
  from scan_stops_at_the_torn_frame [of "[]" 1, OF _ _ ok this] show ?thesis by auto
qed

text \<open>
  A failed write or sync is final. The flush that fails reports it, and from then on every append and
  every flush, whatever the disk would answer, is refused and changes nothing.
\<close>

theorem failed_flush_poisons:
  assumes "journal_ok j" "pending_frames j \<noteq> []" "os_write os \<noteq> None \<or> \<not> os_sync os"
  shows "\<exists>doing j'. journal_flush os j = (Inl (JIo doing), j') \<and> is_poisoned j' \<and>
    (\<forall>kind now payload. journal_append kind now payload j' = (Inl (Poisoned doing), j')) \<and>
    (\<forall>os'. journal_flush os' j' = (Inl (Poisoned doing), j'))"
proof -
  obtain doing where "journal_flush os j = (Inl (JIo doing), poison doing (snd (journal_flush os j)))"
    using flush_failed [OF assms] by blast
  then show ?thesis
    by (intro exI [of _ doing] exI [of _ "poison doing (snd (journal_flush os j))"])
      (simp add: is_poisoned_def journal_append_def journal_flush_def poison_def)
qed

theorem failed_flush_poisons_witness:
  "\<exists>doing j'. journal_flush \<lparr>os_write = None, os_sync = False, os_create = True\<rparr> sample_pending = (Inl (JIo doing), j') \<and>
    is_poisoned j'"
proof -
  have "pending_frames sample_pending \<noteq> []" using sample_pending_ok(3) by auto
  from failed_flush_poisons [OF sample_pending_ok(1) this, of "\<lparr>os_write = None, os_sync = False, os_create = True\<rparr>"]
  show ?thesis by auto
qed

text \<open>
  A claim compares sequence numbers inside each segment only: it accepts a directory from which a whole
  segment is missing, although the log then has a hole.
\<close>

lemma claim_ignores_a_missing_segment:
  assumes "segment_ok b file fs" "segment_ok b' file' fs'" "fs' \<noteq> []"
  shows "\<exists>scan. claim_segments True [(b, file), (b', file')] acc = Inr (scan, [(b, file), (b', file')]) \<and>
    cs_last_seq scan = fh_seq (fst (last fs'))"
  using scan_segment_ok [OF assms(1) scan_frame_Nil] scan_segment_ok [OF assms(2) scan_frame_Nil] assms(3)
  by (auto simp: res_bind_def Let_def)

end
