(* ===== verification/Position.thy ===== *)
theory Position
  imports Enums
begin

text \<open>
  Position accounting (\<open>sentinel-ledger/src/position.rs\<close>): signed size, cost basis, realised profit.
  \<open>apply_fill\<close> mutates in place and returns early on overflow, so it is an operation on the position
  that keeps what was written before the failing step.

  Shown here: a fill moves the size by exactly its signed quantity, a flat position carries no basis
  and the basis has the sign of the size, and basis minus realised profit moves by exactly the cash the
  fill exchanged, to within one unit of the last place when the fill flips the position.
\<close>

record position =
  ps_qty :: qty
  ps_cost_basis :: money
  ps_realized :: money

definition position_default :: position where
  "position_default = \<lparr>ps_qty = 0, ps_cost_basis = 0, ps_realized = 0\<rparr>"

datatype position_overflow = PositionOverflowed

definition is_flat :: "position \<Rightarrow> bool" where
  "is_flat p = e8_is_zero (ps_qty p)"

definition abs_qty :: "position \<Rightarrow> qty" where
  "abs_qty p = e8_abs (ps_qty p)"

definition avg_entry :: "position \<Rightarrow> price option" where
  "avg_entry p =
     (if e8_is_zero (ps_qty p) then None
      else to_i64 ((sint (ps_cost_basis p) * SCALE) sdiv sint (ps_qty p)))"

definition position_unrealized :: "position \<Rightarrow> price \<Rightarrow> money" where
  "position_unrealized p mark =
     (if e8_is_zero (ps_qty p) then e8_zero
      else let v = unwrap_or e8_zero (notional mark (ps_qty p))
           in unwrap_or e8_zero (e8_checked_sub v (ps_cost_basis p)))"

definition slice_of_basis :: "position \<Rightarrow> qty \<Rightarrow> qty \<Rightarrow> position_overflow + money" where
  "slice_of_basis p closing held =
     (if e8_is_zero held then Inr e8_zero
      else if closing = held then Inr (e8_abs (ps_cost_basis p))
      else ok_or PositionOverflowed
        (to_i64 ((sint (e8_abs (ps_cost_basis p)) * sint closing) sdiv sint held)))"

text \<open>The two ways a step of the arithmetic fails, as the code maps them.\<close>

definition pos_mul :: "i64 \<Rightarrow> i64 \<Rightarrow> position_overflow + i64" where
  "pos_mul a b = ok_or PositionOverflowed (checked_mul_i64 a b)"

definition pos_err :: "overflow + 'a \<Rightarrow> position_overflow + 'a" where
  "pos_err r = map_err (\<lambda>_. PositionOverflowed) r"

type_synonym 'a position_op = "(position, position_overflow, 'a) op"

text \<open>The opening branch.\<close>

definition fill_opening :: "qty \<Rightarrow> money \<Rightarrow> unit position_op" where
  "fill_opening signed_q signed_cost =
     op_seq (op_read (\<lambda>p. op_bind (op_lift (pos_err (e8_checked_add (ps_qty p) signed_q)))
               (\<lambda>q. op_modify (\<lambda>p. p\<lparr>ps_qty := q\<rparr>))))
       (op_read (\<lambda>p. op_bind (op_lift (pos_err (e8_checked_add (ps_cost_basis p) signed_cost)))
               (\<lambda>b. op_modify (\<lambda>p. p\<lparr>ps_cost_basis := b\<rparr>))))"

text \<open>The reducing branch, up to the reset of a flat position's basis.\<close>

definition fill_reducing :: "price \<Rightarrow> qty \<Rightarrow> qty \<Rightarrow> unit position_op" where
  "fill_reducing price closing held = op_read (\<lambda>p0.
     op_bind (op_lift (slice_of_basis p0 closing held)) (\<lambda>closed_cost.
     op_bind (op_lift (pos_err (notional price closing))) (\<lambda>proceeds.
     let direction = (if e8_is_positive (ps_qty p0) then 1 else -1) in
     op_bind (op_lift (pos_err (e8_checked_sub proceeds closed_cost))) (\<lambda>gross.
     op_bind (op_lift (pos_mul gross direction)) (\<lambda>pnl.
     op_bind (op_lift (pos_err (e8_checked_add (ps_realized p0) pnl))) (\<lambda>r.
     op_seq (op_modify (\<lambda>p. p\<lparr>ps_realized := r\<rparr>)) (
     op_bind (op_lift (pos_mul closed_cost direction)) (\<lambda>closed.
     op_bind (op_lift (pos_err (e8_checked_sub (ps_cost_basis p0) closed))) (\<lambda>b.
     op_seq (op_modify (\<lambda>p. p\<lparr>ps_cost_basis := b\<rparr>)) (
     op_bind (op_lift (pos_mul closing direction)) (\<lambda>c.
     op_bind (op_lift (pos_err (e8_checked_sub (ps_qty p0) c))) (\<lambda>q.
     op_seq (op_modify (\<lambda>p. p\<lparr>ps_qty := q\<rparr>))
       (op_modify (\<lambda>p. if e8_is_zero (ps_qty p) then p\<lparr>ps_cost_basis := e8_zero\<rparr> else p))))))))))))))"

text \<open>The flip: what is left of the fill opens the other side.\<close>

definition fill_flip :: "side \<Rightarrow> qty \<Rightarrow> price \<Rightarrow> qty \<Rightarrow> unit position_op" where
  "fill_flip side qty price closing =
     op_bind (op_lift (pos_err (e8_checked_sub qty closing))) (\<lambda>flipped.
       if e8_is_positive flipped then
         op_bind (op_lift (pos_err (notional price flipped))) (\<lambda>opened.
         op_bind (op_lift (pos_mul flipped (side_sign side))) (\<lambda>q.
         op_seq (op_modify (\<lambda>p. p\<lparr>ps_qty := q\<rparr>)) (
         op_bind (op_lift (pos_mul opened (side_sign side))) (\<lambda>b.
         op_modify (\<lambda>p. p\<lparr>ps_cost_basis := b\<rparr>)))))
       else op_ok ())"

definition position_apply_fill :: "side \<Rightarrow> qty \<Rightarrow> price \<Rightarrow> unit position_op" where
  "position_apply_fill side qty price =
     op_bind (op_lift (pos_mul qty (side_sign side))) (\<lambda>signed_q.
     op_bind (op_lift (pos_err (notional price qty))) (\<lambda>cost.
     op_bind (op_lift (pos_mul cost (side_sign side))) (\<lambda>signed_cost.
     op_read (\<lambda>p.
       if e8_is_zero (ps_qty p) \<or> (e8_is_positive (ps_qty p) = e8_is_positive signed_q)
       then fill_opening signed_q signed_cost
       else let held = e8_abs (ps_qty p); closing = e8_min qty held in
         op_seq (fill_reducing price closing held) (fill_flip side qty price closing)))))"

subsection \<open>What each branch does\<close>

abbreviation sgn_of :: "side \<Rightarrow> int" where
  "sgn_of s \<equiv> (case s of Buy \<Rightarrow> 1 | Sell \<Rightarrow> -1)"

lemma pos_mul_Inr [i64_simps]: "pos_mul a b = Inr r \<longleftrightarrow> sint r = sint a * sint b"
  by (simp add: pos_mul_def i64_simps)

lemma pos_err_Inr [i64_simps]: "pos_err r = Inr x \<longleftrightarrow> r = Inr x"
  by (simp add: pos_err_def)

lemma fill_opening_InrD:
  "fill_opening sq sc p = (Inr u, p') \<Longrightarrow>
     sint (ps_qty p') = sint (ps_qty p) + sint sq \<and>
     sint (ps_cost_basis p') = sint (ps_cost_basis p) + sint sc \<and> ps_realized p' = ps_realized p"
  by (auto simp: fill_opening_def op_seq_Inr op_flow i64_simps)

definition dir_of :: "position \<Rightarrow> int" where
  "dir_of p = (if 0 < sint (ps_qty p) then 1 else -1)"

lemma fill_reducing_InrD:
  assumes "fill_reducing price closing held p = (Inr u, p')"
  obtains cc pr where "slice_of_basis p closing held = Inr cc" "notional price closing = Inr pr"
    "sint (ps_realized p') = sint (ps_realized p) + dir_of p * (sint pr - sint cc)"
    "sint (ps_qty p') = sint (ps_qty p) - dir_of p * sint closing"
    "sint (ps_cost_basis p') = (if sint (ps_qty p') = 0 then 0
       else sint (ps_cost_basis p) - dir_of p * sint cc)"
proof -
  let ?d = "if e8_is_positive (ps_qty p) then 1 else - 1 :: i64"
  have d: "sint ?d = dir_of p" by (simp add: dir_of_def e8_is_positive_def)
  obtain cc pr r b q and g pnl c m :: i64 where
    "slice_of_basis p closing held = Inr cc" "notional price closing = Inr pr"
    "sint g = sint pr - sint cc" "sint pnl = sint g * sint ?d" "sint r = sint (ps_realized p) + sint pnl"
    "sint c = sint cc * sint ?d" "sint b = sint (ps_cost_basis p) - sint c"
    "sint m = sint closing * sint ?d" "sint q = sint (ps_qty p) - sint m"
    "p' = (if e8_is_zero q then p\<lparr>ps_realized := r, ps_cost_basis := b, ps_qty := q, ps_cost_basis := e8_zero\<rparr>
           else p\<lparr>ps_realized := r, ps_cost_basis := b, ps_qty := q\<rparr>)"
    using assms unfolding fill_reducing_def op_flow Let_def pos_err_Inr pos_mul_Inr e8_checked_add_Inr
        e8_checked_sub_Inr
    by (elim exE conjE) (rule that, assumption+, simp)
  then show thesis
    by (intro that [of cc pr]) (simp_all add: d e8_is_zero_iff mult.commute)
qed

lemma fill_flip_InrD:
  assumes "fill_flip s q price closing p = (Inr u, p')" "sint closing \<le> sint q"
  obtains "closing = q" "p' = p"
  | op :: i64 where "sint closing < sint q" "sint op = (sint price * (sint q - sint closing)) sdiv SCALE"
    "sint (ps_qty p') = sgn_of s * (sint q - sint closing)"
    "sint (ps_cost_basis p') = sgn_of s * sint op" "ps_realized p' = ps_realized p"
proof -
  obtain f where f: "sint f = sint q - sint closing" "e8_checked_sub q closing = Inr f"
    using assms(1) by (auto simp: fill_flip_def op_flow i64_simps)
  show thesis
  proof (cases "sint closing = sint q")
    case True
    then have "closing = q" "\<not> e8_is_positive f" using f(1) by (simp_all add: sint_eq_iff e8_is_positive_def)
    then show thesis using that(1) assms(1) f(2) by (simp add: fill_flip_def op_flow pos_err_Inr)
  next
    case False
    then have "e8_is_positive f" using f(1) assms(2) by (simp add: e8_is_positive_def)
    then have "\<exists>(x :: i64) a b. sint x = (sint price * sint f) sdiv SCALE \<and> sint a = sint f * sgn_of s \<and>
        sint b = sint x * sgn_of s \<and> p' = p\<lparr>ps_qty := a, ps_cost_basis := b\<rparr>"
      using assms(1) f(2) by (simp add: fill_flip_def op_flow pos_err_Inr pos_mul_Inr notional_Inr)
    then obtain op :: i64 where "sint op = (sint price * sint f) sdiv SCALE" "sint (ps_qty p') = sint f * sgn_of s"
      "sint (ps_cost_basis p') = sint op * sgn_of s" "ps_realized p' = ps_realized p" by auto
    then show thesis using that(2) [of op] f(1) False assms(2) by (simp add: mult.commute)
  qed
qed

text \<open>The two branches together: a fill opens, or it closes what it can and flips with the rest.\<close>

definition opens :: "position \<Rightarrow> side \<Rightarrow> bool" where
  "opens p s \<longleftrightarrow> sint (ps_qty p) = 0 \<or> (0 < sint (ps_qty p)) = (s = Buy)"

definition closing_of :: "position \<Rightarrow> qty \<Rightarrow> qty" where
  "closing_of p q = e8_min q (e8_abs (ps_qty p))"

lemma apply_fill_cases:
  assumes "position_apply_fill s q price p = (Inr u, p')" "0 < sint q"
  obtains (adding) cost where "opens p s" "notional price q = Inr cost"
    "sint (ps_qty p') = sint (ps_qty p) + sgn_of s * sint q"
    "sint (ps_cost_basis p') = sint (ps_cost_basis p) + sgn_of s * sint cost"
    "ps_realized p' = ps_realized p"
  | (reducing) p1 where "\<not> opens p s"
    "fill_reducing price (closing_of p q) (e8_abs (ps_qty p)) p = (Inr (), p1)"
    "fill_flip s q price (closing_of p q) p1 = (Inr u, p')"
proof -
  obtain sq cost sc :: i64 where sq: "sint sq = sint q * sgn_of s" and cost: "notional price q = Inr cost"
    and sc: "sint sc = sint cost * sgn_of s"
    and rest: "(if e8_is_zero (ps_qty p) \<or> (e8_is_positive (ps_qty p) = e8_is_positive sq)
       then fill_opening sq sc
       else let held = e8_abs (ps_qty p); closing = e8_min q held in
         op_seq (fill_reducing price closing held) (fill_flip s q price closing)) p = (Inr u, p')"
    using assms(1) unfolding position_apply_fill_def op_flow pos_err_Inr pos_mul_Inr sint_side_sign
    by (elim exE conjE) (rule that)
  have cond: "(e8_is_zero (ps_qty p) \<or> (e8_is_positive (ps_qty p) = e8_is_positive sq)) = opens p s"
    using sq assms(2) by (cases s) (auto simp: opens_def e8_is_zero_iff e8_is_positive_def)
  show thesis
  proof (cases "opens p s")
    case True
    then show thesis
      using adding [of cost] rest cost sq sc fill_opening_InrD [of sq sc p u p']
      by (simp add: cond mult.commute)
  next
    case False
    then show thesis using reducing rest by (auto simp: cond op_seq_Inr Let_def closing_of_def)
  qed
qed

lemma closing_of_bounds:
  "0 < sint q \<Longrightarrow> sint (closing_of p q) \<le> sint q \<and> 0 \<le> sint (closing_of p q) \<and>
     sint (closing_of p q) \<le> \<bar>sint (ps_qty p)\<bar>"
  using sint_i64_range [of q] by (auto simp: closing_of_def i64_simps)

text \<open>When a fill flips the position, everything held was closed.\<close>

lemma flip_closes_all:
  "sint (closing_of p q) < sint q \<Longrightarrow> sint (closing_of p q) = \<bar>sint (ps_qty p)\<bar>"
  using sint_i64_range [of q] sint_i64_range [of "ps_qty p"]
  by (auto simp: closing_of_def i64_simps min_def split: if_splits)

lemma apply_fill_qty:
  assumes "position_apply_fill s q price p = (Inr u, p')" "0 < sint q"
  shows "sint (ps_qty p') = sint (ps_qty p) + sgn_of s * sint q"
  using assms
proof (cases rule: apply_fill_cases)
  case (reducing p1)
  have dir: "dir_of p = - sgn_of s"
    using reducing(1) by (cases s) (auto simp: opens_def dir_of_def)
  have q1: "sint (ps_qty p1) = sint (ps_qty p) - dir_of p * sint (closing_of p q)"
    using reducing(2) by (rule fill_reducing_InrD)
  have le: "sint (closing_of p q) \<le> sint q" using closing_of_bounds [OF assms(2)] by simp
  from reducing(3) le show ?thesis
  proof (cases rule: fill_flip_InrD)
    case 1
    then show ?thesis using q1 dir by simp
  next
    case (2 op)
    moreover have "sint (closing_of p q) = \<bar>sint (ps_qty p)\<bar>" using 2(1) by (rule flip_closes_all)
    ultimately show ?thesis
      using reducing(1) by (cases s) (auto simp: opens_def)
  qed
qed

text \<open>The shape of a position: flat carries no basis, and the basis has the sign of the size.\<close>

definition position_wf :: "position \<Rightarrow> bool" where
  "position_wf p \<longleftrightarrow>
     (sint (ps_qty p) = 0 \<longrightarrow> sint (ps_cost_basis p) = 0) \<and>
     (0 < sint (ps_qty p) \<longrightarrow> 0 \<le> sint (ps_cost_basis p)) \<and>
     (sint (ps_qty p) < 0 \<longrightarrow> sint (ps_cost_basis p) \<le> 0)"

lemma SCALE_pos: "0 < SCALE"
  by (simp add: SCALE_def)

lemma notional_nonneg: "notional price q = Inr m \<Longrightarrow> 0 \<le> sint price \<Longrightarrow> 0 \<le> sint q \<Longrightarrow> 0 \<le> sint m"
  using sdiv_bounds(3) [OF SCALE_pos] by (simp add: notional_Inr)

lemma slice_bounds:
  assumes "slice_of_basis p closing held = Inr c" "0 \<le> sint closing" "sint closing \<le> sint held"
  shows "0 \<le> sint c \<and> sint c \<le> \<bar>sint (ps_cost_basis p)\<bar>"
proof -
  let ?b = "sint (e8_abs (ps_cost_basis p))"
  have b: "0 \<le> ?b" "?b \<le> \<bar>sint (ps_cost_basis p)\<bar>" by (auto simp: sint_e8_abs i64_max_def)
  consider "c = e8_zero" | "c = e8_abs (ps_cost_basis p)"
    | "sint c = (?b * sint closing) sdiv sint held" "0 < sint held"
    using assms by (auto simp: slice_of_basis_def i64_simps split: if_splits)
  then show ?thesis
  proof cases
    case 3
    have "sint c * sint held \<le> ?b * sint closing"
      using 3 b(1) assms(2) sdiv_bounds(1) [OF 3(2), of "?b * sint closing"] sdiv_bounds(3) [OF 3(2)] by auto
    also have "\<dots> \<le> ?b * sint held" using b(1) assms(3) by (simp add: mult_left_mono)
    finally have "sint c \<le> ?b" using 3(2) by simp
    moreover have "0 \<le> sint c" using 3 b(1) assms(2) sdiv_bounds(3) [OF 3(2)] by simp
    ultimately show ?thesis using b(2) by linarith
  qed (use b in auto)
qed

lemma apply_fill_cost:
  "position_apply_fill s q price p = (Inr u, p') \<Longrightarrow> \<exists>cost. notional price q = Inr cost"
  unfolding position_apply_fill_def op_flow pos_err_Inr by blast

lemma reduce_dir: "\<not> opens p s \<Longrightarrow> dir_of p = - sgn_of s \<and> sint (ps_qty p) = dir_of p * \<bar>sint (ps_qty p)\<bar>"
  by (cases s) (auto simp: opens_def dir_of_def)

text \<open>After the reducing step: the size closed, the cash taken and the basis released agree.\<close>

lemma reducing_step:
  assumes "position_wf p" "\<not> opens p s" "0 < sint q"
    "fill_reducing price (closing_of p q) (e8_abs (ps_qty p)) p = (Inr (), p1)"
  obtains pr where "notional price (closing_of p q) = Inr pr" "position_wf p1"
    "sint (ps_qty p1) = sint (ps_qty p) - dir_of p * sint (closing_of p q)"
    "i64_min < sint (ps_cost_basis p) \<Longrightarrow>
       sint (ps_cost_basis p1) - sint (ps_realized p1) =
       sint (ps_cost_basis p) - sint (ps_realized p) - dir_of p * sint pr"
proof -
  let ?c = "closing_of p q" and ?b = "ps_cost_basis p"
  have cl: "0 \<le> sint ?c" "sint ?c \<le> \<bar>sint (ps_qty p)\<bar>" "sint ?c \<le> sint (e8_abs (ps_qty p))"
    using closing_of_bounds [OF assms(3), of p] by (simp_all add: closing_of_def i64_simps)
  have "dir_of p = 1 \<or> dir_of p = -1" by (simp add: dir_of_def)
  then have dir: "sint (ps_qty p) = dir_of p * \<bar>sint (ps_qty p)\<bar>" "dir_of p = 1 \<or> dir_of p = -1"
    using reduce_dir [OF assms(2)] by blast+
  have bd: "sint ?b = dir_of p * \<bar>sint ?b\<bar>"
    using assms(1,2) by (auto simp: position_wf_def dir_of_def opens_def)
  from assms(4) show thesis
  proof (rule fill_reducing_InrD)
    fix cc pr
    assume cc: "slice_of_basis p ?c (e8_abs (ps_qty p)) = Inr cc" and pr: "notional price ?c = Inr pr"
      and r: "sint (ps_realized p1) = sint (ps_realized p) + dir_of p * (sint pr - sint cc)"
      and q: "sint (ps_qty p1) = sint (ps_qty p) - dir_of p * sint ?c"
      and b: "sint (ps_cost_basis p1) = (if sint (ps_qty p1) = 0 then 0 else sint ?b - dir_of p * sint cc)"
    have ccb: "0 \<le> sint cc" "sint cc \<le> \<bar>sint ?b\<bar>" using slice_bounds [OF cc cl(1,3)] by auto
    have "position_wf p1"
      using q b dir bd ccb cl by (auto simp: position_wf_def abs_if split: if_splits)
    moreover have "sint ?b = dir_of p * sint cc" if "sint (ps_qty p1) = 0" "i64_min < sint ?b"
    proof -
      have "sint ?c = \<bar>sint (ps_qty p)\<bar>" using that(1) q dir by auto
      then have "?c = e8_abs (ps_qty p)" using cl by (simp add: sint_eq_iff [symmetric] sint_e8_abs)
      then have "cc = e8_abs ?b \<or> sint (ps_qty p) = 0"
        using cc \<open>sint ?c = \<bar>sint (ps_qty p)\<bar>\<close> by (auto simp: slice_of_basis_def e8_is_zero_iff split: if_splits)
      moreover have "sint (ps_qty p) \<noteq> 0" using assms(2) by (simp add: opens_def)
      moreover have "\<bar>sint ?b\<bar> \<le> i64_max"
        using that(2) sint_i64_range [of ?b] by (auto simp: i64_min_def i64_max_def)
      ultimately show ?thesis using bd by (simp add: sint_e8_abs)
    qed
    ultimately show thesis
      using that [OF pr _ q] r b by (auto simp: algebra_simps)
  qed
qed

lemma sdiv_split:
  assumes "0 \<le> a" "0 \<le> b"
  shows "a sdiv SCALE + b sdiv SCALE \<le> (a + b) sdiv SCALE \<and>
    (a + b) sdiv SCALE \<le> a sdiv SCALE + b sdiv SCALE + 1"
proof -
  have "a sdiv SCALE = a div SCALE" "b sdiv SCALE = b div SCALE" "(a + b) sdiv SCALE = (a + b) div SCALE"
    using assms by (simp_all add: sdiv_pos SCALE_pos)
  then show ?thesis unfolding SCALE_def by linarith
qed

lemma apply_fill_wf:
  assumes "position_apply_fill s q price p = (Inr u, p')" "0 < sint q" "0 \<le> sint price" "position_wf p"
  shows "position_wf p'"
  using assms(1,2)
proof (cases rule: apply_fill_cases)
  case (adding cost)
  have "0 \<le> sint cost" using notional_nonneg [OF adding(2)] assms by simp
  then show ?thesis using adding assms(2,4) by (cases s) (auto simp: position_wf_def opens_def)
next
  case (reducing p1)
  have le: "sint (closing_of p q) \<le> sint q" using closing_of_bounds [OF assms(2)] by simp
  have wf1: "position_wf p1" using assms(4) reducing(1) assms(2) reducing(2) by (rule reducing_step)
  from reducing(3) le show ?thesis
  proof (cases rule: fill_flip_InrD)
    case (2 op)
    then have "0 \<le> sint op" using assms(3) sdiv_bounds(3) [OF SCALE_pos] by simp
    then show ?thesis using 2 by (cases s) (auto simp: position_wf_def)
  qed (use wf1 in simp)
qed

lemma apply_fill_cash:
  assumes "position_apply_fill s q price p = (Inr u, p')" "0 < sint q" "0 \<le> sint price" "position_wf p"
    "i64_min < sint (ps_cost_basis p)" "notional price q = Inr cost"
  defines "d \<equiv> (sint (ps_cost_basis p') - sint (ps_realized p')) -
    (sint (ps_cost_basis p) - sint (ps_realized p)) - sgn_of s * sint cost"
  shows "\<bar>d\<bar> \<le> 1 \<and> (opens p s \<or> sint q \<le> \<bar>sint (ps_qty p)\<bar> \<longrightarrow> d = 0)"
  using assms(1,2)
proof (cases rule: apply_fill_cases)
  case (adding cost')
  then show ?thesis using assms(6) by (simp add: d_def)
next
  case (reducing p1)
  have le: "sint (closing_of p q) \<le> sint q" using closing_of_bounds [OF assms(2)] by simp
  obtain pr where pr: "notional price (closing_of p q) = Inr pr" "position_wf p1"
    "sint (ps_qty p1) = sint (ps_qty p) - dir_of p * sint (closing_of p q)"
    "sint (ps_cost_basis p1) - sint (ps_realized p1) =
       sint (ps_cost_basis p) - sint (ps_realized p) - dir_of p * sint pr"
    using reducing_step [OF assms(4) reducing(1) assms(2) reducing(2)] assms(5) by metis
  have dir: "dir_of p = - sgn_of s" "sint (ps_qty p) = dir_of p * \<bar>sint (ps_qty p)\<bar>"
    using reduce_dir [OF reducing(1)] by auto
  from reducing(3) le show ?thesis
  proof (cases rule: fill_flip_InrD)
    case 1
    then show ?thesis using pr assms(6) dir(1) by (simp add: d_def)
  next
    case (2 op)
    have all: "sint (closing_of p q) = \<bar>sint (ps_qty p)\<bar>" using 2(1) by (rule flip_closes_all)
    then have "sint (ps_cost_basis p1) = 0" using pr(2,3) dir(2) by (auto simp: position_wf_def)
    then have "d = sgn_of s * (sint op + sint pr - sint cost)"
      using 2 pr(4) dir(1) by (simp add: d_def algebra_simps)
    moreover have "\<bar>sint op + sint pr - sint cost\<bar> \<le> 1"
    proof -
      let ?a = "sint price * sint (closing_of p q)" and ?b = "sint price * (sint q - sint (closing_of p q))"
      have "0 \<le> ?a" "0 \<le> ?b" using assms(3) closing_of_bounds [OF assms(2), of p] by simp_all
      from sdiv_split [OF this] have "?a sdiv SCALE + ?b sdiv SCALE \<le> (sint price * sint q) sdiv SCALE \<and>
          (sint price * sint q) sdiv SCALE \<le> ?a sdiv SCALE + ?b sdiv SCALE + 1"
        by (simp add: right_diff_distrib)
      then show ?thesis using 2(2) pr(1) assms(6) by (simp add: notional_Inr)
    qed
    ultimately show ?thesis using 2(1) all reducing(1) by (cases s) auto
  qed
qed

text \<open>Whatever the prices were: flat means flat.\<close>

definition flat_ok :: "position \<Rightarrow> bool" where
  "flat_ok p \<longleftrightarrow> (sint (ps_qty p) = 0 \<longrightarrow> ps_cost_basis p = 0)"

lemma apply_fill_flat:
  assumes "position_apply_fill s q price p = (Inr u, p')" "0 < sint q"
  shows "flat_ok p'"
  using assms
proof (cases rule: apply_fill_cases)
  case (adding cost)
  then show ?thesis using assms(2) by (cases s) (auto simp: flat_ok_def opens_def)
next
  case (reducing p1)
  have le: "sint (closing_of p q) \<le> sint q" using closing_of_bounds [OF assms(2)] by simp
  have "sint (ps_cost_basis p1) = 0" if "sint (ps_qty p1) = 0"
    using reducing(2) by (rule fill_reducing_InrD) (use that in simp)
  then have "flat_ok p1" by (simp add: flat_ok_def signed_eq_0_iff)
  with reducing(3) le show ?thesis
    by (cases rule: fill_flip_InrD) (auto simp: flat_ok_def split: side.splits)
qed

subsection \<open>Runs of fills\<close>

fun apply_fills :: "(side \<times> qty \<times> price) list \<Rightarrow> unit position_op" where
  "apply_fills [] = op_ok ()"
| "apply_fills ((s, q, p) # fs) = op_seq (position_apply_fill s q p) (apply_fills fs)"

lemma apply_fills_run:
  assumes "apply_fills fs p = (Inr u, p')" "list_all (\<lambda>(_, q, pr). 0 < sint q \<and> 0 \<le> sint pr) fs" "position_wf p"
  shows "position_wf p' \<and> sint (ps_qty p') = sint (ps_qty p) + (\<Sum>(s, q, _)\<leftarrow>fs. sgn_of s * sint q)"
  using assms
proof (induction fs arbitrary: p)
  case (Cons f fs)
  obtain s q pr where f: "f = (s, q, pr)" by (cases f)
  with Cons.prems obtain p1 where 1: "position_apply_fill s q pr p = (Inr (), p1)"
    and 2: "apply_fills fs p1 = (Inr u, p')" by (auto simp: op_seq_Inr)
  have "position_wf p1" "sint (ps_qty p1) = sint (ps_qty p) + sgn_of s * sint q"
    using 1 Cons.prems f apply_fill_wf apply_fill_qty by auto
  with Cons.IH [OF 2] Cons.prems f show ?case by simp
qed simp

subsection \<open>Properties\<close>

text \<open>
  C25: over any run of accepted fills, the position's size is exactly the signed sum of the fills, a
  flat position carries no cost basis, and the basis has the sign of the size.
\<close>

theorem position_is_sum_of_fills:
  assumes "apply_fills fs position_default = (Inr (), p)"
    "list_all (\<lambda>(_, q, pr). 0 < sint q \<and> 0 \<le> sint pr) fs"
  shows "sint (ps_qty p) = (\<Sum>(s, q, _)\<leftarrow>fs. sgn_of s * sint q) \<and> position_wf p \<and>
    (is_flat p \<longrightarrow> ps_cost_basis p = 0)"
proof -
  have "position_wf position_default" by (simp add: position_wf_def position_default_def)
  with assms have "position_wf p \<and> sint (ps_qty p) = (\<Sum>(s, q, _)\<leftarrow>fs. sgn_of s * sint q)"
    using apply_fills_run [OF assms] by (simp add: position_default_def)
  then show ?thesis by (auto simp: position_wf_def is_flat_def e8_is_zero_iff signed_eq_0_iff)
qed

theorem position_is_sum_of_fills_witness:
  "\<exists>p. apply_fills [(Buy, 300000000, 500000000), (Sell, 500000000, 700000000)] position_default = (Inr (), p) \<and>
    sint (ps_qty p) = - 200000000 \<and> position_wf p"
proof -
  have "apply_fills [(Buy, 300000000, 500000000), (Sell, 500000000, 700000000)] position_default =
     (Inr (), \<lparr>ps_qty = - 200000000, ps_cost_basis = - 1400000000, ps_realized = 600000000\<rparr>)"
    by code_simp
  from position_is_sum_of_fills [OF this] this show ?thesis by simp
qed

text \<open>
  C26: no money is made or lost in the accounting. For one fill on a well-formed position, basis minus
  realised profit moves by the signed cash of the fill: exactly, unless the fill flips the position,
  where pricing the closed and the opened part separately can differ by one unit of the last place.
\<close>

theorem fill_conserves_cash:
  assumes "position_apply_fill s q price p = (Inr (), p')" "0 < sint q" "0 \<le> sint price"
    "position_wf p" "i64_min < sint (ps_cost_basis p)"
  shows "\<exists>cost. notional price q = Inr cost \<and>
    (let d = (sint (ps_cost_basis p') - sint (ps_realized p')) -
         (sint (ps_cost_basis p) - sint (ps_realized p)) - sgn_of s * sint cost
     in \<bar>d\<bar> \<le> 1 \<and> (sint q \<le> \<bar>sint (ps_qty p)\<bar> \<or> opens p s \<longrightarrow> d = 0))"
  using apply_fill_cost [OF assms(1)] apply_fill_cash [OF assms(1-5)] by (auto simp: Let_def)

theorem fill_conserves_cash_witness:
  "\<exists>cost. notional 700000000 500000000 = Inr cost \<and>
    \<bar>(sint (- 1400000000 :: i64) - sint (600000000 :: i64)) - (sint (1500000000 :: i64) - sint (0 :: i64))
       - (- 1) * sint cost\<bar> \<le> 1"
proof -
  have "position_apply_fill Sell 500000000 700000000
       \<lparr>ps_qty = 300000000, ps_cost_basis = 1500000000, ps_realized = 0\<rparr> =
     (Inr (), \<lparr>ps_qty = - 200000000, ps_cost_basis = - 1400000000, ps_realized = 600000000\<rparr>)"
    by code_simp
  from fill_conserves_cash [OF this] show ?thesis
    by (auto simp: Let_def position_wf_def i64_min_def)
qed

end
