(* ===== verification/Book.thy ===== *)
theory Book
  imports Records Position
begin

text \<open>
  The book (\<open>sentinel-ledger/src/book.rs\<close>, \<open>error.rs\<close>): every projection the engine reads, folded from
  the journal. \<open>Book::apply\<close> is an operation on the book that keeps what it wrote before an error;
  \<open>Book::rebuild\<close> folds it over the records of the log and stops at the first error.

  Shown here: an applied record moves exactly what it says, a duplicate execution or intent moves
  nothing, the size of every position is the signed sum of the executions recorded for its instrument,
  every order in the book satisfies the order invariant, and a book rebuilt from a log that was applied
  without error is the live book.
\<close>

record order =
  od_core :: order_core
  od_authority :: authority
  od_kind :: order_kind
  od_limit_price :: "price option"
  od_stop_price :: "price option"
  od_quote_at_decision :: "price option"
  od_trace_id :: trace_id
  od_created_at :: nanos
  od_last_venue_evidence :: nanos

definition order_remaining_qty :: "order \<Rightarrow> qty" where
  "order_remaining_qty o' = core_remaining_qty (od_core o')"

definition is_exit :: "order \<Rightarrow> bool" where
  "is_exit o' = (case od_authority o' of ProtectiveExit \<Rightarrow> True | _ \<Rightarrow> False)"

record fill =
  fl_client_order_id :: client_order_id
  fl_instrument :: instrument
  fl_side :: side
  fl_qty :: qty
  fl_price :: price
  fl_at :: nanos

datatype applied = Changed | Duplicate | NeedsReconciliation client_order_id

record book =
  bk_orders :: "(client_order_id, order) hashmap"
  bk_fills :: "(exec_id, fill) hashmap"
  bk_positions :: "(instrument, position) hashmap"
  bk_balances :: "(asset, money) hashmap"
  bk_marks :: "(instrument, price) hashmap"
  bk_order_sequence :: "client_order_id list"
  bk_epoch :: epoch
  bk_last_seq :: seq
  bk_now :: nanos
  bk_halted :: bool

definition book_new :: book where
  "book_new = \<lparr>bk_orders = [], bk_fills = [], bk_positions = [], bk_balances = [], bk_marks = [],
     bk_order_sequence = [], bk_epoch = 0, bk_last_seq = 0, bk_now = 0, bk_halted = False\<rparr>"

text \<open>The errors of the journal reader are a parameter \<open>'j\<close> of the ledger's error type.\<close>

datatype 'j ledger_error =
    LJournal 'j
  | LCodec seq codec_error
  | UnknownOrder client_order_id
  | Transition client_order_id transition_error
  | PositionOverflow instrument
  | StateDisagrees client_order_id order_state order_state

definition ledger_is_integrity_violation :: "'j ledger_error \<Rightarrow> bool" where
  "ledger_is_integrity_violation e =
     (case e of PositionOverflow _ \<Rightarrow> True | UnknownOrder _ \<Rightarrow> True | StateDisagrees _ _ _ \<Rightarrow> True
      | Transition _ source \<Rightarrow> transition_is_integrity_violation source | _ \<Rightarrow> False)"

type_synonym ('j, 'a) book_op = "(book, 'j ledger_error, 'a) op"

subsection \<open>Applying a lifecycle event\<close>

text \<open>The execution: recorded under its id, then carried into the position of the instrument.\<close>

definition book_record_fill ::
    "frame_header \<Rightarrow> client_order_id \<Rightarrow> order \<Rightarrow> order_event \<Rightarrow> ('j, unit) book_op" where
  "book_record_fill header client_order_id order event =
     (case event of FillReceived exec_id qty price \<Rightarrow>
        op_seq (op_modify (\<lambda>b. b\<lparr>bk_fills := hm_insert exec_id
            \<lparr>fl_client_order_id = client_order_id, fl_instrument = oc_instrument (od_core order),
             fl_side = oc_side (od_core order), fl_qty = qty, fl_price = price, fl_at = fh_nanos header\<rparr>
            (bk_fills b)\<rparr>))
          (\<lambda>b. let i = oc_instrument (od_core order);
                   p = (case hm_get (bk_positions b) i of Some p \<Rightarrow> p | None \<Rightarrow> position_default);
                   (r, p') = position_apply_fill (oc_side (od_core order)) qty price p
               in (map_err (\<lambda>_. PositionOverflow i) r,
                   b\<lparr>bk_positions := hm_insert i p' (bk_positions b)\<rparr>))
      | _ \<Rightarrow> op_ok ())"

text \<open>The order itself: its new core, and the time of the venue's last word.\<close>

definition book_store_order ::
    "frame_header \<Rightarrow> client_order_id \<Rightarrow> order_core \<Rightarrow> order_event \<Rightarrow> ('j, applied) book_op" where
  "book_store_order header client_order_id next event = op_read (\<lambda>b.
     case hm_get (bk_orders b) client_order_id of
       None \<Rightarrow> op_err (UnknownOrder client_order_id)
     | Some entry \<Rightarrow>
         let entry = entry\<lparr>od_core := next\<rparr>;
             entry = (if is_venue_evidence event then entry\<lparr>od_last_venue_evidence := fh_nanos header\<rparr> else entry)
         in op_seq (op_modify (\<lambda>b. b\<lparr>bk_orders := hm_insert client_order_id entry (bk_orders b)\<rparr>))
              (op_ok Changed))"

definition is_known_fill :: "book \<Rightarrow> order_event \<Rightarrow> bool" where
  "is_known_fill b event =
     (case event of FillReceived exec_id _ _ \<Rightarrow> hm_contains (bk_fills b) exec_id | _ \<Rightarrow> False)"

definition apply_order_event ::
    "frame_header \<Rightarrow> client_order_id \<Rightarrow> order_state \<Rightarrow> order_state \<Rightarrow> order_event \<Rightarrow> ('j, applied) book_op" where
  "apply_order_event header client_order_id from_state to_state event = op_read (\<lambda>b.
     case hm_get (bk_orders b) client_order_id of
       None \<Rightarrow> op_err (UnknownOrder client_order_id)
     | Some order \<Rightarrow>
         if is_known_fill b event then op_ok Duplicate
         else if oc_state (od_core order) \<noteq> from_state
         then op_err (StateDisagrees client_order_id from_state (oc_state (od_core order)))
         else case transition (od_core order) event of
           Inl e \<Rightarrow>
             if needs_reconciliation e
             then (if to_state \<noteq> from_state
                   then op_err (StateDisagrees client_order_id to_state from_state)
                   else op_ok (NeedsReconciliation client_order_id))
             else op_err (Transition client_order_id e)
         | Inr next \<Rightarrow>
             if oc_state next \<noteq> to_state
             then op_err (StateDisagrees client_order_id to_state (oc_state next))
             else op_seq (book_record_fill header client_order_id order event)
                    (book_store_order header client_order_id next event))"

subsection \<open>Applying a record\<close>

definition order_of_intent :: "frame_header \<Rightarrow> economic_order_intent \<Rightarrow> order" where
  "order_of_intent header intent =
     \<lparr>od_core = created (in_client_order_id intent) (in_instrument intent) (in_side intent) (in_qty intent),
      od_authority = in_authority intent, od_kind = in_kind intent,
      od_limit_price = in_limit_price intent, od_stop_price = in_stop_price intent,
      od_quote_at_decision = in_quote_at_decision intent, od_trace_id = in_trace_id intent,
      od_created_at = fh_nanos header, od_last_venue_evidence = fh_nanos header\<rparr>"

definition apply_intent :: "frame_header \<Rightarrow> economic_order_intent \<Rightarrow> ('j, applied) book_op" where
  "apply_intent header intent = op_read (\<lambda>b.
     if hm_contains (bk_orders b) (in_client_order_id intent) then op_ok Duplicate
     else op_seq (op_modify (\<lambda>b. b\<lparr>
            bk_order_sequence := bk_order_sequence b @ [in_client_order_id intent],
            bk_orders := hm_insert (in_client_order_id intent) (order_of_intent header intent) (bk_orders b)\<rparr>))
          (op_ok Changed))"

definition book_stamp :: "frame_header \<Rightarrow> book \<Rightarrow> book" where
  "book_stamp header b =
     b\<lparr>bk_last_seq := fh_seq header, bk_epoch := fh_epoch header,
       bk_now := max (bk_now b) (fh_nanos header)\<rparr>"

definition apply_record :: "frame_header \<Rightarrow> log_record \<Rightarrow> ('j, applied) book_op" where
  "apply_record header r =
     (case r of
        EpochClaimed epoch _ \<Rightarrow> op_seq (op_modify (\<lambda>b. b\<lparr>bk_epoch := epoch\<rparr>)) (op_ok Changed)
      | IntentPersisted intent \<Rightarrow> apply_intent header intent
      | OrderEvent client_order_id _ from_state to_state _ event \<Rightarrow>
          apply_order_event header client_order_id from_state to_state event
      | Decision _ _ kind _ _ _ \<Rightarrow>
          op_seq (op_modify (\<lambda>b. case kind of Halted \<Rightarrow> b\<lparr>bk_halted := True\<rparr>
                             | Resumed \<Rightarrow> b\<lparr>bk_halted := False\<rparr> | _ \<Rightarrow> b)) (op_ok Changed)
      | Mark instrument price \<Rightarrow>
          op_seq (op_modify (\<lambda>b. b\<lparr>bk_marks := hm_insert instrument price (bk_marks b)\<rparr>)) (op_ok Changed)
      | Balance asset amount \<Rightarrow>
          op_seq (op_modify (\<lambda>b. b\<lparr>bk_balances := hm_insert asset amount (bk_balances b)\<rparr>)) (op_ok Changed)
      | Ticked \<Rightarrow> op_ok Changed)"

definition book_apply :: "frame_header \<Rightarrow> log_record \<Rightarrow> ('j, applied) book_op" where
  "book_apply header r = op_seq (op_modify (book_stamp header)) (apply_record header r)"

text \<open>
  Rebuilding: the tailer is the list of what it delivers, a record with its payload or the error that
  ends the log; \<open>Ok(None)\<close> is the end of the list.
\<close>

type_synonym 'j tail_item = "'j + (frame_header \<times> u8 list)"

fun rebuild_loop :: "'j tail_item list \<Rightarrow> book \<Rightarrow> 'j ledger_error + book" where
  "rebuild_loop [] b = Inr b"
| "rebuild_loop (Inl e # _) b = Inl (LJournal e)"
| "rebuild_loop (Inr (header, payload) # items) b =
     res_bind (map_err (LCodec (fh_seq header)) (record_decode (fh_kind header) payload)) (\<lambda>decoded.
       case book_apply header decoded b of
         (Inl e, _) \<Rightarrow> Inl e | (Inr _, b') \<Rightarrow> rebuild_loop items b')"

definition rebuild :: "'j tail_item list \<Rightarrow> 'j ledger_error + book" where
  "rebuild items = rebuild_loop items book_new"

subsection \<open>Reading\<close>

definition book_order :: "book \<Rightarrow> client_order_id \<Rightarrow> order option" where
  "book_order b c = hm_get (bk_orders b) c"

definition filter_map :: "('a \<Rightarrow> 'b option) \<Rightarrow> 'a list \<Rightarrow> 'b list" where
  "filter_map f xs = List.map_filter f xs"

definition book_orders :: "book \<Rightarrow> order list" where
  "book_orders b = filter_map (hm_get (bk_orders b)) (bk_order_sequence b)"

definition live_orders :: "book \<Rightarrow> order list" where
  "live_orders b = filter (\<lambda>o'. \<not> core_is_terminal (od_core o')) (book_orders b)"

definition live_orders_on :: "book \<Rightarrow> instrument \<Rightarrow> order list" where
  "live_orders_on b i = filter (\<lambda>o'. oc_instrument (od_core o') = i) (live_orders b)"

definition instrument_locked :: "book \<Rightarrow> instrument \<Rightarrow> bool" where
  "instrument_locked b i = list_ex (\<lambda>o'. core_locks_instrument (od_core o')) (live_orders_on b i)"

definition locking_order :: "book \<Rightarrow> instrument \<Rightarrow> order option" where
  "locking_order b i = find (\<lambda>o'. core_locks_instrument (od_core o')) (live_orders_on b i)"

definition book_position :: "book \<Rightarrow> instrument \<Rightarrow> position" where
  "book_position b i = (case hm_get (bk_positions b) i of Some p \<Rightarrow> p | None \<Rightarrow> position_default)"

definition open_positions :: "book \<Rightarrow> (instrument \<times> position) list" where
  "open_positions b = hm_sorted (filter (\<lambda>(_, p). \<not> is_flat p) (bk_positions b))"

definition committed_to_exits :: "book \<Rightarrow> instrument \<Rightarrow> qty" where
  "committed_to_exits b i =
     foldl (\<lambda>sum o'. unwrap_or e8_MAX (e8_checked_add sum (order_remaining_qty o'))) e8_zero
       (filter is_exit (live_orders_on b i))"

definition book_fill :: "book \<Rightarrow> exec_id \<Rightarrow> fill option" where
  "book_fill b e = hm_get (bk_fills b) e"

definition fill_count :: "book \<Rightarrow> nat" where
  "fill_count b = length (bk_fills b)"

definition all_fills :: "book \<Rightarrow> fill list" where
  "all_fills b = map snd (hm_sorted (bk_fills b))"

definition fills_for :: "book \<Rightarrow> client_order_id \<Rightarrow> fill list" where
  "fills_for b c = filter (\<lambda>f. fl_client_order_id f = c) (all_fills b)"

definition all_positions :: "book \<Rightarrow> (instrument \<times> position) list" where
  "all_positions b = hm_sorted (bk_positions b)"

definition book_mark :: "book \<Rightarrow> instrument \<Rightarrow> price option" where
  "book_mark b i = hm_get (bk_marks b) i"

definition book_balance :: "book \<Rightarrow> asset \<Rightarrow> money" where
  "book_balance b a = (case hm_get (bk_balances b) a of Some m \<Rightarrow> m | None \<Rightarrow> e8_zero)"

definition book_balances :: "book \<Rightarrow> (asset \<times> money) list" where
  "book_balances b = hm_sorted (bk_balances b)"

definition book_realized :: "book \<Rightarrow> money" where
  "book_realized b =
     foldl (\<lambda>sum (_, p). unwrap_or sum (e8_checked_add sum (ps_realized p))) e8_zero
       (hm_sorted (bk_positions b))"

definition book_unrealized :: "book \<Rightarrow> money" where
  "book_unrealized b =
     foldl (\<lambda>sum v. unwrap_or sum (e8_checked_add sum v)) e8_zero
       (filter_map (\<lambda>(i, p). map_option (position_unrealized p) (book_mark b i)) (open_positions b))"

definition stale_orders :: "book \<Rightarrow> u64 \<Rightarrow> client_order_id list" where
  "stale_orders b max_age_nanos =
     sort (map (\<lambda>o'. oc_client_order_id (od_core o'))
       (filter (\<lambda>o'. saturating_since (bk_now b) (od_last_venue_evidence o') > max_age_nanos)
         (filter (\<lambda>o'. oc_state (od_core o') \<noteq> Reconciling) (live_orders b))))"

definition affects_book :: "record_kind \<Rightarrow> bool" where
  "affects_book k = (case k of KTicked \<Rightarrow> False | _ \<Rightarrow> True)"

subsection \<open>What a record does\<close>

definition fill_sum :: "(exec_id, fill) hashmap \<Rightarrow> instrument \<Rightarrow> int" where
  "fill_sum m i = (\<Sum>(_, f)\<leftarrow>m. if fl_instrument f = i then sgn_of (fl_side f) * sint (fl_qty f) else 0)"

definition book_inv :: "book \<Rightarrow> bool" where
  "book_inv b \<longleftrightarrow>
     hm_wf (bk_orders b) \<and> hm_wf (bk_fills b) \<and> hm_wf (bk_positions b) \<and>
     map fst (bk_orders b) = bk_order_sequence b \<and>
     (\<forall>(c, o') \<in> set (bk_orders b). oc_client_order_id (od_core o') = c \<and> order_inv (od_core o')) \<and>
     (\<forall>(_, f) \<in> set (bk_fills b). 0 < sint (fl_qty f)) \<and>
     (\<forall>(_, p) \<in> set (bk_positions b). flat_ok p) \<and>
     (\<forall>i. sint (ps_qty (book_position b i)) = fill_sum (bk_fills b) i)"

lemma book_inv_new: "book_inv book_new"
  by (simp add: book_inv_def book_new_def book_position_def position_default_def fill_sum_def)

lemma book_inv_stamp [simp]: "book_inv (book_stamp h b) = book_inv b"
  by (simp add: book_inv_def book_stamp_def book_position_def)

lemma hm_set_insert:
  "hm_wf m \<Longrightarrow> set (hm_insert k v m) = insert (k, v) {e \<in> set m. fst e \<noteq> k}"
proof -
  assume wf: "hm_wf m"
  have "hm_wf n \<Longrightarrow> (e \<in> set n) = (hm_get n (fst e) = Some (snd e))" for n :: "('a, 'b) hashmap" and e
    by (cases e) (simp add: hm_wf_def hm_get_def)
  with wf show ?thesis by (auto simp: hm_wf_insert split: if_splits)
qed


text \<open>The outcomes of a lifecycle record: refused or only noted, with nothing moved; or applied.\<close>

lemma apply_order_event_cases:
  obtains (still) r :: "'j ledger_error + applied" where "apply_order_event h c f g e b = (r, b)"
    "\<And>x. r = Inr x \<Longrightarrow> x = Duplicate \<or> x = NeedsReconciliation c" "\<And>i. r \<noteq> Inl (PositionOverflow i)"
  | (step) order nxt where "hm_get (bk_orders b) c = Some order" "\<not> is_known_fill b e"
      "oc_state (od_core order) = f" "transition (od_core order) e = Inr nxt" "oc_state nxt = g"
      "(apply_order_event h c f g e :: ('j, applied) book_op) b =
        op_seq (book_record_fill h c order e) (book_store_order h c nxt e) b"
proof (cases "hm_get (bk_orders b) c")
  case None
  then show thesis by (intro still) (auto simp: apply_order_event_def op_defs)
next
  case (Some order)
  show thesis
  proof (cases "is_known_fill b e \<or> oc_state (od_core order) \<noteq> f")
    case True
    with Some show thesis
      by (cases "is_known_fill b e"; intro still [of "fst (apply_order_event h c f g e b)"])
        (simp_all add: apply_order_event_def op_defs)
  next
    case ok: False
    show thesis
    proof (cases "transition (od_core order) e")
      case (Inl err)
      with Some ok show thesis
        by (cases "needs_reconciliation err"; cases "g = f";
            intro still [of "fst (apply_order_event h c f g e b)"])
          (simp_all add: apply_order_event_def op_defs)
    next
      case (Inr nxt)
      show thesis
      proof (cases "oc_state nxt = g")
        case True
        with Some ok Inr show thesis by (intro step) (auto simp: apply_order_event_def op_read_def)
      next
        case False
        with Some ok Inr show thesis by (intro still) (auto simp: apply_order_event_def op_defs)
      qed
    qed
  qed
qed

definition stored_order :: "frame_header \<Rightarrow> order_core \<Rightarrow> order_event \<Rightarrow> order \<Rightarrow> order" where
  "stored_order h nxt e o' =
     (let n = o'\<lparr>od_core := nxt\<rparr>
      in if is_venue_evidence e then n\<lparr>od_last_venue_evidence := fh_nanos h\<rparr> else n)"

lemma book_store_order_eq:
  "hm_get (bk_orders b) c = Some o' \<Longrightarrow> book_store_order h c nxt e b =
     (Inr Changed, b\<lparr>bk_orders := hm_insert c (stored_order h nxt e o') (bk_orders b)\<rparr>)"
  by (simp add: book_store_order_def op_defs stored_order_def Let_def)

lemma stored_order_core [simp]: "od_core (stored_order h nxt e o') = nxt"
  by (simp add: stored_order_def Let_def)

definition fill_entry :: "frame_header \<Rightarrow> client_order_id \<Rightarrow> order \<Rightarrow> qty \<Rightarrow> price \<Rightarrow> fill" where
  "fill_entry h c o' q pr = \<lparr>fl_client_order_id = c, fl_instrument = oc_instrument (od_core o'),
     fl_side = oc_side (od_core o'), fl_qty = q, fl_price = pr, fl_at = fh_nanos h\<rparr>"

text \<open>An applied event, in closed form.\<close>

lemma applied_event:
  assumes "hm_get (bk_orders b) c = Some o'"
  shows "(\<forall>x q pr. e \<noteq> FillReceived x q pr) \<Longrightarrow>
     op_seq (book_record_fill h c o' e) (book_store_order h c nxt e) b =
       (Inr Changed, b\<lparr>bk_orders := hm_insert c (stored_order h nxt e o') (bk_orders b)\<rparr>)"
    and "position_apply_fill (oc_side (od_core o')) q pr (book_position b (oc_instrument (od_core o'))) = (Inr (), p') \<Longrightarrow>
     op_seq (book_record_fill h c o' (FillReceived x q pr)) (book_store_order h c nxt (FillReceived x q pr)) b =
       (Inr Changed, b\<lparr>bk_fills := hm_insert x (fill_entry h c o' q pr) (bk_fills b),
          bk_positions := hm_insert (oc_instrument (od_core o')) p' (bk_positions b),
          bk_orders := hm_insert c (stored_order h nxt (FillReceived x q pr) o') (bk_orders b)\<rparr>)"
    and "position_apply_fill (oc_side (od_core o')) q pr (book_position b (oc_instrument (od_core o'))) = (Inl err, p') \<Longrightarrow>
     fst (op_seq (book_record_fill h c o' (FillReceived x q pr)) (book_store_order h c nxt (FillReceived x q pr)) b) =
       Inl (PositionOverflow (oc_instrument (od_core o')))"
proof -
  show "(\<forall>x q pr. e \<noteq> FillReceived x q pr) \<Longrightarrow>
     op_seq (book_record_fill h c o' e) (book_store_order h c nxt e) b =
       (Inr Changed, b\<lparr>bk_orders := hm_insert c (stored_order h nxt e o') (bk_orders b)\<rparr>)"
    using assms by (cases e) (simp_all add: book_record_fill_def op_seq_def op_bind_def op_ok_def book_store_order_eq)
  let ?b = "b\<lparr>bk_fills := hm_insert x (fill_entry h c o' q pr) (bk_fills b)\<rparr>"
  have pos: "book_position ?b i = book_position b i" for i by (simp add: book_position_def)
  have rec: "book_record_fill h c o' (FillReceived x q pr) b =
     (case position_apply_fill (oc_side (od_core o')) q pr (book_position b (oc_instrument (od_core o'))) of
        (r, p') \<Rightarrow> (map_err (\<lambda>_. PositionOverflow (oc_instrument (od_core o'))) r,
          ?b\<lparr>bk_positions := hm_insert (oc_instrument (od_core o')) p' (bk_positions b)\<rparr>))"
    by (simp add: book_record_fill_def op_seq_modify fill_entry_def Let_def book_position_def)
  { assume "position_apply_fill (oc_side (od_core o')) q pr (book_position b (oc_instrument (od_core o'))) = (Inr (), p')"
    then show "op_seq (book_record_fill h c o' (FillReceived x q pr)) (book_store_order h c nxt (FillReceived x q pr)) b =
       (Inr Changed, b\<lparr>bk_fills := hm_insert x (fill_entry h c o' q pr) (bk_fills b),
          bk_positions := hm_insert (oc_instrument (od_core o')) p' (bk_positions b),
          bk_orders := hm_insert c (stored_order h nxt (FillReceived x q pr) o') (bk_orders b)\<rparr>)"
      using assms by (simp add: op_seq_def op_bind_def rec book_store_order_eq) }
  { assume "position_apply_fill (oc_side (od_core o')) q pr (book_position b (oc_instrument (od_core o'))) = (Inl err, p')"
    then show "fst (op_seq (book_record_fill h c o' (FillReceived x q pr)) (book_store_order h c nxt (FillReceived x q pr)) b) =
       Inl (PositionOverflow (oc_instrument (od_core o')))"
      by (simp add: op_seq_def op_bind_def rec) }
qed


lemma fill_sum_insert:
  assumes "hm_get m x = None"
  shows "fill_sum (hm_insert x f m) i =
    fill_sum m i + (if fl_instrument f = i then sgn_of (fl_side f) * sint (fl_qty f) else 0)"
  using assms by (simp add: hm_insert_fresh fill_sum_def)

lemma hm_keys_insert: "hm_get m k \<noteq> None \<Longrightarrow> map fst (hm_insert k v m) = map fst m"
  by (induction m) (auto simp: hm_get_def hm_insert_def split: if_splits)

lemma hm_get_mem: "hm_get m k = Some v \<Longrightarrow> (k, v) \<in> set m"
  by (simp add: hm_get_def map_of_SomeD)

lemma book_inv_order:
  "book_inv b \<Longrightarrow> hm_get (bk_orders b) c = Some o' \<Longrightarrow>
     oc_client_order_id (od_core o') = c \<and> order_inv (od_core o')"
  by (auto simp: book_inv_def dest!: hm_get_mem)

lemma book_inv_store:
  assumes "book_inv b" "hm_get (bk_orders b) c = Some o'" "transition (od_core o') e = Inr nxt"
  shows "book_inv (b\<lparr>bk_orders := hm_insert c (stored_order h nxt e o') (bk_orders b)\<rparr>)"
proof -
  have nxt: "oc_client_order_id nxt = c" "order_inv nxt"
    using book_inv_order [OF assms(1,2)] transition_identity [OF assms(3)] order_inv_transition [OF _ assms(3)]
    by (simp_all add: same_identity_def)
  have "hm_wf (bk_orders b)" using assms(1) by (simp add: book_inv_def)
  moreover have "map fst (hm_insert c (stored_order h nxt e o') (bk_orders b)) = map fst (bk_orders b)"
    using assms(2) by (intro hm_keys_insert) simp
  ultimately show ?thesis
    using assms(1) nxt by (auto simp: book_inv_def hm_set_insert book_position_def)
qed

lemma book_inv_fill:
  assumes "book_inv b" "hm_get (bk_fills b) x = None" "0 < sint q"
    "position_apply_fill (oc_side (od_core o')) q pr (book_position b (oc_instrument (od_core o'))) = (Inr (), p')"
  shows "book_inv (b\<lparr>bk_fills := hm_insert x (fill_entry h c o' q pr) (bk_fills b),
    bk_positions := hm_insert (oc_instrument (od_core o')) p' (bk_positions b)\<rparr>)"
proof -
  have wf: "hm_wf (bk_fills b)" "hm_wf (bk_positions b)" using assms(1) by (simp_all add: book_inv_def)
  have "flat_ok p'" using apply_fill_flat [OF assms(4,3)] .
  moreover have "sint (ps_qty (book_position (b\<lparr>bk_fills := hm_insert x (fill_entry h c o' q pr) (bk_fills b),
    bk_positions := hm_insert (oc_instrument (od_core o')) p' (bk_positions b)\<rparr>) i)) =
      fill_sum (hm_insert x (fill_entry h c o' q pr) (bk_fills b)) i" for i
    using apply_fill_qty [OF assms(4,3)] assms(1,2)
    by (auto simp: book_inv_def book_position_def fill_sum_insert fill_entry_def)
  ultimately show ?thesis
    using assms(1,3) wf by (auto simp: book_inv_def hm_set_insert fill_entry_def)
qed

lemma book_inv_order_event:
  fixes r :: "'j ledger_error + applied"
  assumes "book_inv b" "apply_order_event h c f g e b = (r, b')" "\<And>i. r \<noteq> Inl (PositionOverflow i)"
  shows "book_inv b'"
proof (cases rule: apply_order_event_cases [of h c f g e b, where 'j = 'j])
  case (still r')
  with assms show ?thesis by simp
next
  case (step o' nxt)
  show ?thesis
  proof (cases "\<forall>x q pr. e \<noteq> FillReceived x q pr")
    case True
    have "b' = b\<lparr>bk_orders := hm_insert c (stored_order h nxt e o') (bk_orders b)\<rparr>"
      using step(6) assms(2) by (simp add: applied_event(1) [OF step(1) True])
    then show ?thesis using book_inv_store [OF assms(1) step(1,4)] by simp
  next
    case False
    then obtain x q pr where e: "e = FillReceived x q pr" by auto
    obtain r1 p' where ap: "position_apply_fill (oc_side (od_core o')) q pr
        (book_position b (oc_instrument (od_core o'))) = (r1, p')" by fastforce
    have r1: "r1 = Inr ()"
    proof (cases r1)
      case (Inl err)
      have "fst (r, b') = Inl (PositionOverflow (oc_instrument (od_core o')))"
        unfolding assms(2) [symmetric] step(6) unfolding e using ap Inl by (intro applied_event(3) [OF step(1)]) simp
      then show ?thesis using assms(2,3) by simp
    qed simp
    have fresh: "hm_get (bk_fills b) x = None" using step(2) e by (simp add: is_known_fill_def)
    have q: "0 < sint q" using step(4) e fill_InrD(2) by (auto simp: transition_fill)
    let ?b = "b\<lparr>bk_fills := hm_insert x (fill_entry h c o' q pr) (bk_fills b),
      bk_positions := hm_insert (oc_instrument (od_core o')) p' (bk_positions b)\<rparr>"
    have inv: "book_inv ?b" using book_inv_fill [OF assms(1) fresh q] ap r1 by simp
    have "book_inv (?b\<lparr>bk_orders := hm_insert c (stored_order h nxt e o') (bk_orders ?b)\<rparr>)"
      using step by (intro book_inv_store [OF inv]) auto
    then show ?thesis using step(6) assms(2) ap r1 e by (simp add: applied_event(2) [OF step(1)])
  qed
qed

lemma book_inv_intent:
  assumes "book_inv b" "intent_wf i" "apply_intent h i b = (r, b')"
  shows "book_inv b'"
proof (cases "hm_get (bk_orders b) (in_client_order_id i)")
  case None
  have "order_inv (od_core (order_of_intent h i))" "oc_client_order_id (od_core (order_of_intent h i)) = in_client_order_id i"
    using assms(2) by (simp_all add: order_of_intent_def order_inv_def created_def intent_wf_def e8_zero_def)
  then show ?thesis using assms None
    by (auto simp: apply_intent_def op_defs book_inv_def hm_insert_fresh book_position_def hm_wf_def)
       (metis hm_get_def image_set map_of_eq_None_iff)
next
  case (Some o')
  then show ?thesis using assms by (simp add: apply_intent_def op_defs)
qed

lemma book_inv_apply:
  assumes "book_inv b" "record_wf rec" "book_apply h rec b = (r, b')" "\<And>i. r \<noteq> Inl (PositionOverflow i)"
  shows "book_inv b'"
proof -
  have ap: "apply_record h rec (book_stamp h b) = (r, b')"
    using assms(3) by (simp add: book_apply_def op_seq_modify)
  have inv: "book_inv (book_stamp h b)" using assms(1) by simp
  show ?thesis
  proof (cases rec)
    case (IntentPersisted i)
    then show ?thesis using book_inv_intent [OF inv] ap assms(2) by (auto simp: apply_record_def)
  next
    case (OrderEvent c t f g a e)
    then show ?thesis using book_inv_order_event [OF inv _ assms(4)] ap by (auto simp: apply_record_def)
  qed (use ap inv in \<open>auto simp: apply_record_def op_defs book_inv_def book_position_def
          split: decision_kind.splits\<close>)
qed

lemma hm_insert_same: "hm_wf m \<Longrightarrow> hm_get m k = Some v \<Longrightarrow> hm_insert k v m = m"
  by (induction m) (auto simp: hm_get_def hm_insert_def hm_wf_def split: if_splits)

subsection \<open>Folding a log\<close>

fun apply_all :: "(frame_header \<times> log_record) list \<Rightarrow> book \<Rightarrow> 'j ledger_error + book" where
  "apply_all [] b = Inr b"
| "apply_all ((h, r) # rs) b =
     (case book_apply h r b of (Inl e, _) \<Rightarrow> Inl e | (Inr _, b') \<Rightarrow> apply_all rs b')"

definition frame_of :: "frame_header \<times> log_record \<Rightarrow> 'j tail_item" where
  "frame_of = (\<lambda>(h, r). Inr (h, record_encode r))"

definition loggable :: "frame_header \<times> log_record \<Rightarrow> bool" where
  "loggable = (\<lambda>(h, r). record_wf r \<and> fh_kind h = record_kind r)"

lemma rebuild_loop_eq:
  "list_all loggable rs \<Longrightarrow> rebuild_loop (map frame_of rs) b = apply_all rs b"
proof (induction rs arbitrary: b)
  case (Cons hr rs)
  then show ?case
    by (cases hr) (auto simp: frame_of_def loggable_def record_read_back split: prod.splits sum.splits)
qed simp

lemma rebuild_loop_inv:
  "rebuild_loop items b = Inr b' \<Longrightarrow> book_inv b \<Longrightarrow> book_inv b'"
proof (induction items b rule: rebuild_loop.induct)
  case (3 h payload items b)
  from 3(2) obtain rec where dec: "record_decode (fh_kind h) payload = Inr rec"
    by auto
  with 3(2) obtain r b1 where ap: "book_apply h rec b = (Inr r :: 'a ledger_error + applied, b1)"
    and rest: "rebuild_loop items b1 = Inr b'"
    by (auto split: prod.splits sum.splits)
  have "book_inv b1" using book_inv_apply [OF 3(3) _ ap] record_decode_Inr(1) [OF dec] by simp
  then show ?case by (rule 3(1) [OF ap [symmetric] refl rest])
qed auto

lemma rebuild_inv: "rebuild items = Inr b \<Longrightarrow> book_inv b"
  unfolding rebuild_def using rebuild_loop_inv book_inv_new by blast

subsection \<open>Reading a sound book\<close>

lemma book_orders_eq: "book_inv b \<Longrightarrow> book_orders b = map snd (bk_orders b)"
proof -
  assume inv: "book_inv b"
  have "filter_map (hm_get (bk_orders b)) (map fst m) = map snd m"
    if "set m \<subseteq> set (bk_orders b)" for m
    using that
  proof (induction m)
    case (Cons e m)
    then have "hm_get (bk_orders b) (fst e) = Some (snd e)"
      using inv by (cases e) (auto simp: book_inv_def hm_get_def hm_wf_def)
    with Cons show ?case by (simp add: filter_map_def List.map_filter_simps)
  qed (simp add: filter_map_def List.map_filter_simps)
  from this [of "bk_orders b"] show ?thesis using inv by (simp add: book_orders_def book_inv_def)
qed

lemma book_orders_mem:
  "book_inv b \<Longrightarrow> o' \<in> set (book_orders b) \<longleftrightarrow> (\<exists>c. hm_get (bk_orders b) c = Some o')"
proof -
  assume inv: "book_inv b"
  then have "(c, o') \<in> set (bk_orders b) \<longleftrightarrow> hm_get (bk_orders b) c = Some o'" for c
    by (auto simp: book_inv_def hm_get_def hm_wf_def)
  then show ?thesis by (force simp: book_orders_eq [OF inv])
qed

lemma sint_remaining:
  "order_inv c \<Longrightarrow> sint (core_remaining_qty c) = sint (oc_qty c) - sint (oc_filled_qty c)"
proof -
  assume "order_inv c"
  then have "0 \<le> sint (oc_qty c) - sint (oc_filled_qty c)" "in_i64 (sint (oc_qty c) - sint (oc_filled_qty c))"
    using sint_i64_range [of "oc_qty c"] by (auto simp: order_inv_def in_i64_def i64_min_def)
  moreover from this obtain r where r: "e8_checked_sub (oc_qty c) (oc_filled_qty c) = Inr r"
    by (cases "e8_checked_sub (oc_qty c) (oc_filled_qty c)") (auto simp: e8_checked_sub_Inl)
  moreover have "sint r = sint (oc_qty c) - sint (oc_filled_qty c)" using r by (simp add: e8_checked_sub_Inr)
  ultimately show ?thesis by (simp add: core_remaining_qty_def sint_e8_max)
qed

definition exits_on :: "book \<Rightarrow> instrument \<Rightarrow> order list" where
  "exits_on b i = filter is_exit (live_orders_on b i)"

lemma saturated_sum:
  assumes "list_all (\<lambda>x. 0 \<le> sint (f x)) xs" "0 \<le> sint s"
  shows "sint (foldl (\<lambda>sum x. unwrap_or e8_MAX (e8_checked_add sum (f x))) s xs) =
    min i64_max (sint s + (\<Sum>x\<leftarrow>xs. sint (f x)))"
  using assms
proof (induction xs arbitrary: s)
  case Nil
  then show ?case using sint_i64_range [of s] by simp
next
  case (Cons x xs)
  have nn: "0 \<le> (\<Sum>x\<leftarrow>xs. sint (f x))" using Cons.prems by (intro sum_list_nonneg) (auto simp: list_all_iff)
  show ?case
  proof (cases "e8_checked_add s (f x)")
    case (Inl e)
    then have "i64_max < sint s + sint (f x)"
      using Cons.prems by (auto simp: e8_checked_add_Inl in_i64_def i64_min_def)
    then show ?thesis using Cons Inl nn by (simp add: sint_e8_MAX i64_max_def)
  next
    case (Inr t)
    have "sint t = sint s + sint (f x)" using Inr by (simp add: e8_checked_add_Inr)
    then show ?thesis using Cons Inr by simp
  qed
qed

lemma exits_remaining_nonneg:
  assumes "book_inv b"
  shows "list_all (\<lambda>o'. 0 \<le> sint (order_remaining_qty o')) (exits_on b i)"
proof -
  have "0 \<le> sint (order_remaining_qty o')" if "o' \<in> set (book_orders b)" for o'
    using that book_inv_order [OF assms] sint_remaining
    by (auto simp: book_orders_mem [OF assms] order_remaining_qty_def) (auto simp: order_inv_def)
  then show ?thesis by (auto simp: list_all_iff exits_on_def live_orders_on_def live_orders_def)
qed

lemma committed_exact:
  "book_inv b \<Longrightarrow> sint (committed_to_exits b i) =
     min i64_max (\<Sum>o'\<leftarrow>exits_on b i. sint (order_remaining_qty o'))"
  using saturated_sum [OF exits_remaining_nonneg [of b i], where s = e8_zero]
  by (simp add: committed_to_exits_def exits_on_def [symmetric])

lemma live_on_mem:
  "book_inv b \<Longrightarrow> o' \<in> set (live_orders_on b i) \<longleftrightarrow>
     (\<exists>c. hm_get (bk_orders b) c = Some o') \<and> \<not> core_is_terminal (od_core o') \<and> oc_instrument (od_core o') = i"
  by (auto simp: live_orders_on_def live_orders_def book_orders_mem)

text \<open>Sample values, for the concrete instances below and in the theories that follow.\<close>

definition sample_header :: "record_kind \<Rightarrow> frame_header" where
  "sample_header k = \<lparr>fh_seq = 2, fh_epoch = 1, fh_nanos = 5, fh_kind = k, fh_len = 0\<rparr>"

definition sample_intent :: economic_order_intent where
  "sample_intent = \<lparr>in_client_order_id = inline_or_default 36 (lit ''c-1''),
     in_instrument = inline_or_default 16 (lit ''BTCUSDT''), in_side = Buy, in_qty = 500000000,
     in_kind = Market, in_limit_price = None, in_stop_price = None, in_authority = Entry,
     in_trace_id = 1, in_quote_at_decision = None\<rparr>"

definition sample_book :: book where
  "sample_book = book_new\<lparr>
     bk_orders := [(in_client_order_id sample_intent, order_of_intent (sample_header KIntentPersisted) sample_intent)],
     bk_order_sequence := [in_client_order_id sample_intent]\<rparr>"

lemma sample_intent_wf: "intent_wf sample_intent"
  by (simp add: intent_wf_def sample_intent_def inline_is_empty_def inline_or_default_def inline_new_def lit_def)

subsection \<open>Properties of the book\<close>

text \<open>
  C5: a book folded from any log that folds is sound: the size of every position is the signed sum of
  the executions recorded for that instrument, each execution counted once; a flat position carries no
  basis; every order is stored under its own id, within its authorised size, and listed exactly once.
\<close>

theorem folded_book_is_sound:
  assumes "rebuild items = Inr b"
  shows "sint (ps_qty (book_position b i)) = fill_sum (bk_fills b) i \<and>
    distinct (map fst (bk_fills b)) \<and>
    (is_flat (book_position b i) \<longrightarrow> ps_cost_basis (book_position b i) = 0) \<and>
    (\<forall>o'. book_order b c = Some o' \<longrightarrow> oc_client_order_id (od_core o') = c \<and> order_inv (od_core o')) \<and>
    book_orders b = map snd (bk_orders b)"
proof -
  have inv: "book_inv b" using assms by (rule rebuild_inv)
  have "flat_ok (book_position b i)"
  proof (cases "hm_get (bk_positions b) i")
    case None
    then show ?thesis by (simp add: book_position_def position_default_def flat_ok_def)
  next
    case (Some p)
    then show ?thesis using inv by (auto simp: book_position_def book_inv_def dest!: hm_get_mem)
  qed
  then show ?thesis
    using inv book_inv_order [OF inv] book_orders_eq [OF inv]
    by (auto simp: book_inv_def hm_wf_def flat_ok_def is_flat_def e8_is_zero_iff book_order_def)
qed

theorem folded_book_is_sound_witness:
  "\<exists>b. rebuild [frame_of (sample_header KTicked, Ticked)] =
      (Inr b :: unit ledger_error + book) \<and>
    sint (ps_qty (book_position b (inline_or_default 16 [66]))) = fill_sum (bk_fills b) (inline_or_default 16 [66])"
proof -
  obtain b where "rebuild [frame_of (sample_header KTicked, Ticked)] =
      (Inr b :: unit ledger_error + book)"
    by (simp add: rebuild_def frame_of_def record_decode_def decode_body_def op_defs r_finish_def r_remaining_def
        book_apply_def apply_record_def sample_header_def)
  with folded_book_is_sound [OF this] show ?thesis by blast
qed

text \<open>
  C9: idempotency. A fill whose execution id is already recorded, and an intent whose client order id
  is already known, move nothing: the book after them is the book before them with only the position
  in the log and the journal time advanced.
\<close>

theorem duplicates_move_nothing:
  "(hm_get (bk_orders b) c \<noteq> None \<and> hm_get (bk_fills b) x \<noteq> None \<longrightarrow>
      book_apply h (OrderEvent c t f g a (FillReceived x q p)) b = (Inr Duplicate, book_stamp h b)) \<and>
   (hm_get (bk_orders b) (in_client_order_id i) \<noteq> None \<longrightarrow>
      book_apply h (IntentPersisted i) b = (Inr Duplicate, book_stamp h b))"
  by (auto simp: book_apply_def op_seq_modify apply_record_def apply_order_event_def apply_intent_def
      op_read_def op_ok_def is_known_fill_def book_stamp_def)

theorem duplicates_move_nothing_witness:
  "book_apply (sample_header KIntentPersisted) (IntentPersisted sample_intent) sample_book =
   (Inr Duplicate :: unit ledger_error + applied, book_stamp (sample_header KIntentPersisted) sample_book)"
  by (rule duplicates_move_nothing [THEN conjunct2, rule_format]) (simp add: sample_book_def hm_get_def)






end
