(* ===== verification/Guards.thy ===== *)
theory Guards
  imports Book
begin

text \<open>
  Exposure guards (\<open>sentinel-engine/src/guards.rs\<close>): the reasons an order is refused before it exists, as
  pure functions of the book, the intent, the limits and the halt flag. \<open>Refusal::note\<close> formats the texts
  of the decision records; \<open>{}\<close> of a quantity is \<open>format_e8\<close>, of an id its text.

  Shown here: an entry is allowed exactly when nothing forbids it, an exit is bounded by the position not
  already covered by live exits and never opens exposure, and neither a halt nor an unconfirmed position
  nor a locked instrument touches an exit.
\<close>

datatype refusal =
    RHalted
  | InstrumentLocked client_order_id
  | EntryAlreadyLive client_order_id
  | ExitExceedsPosition qty qty
  | ExceedsMaxPosition qty qty
  | PositionUnconfirmed

definition note_new :: "str \<Rightarrow> note_text" where
  "note_new s = inline_or_default 96 s"

fun refusal_note :: "refusal \<Rightarrow> note_text" where
  "refusal_note RHalted = note_new (lit ''account halted'')"
| "refusal_note (InstrumentLocked held_by) = note_new (lit ''instrument locked by '' @ as_str held_by)"
| "refusal_note (EntryAlreadyLive existing) =
     note_new (lit ''entry '' @ as_str existing @ lit '' is already live'')"
| "refusal_note (ExitExceedsPosition requested available) =
     note_new (lit ''exit '' @ format_e8 requested @ lit '' exceeds available '' @ format_e8 available)"
| "refusal_note (ExceedsMaxPosition would_be cap) =
     note_new (lit ''position '' @ format_e8 would_be @ lit '' exceeds cap '' @ format_e8 cap)"
| "refusal_note PositionUnconfirmed = note_new (lit ''the venue has not yet reported the position'')"

fun refusal_value :: "refusal \<Rightarrow> qty" where
  "refusal_value (ExitExceedsPosition _ available) = available"
| "refusal_value (ExceedsMaxPosition _ cap) = cap"
| "refusal_value _ = e8_zero"

datatype verdict = Allow | Clamp qty | Refuse refusal

record limits =
  lm_max_position :: "qty option"
  lm_position_confirmed :: bool

definition evaluate_entry :: "book \<Rightarrow> economic_order_intent \<Rightarrow> limits \<Rightarrow> bool \<Rightarrow> verdict" where
  "evaluate_entry book intent limits halted =
     (if halted then Refuse RHalted
      else if \<not> lm_position_confirmed limits then Refuse PositionUnconfirmed
      else case locking_order book (in_instrument intent) of
        Some holder \<Rightarrow> Refuse (InstrumentLocked (oc_client_order_id (od_core holder)))
      | None \<Rightarrow>
          (case find (\<lambda>o'. \<not> is_exit o') (live_orders_on book (in_instrument intent)) of
             Some existing \<Rightarrow> Refuse (EntryAlreadyLive (oc_client_order_id (od_core existing)))
           | None \<Rightarrow>
               (case lm_max_position limits of
                  Some cap \<Rightarrow>
                    let would_be = unwrap_or e8_MAX (e8_checked_add
                          (ps_qty (book_position book (in_instrument intent))) (intent_signed_qty intent))
                    in if sint (e8_abs would_be) > sint cap then Refuse (ExceedsMaxPosition would_be cap)
                       else Allow
                | None \<Rightarrow> Allow)))"

definition evaluate_exit :: "book \<Rightarrow> economic_order_intent \<Rightarrow> verdict" where
  "evaluate_exit book intent =
     (let position = book_position book (in_instrument intent);
          held = abs_qty position;
          committed = committed_to_exits book (in_instrument intent);
          available = e8_max (unwrap_or e8_zero (e8_checked_sub held committed)) e8_zero;
          closes = (e8_is_positive (ps_qty position) = (in_side intent = Sell))
      in if e8_is_zero held \<or> \<not> closes then Refuse (ExitExceedsPosition (in_qty intent) e8_zero)
         else if e8_is_zero available then Refuse (ExitExceedsPosition (in_qty intent) available)
         else if sint (in_qty intent) > sint available then Clamp available
         else Allow)"

definition evaluate :: "book \<Rightarrow> economic_order_intent \<Rightarrow> limits \<Rightarrow> bool \<Rightarrow> verdict" where
  "evaluate book intent limits halted =
     (if opens_exposure intent then evaluate_entry book intent limits halted
      else evaluate_exit book intent)"

text \<open>The quantity a verdict lets out.\<close>

definition granted :: "verdict \<Rightarrow> economic_order_intent \<Rightarrow> int option" where
  "granted v intent = (case v of Allow \<Rightarrow> Some (sint (in_qty intent)) | Clamp q \<Rightarrow> Some (sint q) | Refuse _ \<Rightarrow> None)"

lemma sint_available:
  assumes "0 \<le> sint h" "0 \<le> sint c"
  shows "sint (e8_max (unwrap_or e8_zero (e8_checked_sub h c)) e8_zero) = max 0 (sint h - sint c)"
proof -
  have "in_i64 (sint h - sint c)"
    using assms sint_i64_range [of h] sint_i64_range [of c] by (auto simp: in_i64_def i64_min_def i64_max_def)
  then obtain r where r: "e8_checked_sub h c = Inr r"
    by (cases "e8_checked_sub h c") (auto simp: e8_checked_sub_Inl)
  then have "sint r = sint h - sint c" by (simp add: e8_checked_sub_Inr)
  then show ?thesis using r by (simp add: sint_e8_max)
qed

lemma committed_nonneg: "book_inv b \<Longrightarrow> 0 \<le> sint (committed_to_exits b i)"
  using committed_exact [of b i] exits_remaining_nonneg [of b i] sum_list_nonneg [of "map (\<lambda>o'. sint (order_remaining_qty o')) (exits_on b i)"]
  by (auto simp: list_all_iff i64_max_def)

lemma find_None: "find P xs = None \<longleftrightarrow> (\<forall>x \<in> set xs. \<not> P x)"
  by (auto simp: find_None_iff)

definition closes_position :: "book \<Rightarrow> economic_order_intent \<Rightarrow> bool" where
  "closes_position b i \<longleftrightarrow>
     (let q = sint (ps_qty (book_position b (in_instrument i))) in 0 < q \<and> in_side i = Sell \<or> q < 0 \<and> in_side i = Buy)"

lemma evaluate_exit_granted:
  assumes inv: "book_inv b" and q: "0 < sint (in_qty i)"
  shows "granted (evaluate_exit b i) i =
    (let free = min i64_max \<bar>sint (ps_qty (book_position b (in_instrument i)))\<bar> -
          sint (committed_to_exits b (in_instrument i))
     in if closes_position b i \<and> 0 < free then Some (min free (sint (in_qty i))) else None)"
proof -
  let ?p = "book_position b (in_instrument i)" and ?c = "committed_to_exits b (in_instrument i)"
  have h: "sint (abs_qty ?p) = min i64_max \<bar>sint (ps_qty ?p)\<bar>" by (simp add: abs_qty_def sint_e8_abs)
  have av: "sint (e8_max (unwrap_or e8_zero (e8_checked_sub (abs_qty ?p) ?c)) e8_zero) =
      max 0 (min i64_max \<bar>sint (ps_qty ?p)\<bar> - sint ?c)"
    using sint_available [of "abs_qty ?p" ?c] committed_nonneg [OF inv] h by (simp add: i64_max_def)
  have cl: "(e8_is_zero (abs_qty ?p) \<or> \<not> (e8_is_positive (ps_qty ?p) = (in_side i = Sell))) = (\<not> closes_position b i)"
    using h by (cases "in_side i") (auto simp: closes_position_def Let_def e8_is_zero_iff e8_is_positive_def i64_max_def)
  show ?thesis
    unfolding evaluate_exit_def Let_def cl unfolding e8_is_zero_iff av
    using q committed_nonneg [OF inv, of "in_instrument i"] by (auto simp: granted_def av)
qed

subsection \<open>Properties\<close>

text \<open>
  C14: no sequence of exits can over-exit. An exit that is let out is on the closing side of the position
  and, together with everything live exits already cover, asks for no more than the position; it is
  reduced rather than refused when part of it fits, refused exactly when nothing is left to close, and
  nothing else about it, in particular no halt, no limit and no lock, plays a part.
\<close>

theorem exits_are_bounded_by_the_position:
  assumes "book_inv b" "0 < sint (in_qty i)" "\<not> opens_exposure i"
  shows "granted (evaluate b i limits halted) i =
    (let free = min i64_max \<bar>sint (ps_qty (book_position b (in_instrument i)))\<bar> -
          min i64_max (\<Sum>o'\<leftarrow>exits_on b (in_instrument i). sint (order_remaining_qty o'))
     in if closes_position b i \<and> 0 < free then Some (min free (sint (in_qty i))) else None)"
  using evaluate_exit_granted [OF assms(1,2)] assms(3) committed_exact [OF assms(1)]
  by (simp add: evaluate_def)

theorem exits_are_bounded_by_the_position_witness:
  "granted (evaluate book_new (sample_intent\<lparr>in_authority := ProtectiveExit\<rparr>)
     \<lparr>lm_max_position = None, lm_position_confirmed = False\<rparr> True) (sample_intent\<lparr>in_authority := ProtectiveExit\<rparr>) = None"
  using exits_are_bounded_by_the_position [OF book_inv_new, of "sample_intent\<lparr>in_authority := ProtectiveExit\<rparr>"
      "\<lparr>lm_max_position = None, lm_position_confirmed = False\<rparr>" True]
  by (simp add: sample_intent_def opens_exposure_def authority_opens_exposure_def closes_position_def
      book_position_def book_new_def position_default_def)

text \<open>
  An entry is allowed exactly when the account is not halted, the venue has reported its position, no
  order on the instrument is in a state whose truth is unproven, no other entry is live on it, and the
  position it would lead to stays within the cap; it is never reduced.
\<close>

theorem entry_allowed_iff:
  assumes "book_inv b" "opens_exposure i" "intent_wf i"
  shows "(evaluate b i limits halted = Allow \<longleftrightarrow>
      \<not> halted \<and> lm_position_confirmed limits \<and>
      (\<forall>c o'. book_order b c = Some o' \<longrightarrow> oc_instrument (od_core o') = in_instrument i \<longrightarrow>
         \<not> state_locks_instrument (oc_state (od_core o')) \<and> (is_exit o' \<or> core_is_terminal (od_core o'))) \<and>
      (\<forall>cap. lm_max_position limits = Some cap \<longrightarrow>
         min i64_max \<bar>sint (unwrap_or e8_MAX (e8_checked_add
            (ps_qty (book_position b (in_instrument i))) (intent_signed_qty i)))\<bar> \<le> sint cap)) \<and>
    (\<forall>q. evaluate b i limits halted \<noteq> Clamp q)"
proof -
  have live: "x \<in> set (live_orders_on b (in_instrument i)) \<longleftrightarrow> (\<exists>c. book_order b c = Some x) \<and>
      \<not> core_is_terminal (od_core x) \<and> oc_instrument (od_core x) = in_instrument i" for x
    using live_on_mem [OF assms(1)] by (simp add: book_order_def)
  have lock: "state_locks_instrument s \<Longrightarrow> \<not> state_is_terminal s" for s
    by (auto simp: state_locks_instrument_def state_is_terminal_def)
  have a: "locking_order b (in_instrument i) = None \<longleftrightarrow> (\<forall>c o'. book_order b c = Some o' \<longrightarrow>
      oc_instrument (od_core o') = in_instrument i \<longrightarrow> \<not> state_locks_instrument (oc_state (od_core o')))"
    using lock by (auto simp: locking_order_def find_None live core_locks_instrument_def core_is_terminal_def)
  have e: "find (\<lambda>o'. \<not> is_exit o') (live_orders_on b (in_instrument i)) = None \<longleftrightarrow>
      (\<forall>c o'. book_order b c = Some o' \<longrightarrow> oc_instrument (od_core o') = in_instrument i \<longrightarrow>
         is_exit o' \<or> core_is_terminal (od_core o'))"
    unfolding find_None Ball_def live by blast
  have "evaluate b i limits halted = evaluate_entry b i limits halted" using assms(2) by (simp add: evaluate_def)
  moreover have "evaluate_entry b i limits halted = Allow \<longleftrightarrow> \<not> halted \<and> lm_position_confirmed limits \<and>
      locking_order b (in_instrument i) = None \<and>
      find (\<lambda>o'. \<not> is_exit o') (live_orders_on b (in_instrument i)) = None \<and>
      (\<forall>cap. lm_max_position limits = Some cap \<longrightarrow> min i64_max \<bar>sint (unwrap_or e8_MAX (e8_checked_add
            (ps_qty (book_position b (in_instrument i))) (intent_signed_qty i)))\<bar> \<le> sint cap)"
    by (auto simp: evaluate_entry_def Let_def sint_e8_abs split: option.splits)
  moreover have "evaluate_entry b i limits halted \<noteq> Clamp q" for q
    by (auto simp: evaluate_entry_def Let_def split: option.splits)
  ultimately show ?thesis unfolding a e by metis
qed

theorem entry_allowed_iff_witness:
  "evaluate book_new sample_intent \<lparr>lm_max_position = None, lm_position_confirmed = True\<rparr> False = Allow"
  using entry_allowed_iff [OF book_inv_new _ sample_intent_wf, of
      "\<lparr>lm_max_position = None, lm_position_confirmed = True\<rparr>" False]
  by (simp add: sample_intent_def opens_exposure_def authority_opens_exposure_def book_order_def book_new_def)

end
