(* ===== verification/Venue.thy ===== *)
theory Venue
  imports Guards
begin

text \<open>
  The venue boundary (\<open>sentinel-venue/src/lib.rs\<close>) and the simulated venue behind it
  (\<open>sentinel-venue/src/sim.rs\<close>). The trait \<open>Venue\<close> is a record of its calls over a venue state
  \<open>'v\<close>; every call returns its answer, or that it could not be made or panicked, with the new state. The
  simulated venue is one such record; its call counters and id counters are natural numbers, and
  \<open>fill\<close>, which panics for an order the venue never took, returns an option.

  What the rest of the system may conclude from a venue's answers, and that the simulated venue honours it, is
  the contract of the theory \<open>SimVenue\<close>.
\<close>

record order_snapshot =
  sn_state :: order_state
  sn_venue_order_id :: "venue_order_id option"
  sn_filled_qty :: qty
  sn_avg_price :: "price option"

datatype submit_outcome = Acked venue_order_id | Rejected_by reject_reason | SubmitTimedOut

datatype cancel_outcome = CancelTaken | CancelTimedOut | CancelAbsent

datatype lookup_outcome = Found order_snapshot | LookupAbsent | LookupTimedOut

datatype venue_event =
    VFill client_order_id exec_id qty price
  | VCancelConfirmed client_order_id
  | VMark instrument price
  | VBalance asset money

datatype venue_request =
    Submit economic_order_intent
  | Cancel client_order_id "venue_order_id option"
  | Lookup client_order_id
  | Positions

datatype venue_error =
    Transport str
  | MalformedResponse str
  | Unauthorized
  | RateLimited "nanos option"

definition is_retryable :: "venue_error \<Rightarrow> bool" where
  "is_retryable e = (case e of Transport _ \<Rightarrow> True | RateLimited _ \<Rightarrow> True | _ \<Rightarrow> False)"

record venue_position =
  vp_instrument :: instrument
  vp_qty :: qty
  vp_entry_price :: "price option"

text \<open>A call that could not be made says why; a call may also panic, which no caller handles.\<close>

datatype call_failure = CallFailed venue_error | CallPanicked

type_synonym ('v, 'a) venue_op = "('v, call_failure, 'a) op"

record 'v venue =
  vn_submit :: "economic_order_intent \<Rightarrow> ('v, submit_outcome) venue_op"
  vn_cancel :: "client_order_id \<Rightarrow> venue_order_id option \<Rightarrow> ('v, cancel_outcome) venue_op"
  vn_lookup :: "client_order_id \<Rightarrow> ('v, lookup_outcome) venue_op"
  vn_positions :: "('v, venue_position list) venue_op"
  vn_drain_events :: "'v \<Rightarrow> venue_event list \<times> 'v"

subsection \<open>The simulated venue\<close>

datatype fault =
    TimeoutButAccepted | TimeoutAndAbsent | Reject reject_reason | AcceptButSilent
  | FTransport | FRateLimited

record sim_order =
  so_venue_order_id :: venue_order_id
  so_instrument :: instrument
  so_side :: side
  so_qty :: qty
  so_filled :: qty
  so_filled_cost :: money
  so_state :: order_state
  so_acknowledged :: bool
  so_silent :: bool

definition average_price :: "money \<Rightarrow> qty \<Rightarrow> price option" where
  "average_price cost qty =
     (if \<not> e8_is_positive qty then None else to_i64 ((sint cost * SCALE) sdiv sint qty))"

record sim_venue =
  sv_orders :: "(client_order_id, sim_order) hashmap"
  sv_faults :: "(client_order_id, fault) hashmap"
  sv_stream :: "venue_event list"
  sv_positions :: "(instrument, qty) hashmap"
  sv_next_id :: nat
  sv_next_exec :: nat
  sv_forced_positions :: "venue_position list option"
  sv_submits :: nat
  sv_lookups :: nat
  sv_cancels :: nat

definition sim_new :: sim_venue where
  "sim_new = \<lparr>sv_orders = [], sv_faults = [], sv_stream = [], sv_positions = [], sv_next_id = 0,
     sv_next_exec = 0, sv_forced_positions = None, sv_submits = 0, sv_lookups = 0, sv_cancels = 0\<rparr>"

definition sim_script :: "client_order_id \<Rightarrow> fault \<Rightarrow> sim_venue \<Rightarrow> sim_venue" where
  "sim_script c f v = v\<lparr>sv_faults := hm_insert c f (sv_faults v)\<rparr>"

definition next_venue_id :: "sim_venue \<Rightarrow> venue_order_id \<times> sim_venue" where
  "next_venue_id v =
     (let v = v\<lparr>sv_next_id := sv_next_id v + 1\<rparr>
      in (inline_or_default 32 (lit ''V-'' @ dec (sv_next_id v)), v))"

definition next_exec_id :: "sim_venue \<Rightarrow> exec_id \<times> sim_venue" where
  "next_exec_id v =
     (let v = v\<lparr>sv_next_exec := sv_next_exec v + 1\<rparr>
      in (inline_or_default 40 (lit ''E-'' @ dec (sv_next_exec v)), v))"

text \<open>The fields a fill changes on the order it fills.\<close>

definition sim_fill_order :: "qty \<Rightarrow> price \<Rightarrow> sim_order \<Rightarrow> sim_order" where
  "sim_fill_order qty price order =
     (let filled = unwrap_or (so_filled order) (e8_checked_add (so_filled order) qty);
          cost = (case notional price qty of
                    Inr cost \<Rightarrow> unwrap_or (so_filled_cost order) (e8_checked_add (so_filled_cost order) cost)
                  | Inl _ \<Rightarrow> so_filled_cost order)
      in order\<lparr>so_filled := filled, so_filled_cost := cost,
               so_state := (if sint filled \<ge> sint (so_qty order) then Filled else Partial)\<rparr>)"

definition sim_fill :: "client_order_id \<Rightarrow> qty \<Rightarrow> price \<Rightarrow> sim_venue \<Rightarrow> sim_venue option" where
  "sim_fill c qty price v =
     (let (exec_id, v) = next_exec_id v in
      case hm_get (sv_orders v) c of
        None \<Rightarrow> None
      | Some order \<Rightarrow>
          let order = sim_fill_order qty price order;
              i = so_instrument order;
              held = (case hm_get (sv_positions v) i of Some q \<Rightarrow> q | None \<Rightarrow> e8_zero);
              signed_qty = saturating_mul_i64 qty (side_sign (so_side order))
          in Some (v\<lparr>sv_orders := hm_insert c order (sv_orders v),
                     sv_positions := hm_insert i (unwrap_or held (e8_checked_add held signed_qty)) (sv_positions v),
                     sv_stream := (if so_silent order then sv_stream v
                                   else sv_stream v @ [VFill c exec_id qty price])\<rparr>))"

definition sim_fill_twice :: "client_order_id \<Rightarrow> qty \<Rightarrow> price \<Rightarrow> sim_venue \<Rightarrow> sim_venue option" where
  "sim_fill_twice c qty price v =
     (case sim_fill c qty price v of
        None \<Rightarrow> None
      | Some v \<Rightarrow> if sv_stream v = [] then None
                  else Some (v\<lparr>sv_stream := sv_stream v @ [last (sv_stream v)]\<rparr>))"

definition cancel_unsolicited :: "client_order_id \<Rightarrow> sim_venue \<Rightarrow> sim_venue" where
  "cancel_unsolicited c v =
     (case hm_get (sv_orders v) c of
        None \<Rightarrow> v
      | Some order \<Rightarrow>
          v\<lparr>sv_orders := hm_insert c (order\<lparr>so_state := Canceled\<rparr>) (sv_orders v),
            sv_stream := sv_stream v @ [VCancelConfirmed c]\<rparr>)"

definition sim_mark :: "instrument \<Rightarrow> price \<Rightarrow> sim_venue \<Rightarrow> sim_venue" where
  "sim_mark i p v = v\<lparr>sv_stream := sv_stream v @ [VMark i p]\<rparr>"

definition sim_balance :: "asset \<Rightarrow> money \<Rightarrow> sim_venue \<Rightarrow> sim_venue" where
  "sim_balance a m v = v\<lparr>sv_stream := sv_stream v @ [VBalance a m]\<rparr>"

definition sim_entry_price :: "sim_venue \<Rightarrow> instrument \<Rightarrow> price option" where
  "sim_entry_price v i =
     (let (cost, qty) = foldl (\<lambda>(cost, qty) (_, order).
            if so_instrument order \<noteq> i then (cost, qty)
            else (unwrap_or cost (e8_checked_add cost (e8_abs (so_filled_cost order))),
                  unwrap_or qty (e8_checked_add qty (so_filled order))))
          (e8_zero, e8_zero) (hm_sorted (sv_orders v))
      in average_price cost qty)"

definition force_positions :: "venue_position list \<Rightarrow> sim_venue \<Rightarrow> sim_venue" where
  "force_positions ps v = v\<lparr>sv_forced_positions := Some ps\<rparr>"

definition sim_knows :: "sim_venue \<Rightarrow> client_order_id \<Rightarrow> bool" where
  "sim_knows v c = hm_contains (sv_orders v) c"

definition was_acknowledged :: "sim_venue \<Rightarrow> client_order_id \<Rightarrow> bool" where
  "was_acknowledged v c = is_some_and so_acknowledged (hm_get (sv_orders v) c)"

definition call_counts :: "sim_venue \<Rightarrow> nat \<times> nat \<times> nat" where
  "call_counts v = (sv_submits v, sv_lookups v, sv_cancels v)"

subsection \<open>The calls of the trait\<close>

definition take_fault :: "client_order_id \<Rightarrow> sim_venue \<Rightarrow> fault option \<times> sim_venue" where
  "take_fault c v = (hm_get (sv_faults v) c, v\<lparr>sv_faults := hm_remove c (sv_faults v)\<rparr>)"

definition sim_accept :: "economic_order_intent \<Rightarrow> bool \<Rightarrow> bool \<Rightarrow> sim_venue \<Rightarrow> venue_order_id \<times> sim_venue" where
  "sim_accept intent acknowledged silent v =
     (let (venue_order_id, v) = next_venue_id v in
      (venue_order_id, v\<lparr>sv_orders := hm_insert (in_client_order_id intent)
         \<lparr>so_venue_order_id = venue_order_id, so_instrument = in_instrument intent, so_side = in_side intent,
          so_qty = in_qty intent, so_filled = e8_zero, so_filled_cost = e8_zero, so_state = Working,
          so_acknowledged = acknowledged, so_silent = silent\<rparr> (sv_orders v)\<rparr>))"

definition sim_submit :: "economic_order_intent \<Rightarrow> (sim_venue, submit_outcome) venue_op" where
  "sim_submit intent v =
     (let c = in_client_order_id intent;
          (fault, v) = take_fault c (v\<lparr>sv_submits := sv_submits v + 1\<rparr>) in
      case fault of
        Some FTransport \<Rightarrow> (Inl (CallFailed (Transport (lit ''simulated''))), v)
      | Some FRateLimited \<Rightarrow> (Inl (CallFailed (RateLimited None)), v)
      | Some (Reject reason) \<Rightarrow> (Inr (Rejected_by reason), v)
      | Some TimeoutAndAbsent \<Rightarrow> (Inr SubmitTimedOut, v)
      | Some TimeoutButAccepted \<Rightarrow> (Inr SubmitTimedOut, snd (sim_accept intent False False v))
      | Some AcceptButSilent \<Rightarrow>
          (let (venue_order_id, v) = sim_accept intent True True v in (Inr (Acked venue_order_id), v))
      | None \<Rightarrow>
          if hm_contains (sv_orders v) c
          then (Inr (Rejected_by (reject_reason_new (- 4015) (lit ''duplicate client order id''))), v)
          else (let (venue_order_id, v) = sim_accept intent True False v in (Inr (Acked venue_order_id), v)))"

definition sim_cancel :: "client_order_id \<Rightarrow> venue_order_id option \<Rightarrow> (sim_venue, cancel_outcome) venue_op" where
  "sim_cancel c venue_order_id v =
     (let (fault, v) = take_fault c (v\<lparr>sv_cancels := sv_cancels v + 1\<rparr>) in
      if fault = Some FTransport then (Inl (CallFailed (Transport (lit ''simulated''))), v)
      else if fault = Some TimeoutAndAbsent \<or> fault = Some TimeoutButAccepted then (Inr CancelTimedOut, v)
      else case hm_get (sv_orders v) c of
        None \<Rightarrow> (Inr CancelAbsent, v)
      | Some order \<Rightarrow>
          if state_is_terminal (so_state order) then (Inr CancelAbsent, v)
          else (Inr CancelTaken,
                v\<lparr>sv_orders := hm_insert c (order\<lparr>so_state := Canceled\<rparr>) (sv_orders v),
                  sv_stream := (if so_silent order then sv_stream v else sv_stream v @ [VCancelConfirmed c])\<rparr>))"

definition sim_lookup :: "client_order_id \<Rightarrow> (sim_venue, lookup_outcome) venue_op" where
  "sim_lookup c v =
     (let (fault, v) = take_fault c (v\<lparr>sv_lookups := sv_lookups v + 1\<rparr>) in
      if fault = Some FTransport then (Inl (CallFailed (Transport (lit ''simulated''))), v)
      else if fault = Some FRateLimited then (Inl (CallFailed (RateLimited None)), v)
      else if fault = Some TimeoutAndAbsent \<or> fault = Some TimeoutButAccepted then (Inr LookupTimedOut, v)
      else case hm_get (sv_orders v) c of
        None \<Rightarrow> (Inr LookupAbsent, v)
      | Some order \<Rightarrow>
          (Inr (Found \<lparr>sn_state = so_state order, sn_venue_order_id = Some (so_venue_order_id order),
             sn_filled_qty = so_filled order,
             sn_avg_price = average_price (so_filled_cost order) (so_filled order)\<rparr>), v))"

definition sim_positions :: "(sim_venue, venue_position list) venue_op" where
  "sim_positions v =
     (case sv_forced_positions v of
        Some forced \<Rightarrow> (Inr forced, v)
      | None \<Rightarrow>
          (Inr (map (\<lambda>(i, q). \<lparr>vp_instrument = i, vp_qty = q, vp_entry_price = sim_entry_price v i\<rparr>)
             (hm_sorted (filter (\<lambda>(_, q). \<not> e8_is_zero q) (sv_positions v)))), v))"

definition sim_drain_events :: "sim_venue \<Rightarrow> venue_event list \<times> sim_venue" where
  "sim_drain_events v = (sv_stream v, v\<lparr>sv_stream := []\<rparr>)"

definition sim_venue_ops :: "sim_venue venue" where
  "sim_venue_ops =
     \<lparr>vn_submit = sim_submit, vn_cancel = sim_cancel, vn_lookup = sim_lookup, vn_positions = sim_positions,
      vn_drain_events = sim_drain_events\<rparr>"

end
