(* ===== verification/Engine.thy ===== *)
theory Engine
  imports Journal Venue
begin

text \<open>
  The single writer (\<open>sentinel-engine/src/engine.rs\<close>, \<open>command.rs\<close>, \<open>error.rs\<close>): the journal, the book, the
  requests waiting for their records to be durable, the reconciliations under way, and one handler per
  command. A handler is an operation on the engine that keeps what it wrote before it failed. The scratch
  buffer, cleared before each use, is not part of the state.

  A slice of a text that ends inside a character panics; the panic is the failure \<open>Panicked\<close>, which like an
  error leaves the state as it was when it happened.
\<close>

unbundle bit_operations_syntax

datatype engine_error = EJournal journal_error | ELedger "journal_error ledger_error"

datatype failure = Failed engine_error | Panicked

definition engine_is_fatal :: "engine_error \<Rightarrow> bool" where
  "engine_is_fatal e =
     (case e of EJournal e \<Rightarrow> journal_is_fatal e | ELedger e \<Rightarrow> ledger_is_integrity_violation e)"

datatype command =
    Tick nanos
  | Place economic_order_intent
  | CancelOrder client_order_id trace_id
  | Submitted client_order_id submit_outcome
  | Cancelled client_order_id cancel_outcome
  | LookedUp client_order_id lookup_outcome
  | Streamed venue_event
  | PositionsReported "venue_position option list"
  | SweepStale
  | Halt note_text
  | Resume note_text
  | Decide actor instrument decision_kind trace_id money note_text

definition positions_reported :: "venue_position list \<Rightarrow> command" where
  "positions_reported positions =
     PositionsReported (take 8 (map Some positions @ replicate 8 None))"

record config =
  cf_limits :: limits
  cf_stale_after_nanos :: u64
  cf_reconcile_backoff_nanos :: u64
  cf_tick_write_after_nanos :: u64
  cf_reconcile_backoff_cap_nanos :: u64

definition config_default :: config where
  "config_default = \<lparr>cf_limits = \<lparr>lm_max_position = None, lm_position_confirmed = False\<rparr>,
     cf_stale_after_nanos = 120000000000, cf_reconcile_backoff_nanos = 1000000000,
     cf_tick_write_after_nanos = 5000000000, cf_reconcile_backoff_cap_nanos = 60000000000\<rparr>"

definition ADOPTION_TRACE_MARKER :: u128 where
  "ADOPTION_TRACE_MARKER = 0xadb7"

record pending =
  pd_retry_at :: nanos
  pd_backoff :: u64
  pd_in_flight :: bool

record engine =
  en_journal :: journal
  en_book :: book
  en_config :: config
  en_uncommitted :: "venue_request list"
  en_reconciling :: "(client_order_id, pending) hashmap"
  en_halted :: bool
  en_position_confirmed :: bool

type_synonym 'a engine_op = "(engine, failure, 'a) op"

subsection \<open>Writing\<close>

text \<open>An operation of the journal or of the book, as an operation of the engine.\<close>

definition on_journal :: "'a journal_op \<Rightarrow> 'a engine_op" where
  "on_journal m e =
     (let (r, j) = m (en_journal e)
      in (map_err (\<lambda>x. Failed (EJournal x)) r, e\<lparr>en_journal := j\<rparr>))"

definition on_book :: "(journal_error, 'a) book_op \<Rightarrow> 'a engine_op" where
  "on_book m e =
     (let (r, b) = m (en_book e)
      in (map_err (\<lambda>x. Failed (ELedger x)) r, e\<lparr>en_book := b\<rparr>))"

definition write_header :: "journal \<Rightarrow> seq \<Rightarrow> nanos \<Rightarrow> log_record \<Rightarrow> frame_header" where
  "write_header j seq now r =
     \<lparr>fh_seq = seq, fh_epoch = jn_epoch j, fh_nanos = now, fh_kind = Records.record_kind r,
      fh_len = (let n = length (record_encode r) in if n < 2 ^ 32 then of_nat n else - 1)\<rparr>"

definition write_at :: "nanos \<Rightarrow> log_record \<Rightarrow> applied engine_op" where
  "write_at now r =
     op_bind (on_journal (journal_append (Records.record_kind r) now (record_encode r))) (\<lambda>seq.
       op_read (\<lambda>e. on_book (book_apply (write_header (en_journal e) seq now r) r)))"

definition write_record :: "log_record \<Rightarrow> applied engine_op" where
  "write_record r = op_read (\<lambda>e. write_at (bk_now (en_book e)) r)"

text \<open>The record of a lifecycle event: where the order was, where it goes, and whether it applied.\<close>

definition event_record :: "book \<Rightarrow> client_order_id \<Rightarrow> trace_id \<Rightarrow> order_event \<Rightarrow> log_record" where
  "event_record b client_order_id trace_id event =
     (let existing = map_option od_core (book_order b client_order_id);
          from_state = (case existing of None \<Rightarrow> Created | Some core \<Rightarrow> oc_state core);
          nxt = (case existing of None \<Rightarrow> None
                 | Some core \<Rightarrow> (case transition core event of Inr n \<Rightarrow> Some n | Inl _ \<Rightarrow> None));
          to_state = (case nxt of None \<Rightarrow> from_state | Some n \<Rightarrow> oc_state n);
          was_applied = (existing = None \<or> nxt \<noteq> None)
      in OrderEvent client_order_id trace_id from_state to_state was_applied event)"

definition write_event :: "client_order_id \<Rightarrow> trace_id \<Rightarrow> order_event \<Rightarrow> applied engine_op" where
  "write_event client_order_id trace_id event =
     op_read (\<lambda>e. write_record (event_record (en_book e) client_order_id trace_id event))"

definition decide ::
    "instrument \<Rightarrow> actor \<Rightarrow> decision_kind \<Rightarrow> trace_id \<Rightarrow> money \<Rightarrow> note_text \<Rightarrow> unit engine_op" where
  "decide instrument actor kind trace_id val text_note =
     op_seq (write_record (Decision instrument actor kind trace_id val text_note)) (op_ok ())"

definition request :: "venue_request \<Rightarrow> unit engine_op" where
  "request r = op_modify (\<lambda>e. e\<lparr>en_uncommitted := en_uncommitted e @ [r]\<rparr>)"

definition trace_of :: "engine \<Rightarrow> client_order_id \<Rightarrow> trace_id" where
  "trace_of e c = (case book_order (en_book e) c of None \<Rightarrow> 0 | Some o' \<Rightarrow> od_trace_id o')"

subsection \<open>Halting\<close>

definition on_halt :: "note_text \<Rightarrow> unit engine_op" where
  "on_halt text_note = op_read (\<lambda>e.
     if en_halted e then op_ok ()
     else op_seq (op_modify (\<lambda>e. e\<lparr>en_halted := True\<rparr>))
            (decide (inline_empty 16) Supervisor Halted 0 e8_zero text_note))"

definition on_resume :: "note_text \<Rightarrow> unit engine_op" where
  "on_resume text_note = op_read (\<lambda>e.
     if \<not> en_halted e then op_ok ()
     else op_seq (op_modify (\<lambda>e. e\<lparr>en_halted := False\<rparr>))
            (decide (inline_empty 16) Supervisor Resumed 0 e8_zero text_note))"

subsection \<open>Reconciliation\<close>

definition ensure_reconciling :: "client_order_id \<Rightarrow> trace_id \<Rightarrow> reconcile_cause \<Rightarrow> unit engine_op" where
  "ensure_reconciling c trace_id cause = op_read (\<lambda>e.
     if is_some_and (\<lambda>o'. oc_state (od_core o') = Reconciling) (book_order (en_book e) c) then op_ok ()
     else op_seq (write_event c trace_id (ReconcileStarted cause))
       (op_read (\<lambda>e. decide
          (case book_order (en_book e) c of None \<Rightarrow> inline_empty 16 | Some o' \<Rightarrow> oc_instrument (od_core o'))
          Reconciler ReconcileScheduled trace_id e8_zero (note_new (cause_as_str cause)))))"

definition begin_reconcile :: "client_order_id \<Rightarrow> trace_id \<Rightarrow> reconcile_cause \<Rightarrow> unit engine_op" where
  "begin_reconcile c trace_id cause = op_read (\<lambda>e.
     if hm_contains (en_reconciling e) c then op_ok ()
     else op_seq (ensure_reconciling c trace_id cause)
       (op_seq (op_modify (\<lambda>e. e\<lparr>en_reconciling := hm_insert c
            \<lparr>pd_retry_at = bk_now (en_book e), pd_backoff = cf_reconcile_backoff_nanos (en_config e),
             pd_in_flight = True\<rparr> (en_reconciling e)\<rparr>))
         (request (Lookup c))))"

definition defer_reconcile :: "client_order_id \<Rightarrow> engine \<Rightarrow> engine" where
  "defer_reconcile c e =
     (case hm_get (en_reconciling e) c of
        None \<Rightarrow> e
      | Some p \<Rightarrow> e\<lparr>en_reconciling := hm_insert c
          \<lparr>pd_retry_at = nanos_add (bk_now (en_book e)) (pd_backoff p),
           pd_backoff = min (saturating_mul_u64 (pd_backoff p) 2) (cf_reconcile_backoff_cap_nanos (en_config e)),
           pd_in_flight = False\<rparr> (en_reconciling e)\<rparr>)"

definition retry_one :: "client_order_id \<Rightarrow> unit engine_op" where
  "retry_one c =
     op_seq (op_modify (\<lambda>e. case hm_get (en_reconciling e) c of
               None \<Rightarrow> e
             | Some p \<Rightarrow> e\<lparr>en_reconciling := hm_insert c (p\<lparr>pd_in_flight := True\<rparr>) (en_reconciling e)\<rparr>))
       (request (Lookup c))"

definition due_reconciliations :: "engine \<Rightarrow> nanos \<Rightarrow> client_order_id list" where
  "due_reconciliations e now =
     sort (map fst (filter (\<lambda>(_, p). \<not> pd_in_flight p \<and> pd_retry_at p \<le> now) (en_reconciling e)))"

definition retry_due_reconciliations :: "nanos \<Rightarrow> unit engine_op" where
  "retry_due_reconciliations now = op_read (\<lambda>e. op_for retry_one (due_reconciliations e now))"

text \<open>A slice \<open>s[..n]\<close>, which panics beyond the end and inside a character.\<close>

definition str_prefix :: "nat \<Rightarrow> str \<Rightarrow> str option" where
  "str_prefix n s = (if n \<le> length s \<and> is_char_boundary s n then Some (take n s) else None)"

definition or_panic :: "'a option \<Rightarrow> 'a engine_op" where
  "or_panic x = (case x of None \<Rightarrow> op_err Panicked | Some y \<Rightarrow> op_ok y)"

text \<open>
  The subtraction that computes \<open>room\<close> cannot underflow: the suffix is at most 21 bytes. The model
  subtracts naturals.
\<close>

definition reconciliation_exec_id :: "client_order_id \<Rightarrow> qty \<Rightarrow> exec_id option" where
  "reconciliation_exec_id c venue_filled =
     (let suffix = 58 # dec_i64 venue_filled;
          room = 40 - 4 - length suffix
      in map_option (\<lambda>head. inline_or_default 40 (lit ''RCN-'' @ head @ suffix))
           (str_prefix (min (inline_len c) room) (as_str c)))"

definition booked_qty :: "book \<Rightarrow> client_order_id \<Rightarrow> qty" where
  "booked_qty b c = foldl (\<lambda>sum f. unwrap_or sum (e8_checked_add sum (fl_qty f))) e8_zero (fills_for b c)"

definition book_the_difference ::
    "client_order_id \<Rightarrow> trace_id \<Rightarrow> qty \<Rightarrow> price option \<Rightarrow> unit engine_op" where
  "book_the_difference c trace_id venue_filled venue_avg_price = op_read (\<lambda>e.
     case book_order (en_book e) c of
       None \<Rightarrow> op_ok ()
     | Some order \<Rightarrow>
         let instrument = oc_instrument (od_core order); ours = booked_qty (en_book e) c in
         if venue_filled = ours then op_ok ()
         else if sint venue_filled < sint ours
         then on_halt (note_new (as_str c @ lit '': booked '' @ format_e8 ours @ lit '', venue says '' @ format_e8 venue_filled))
         else
           let missing = unwrap_or e8_zero (e8_checked_sub venue_filled ours);
               price = (case venue_avg_price of Some p \<Rightarrow> p
                        | None \<Rightarrow> (case book_mark (en_book e) instrument of Some p \<Rightarrow> p | None \<Rightarrow> e8_zero))
           in op_bind (or_panic (reconciliation_exec_id c venue_filled)) (\<lambda>exec_id.
                op_seq (write_event c trace_id (FillReceived exec_id missing price))
                  (decide instrument Reconciler ReconcileScheduled trace_id missing
                    (note_new (lit ''booked '' @ format_e8 missing @ lit '' the venue had and we did not, at '' @
                       format_e8 price @ lit '' ('' @
                       (if is_some venue_avg_price then lit ''venue average'' else lit ''last mark'') @ lit '')'')))))"

subsection \<open>Commands\<close>

definition on_tick :: "nanos \<Rightarrow> unit engine_op" where
  "on_tick now = op_read (\<lambda>e.
     if now \<le> bk_now (en_book e) then op_ok ()
     else op_seq
       (if saturating_since now (bk_now (en_book e)) \<ge> cf_tick_write_after_nanos (en_config e)
        then op_seq (write_at now Ticked) (op_ok ()) else op_ok ())
       (retry_due_reconciliations now))"

definition authorise :: "economic_order_intent \<Rightarrow> unit engine_op" where
  "authorise intent =
     op_seq (write_record (IntentPersisted intent))
    (op_seq (write_event (in_client_order_id intent) (in_trace_id intent) SubmissionStarted)
    (op_seq (decide (in_instrument intent)
        (if opens_exposure intent then Gateway else Protection)
        (if opens_exposure intent then EntryPlaced else ExitPlaced)
        (in_trace_id intent) (in_qty intent)
        (note_new (wire_as_str side_table (in_side intent) @ lit '' '' @ format_e8 (in_qty intent) @ lit '' '' @
          as_str (in_instrument intent))))
      (request (Submit intent))))"

definition refuse :: "economic_order_intent \<Rightarrow> refusal \<Rightarrow> unit engine_op" where
  "refuse intent refusal =
     decide (in_instrument intent) Guards EntryBlocked (in_trace_id intent) (refusal_value refusal)
       (refusal_note refusal)"

definition on_place :: "economic_order_intent \<Rightarrow> unit engine_op" where
  "on_place intent = op_read (\<lambda>e.
     case book_order (en_book e) (in_client_order_id intent) of
       Some existing \<Rightarrow>
         if oc_state (od_core existing) = Submitting
         then begin_reconcile (in_client_order_id intent) (in_trace_id intent) ReplayedMidSubmission
         else op_ok ()
     | None \<Rightarrow>
         let limits = (cf_limits (en_config e))\<lparr>lm_position_confirmed := en_position_confirmed e\<rparr> in
         case evaluate (en_book e) intent limits (en_halted e) of
           Refuse refusal \<Rightarrow> refuse intent refusal
         | Clamp to \<Rightarrow>
             op_seq (decide (in_instrument intent) Guards ExitClamped (in_trace_id intent) to
                 (note_new (lit ''exit '' @ format_e8 (in_qty intent) @ lit '' clamped to '' @ format_e8 to)))
               (authorise (intent\<lparr>in_qty := to\<rparr>))
         | Allow \<Rightarrow> authorise intent)"

text \<open>An error of the ledger that is no integrity violation is swallowed.\<close>

definition swallow :: "failure \<Rightarrow> bool" where
  "swallow f = (case f of Failed (ELedger e) \<Rightarrow> \<not> ledger_is_integrity_violation e | _ \<Rightarrow> False)"

definition on_cancel :: "client_order_id \<Rightarrow> trace_id \<Rightarrow> unit engine_op" where
  "on_cancel c trace_id = op_read (\<lambda>e.
     case book_order (en_book e) c of
       None \<Rightarrow> op_ok ()
     | Some order \<Rightarrow>
         (\<lambda>e. case write_event c trace_id CancelRequested e of
            (Inr _, e') \<Rightarrow> request (Cancel c (oc_venue_order_id (od_core order))) e'
          | (Inl f, e') \<Rightarrow> if swallow f then (Inr (), e') else (Inl f, e')))"

definition on_submitted :: "client_order_id \<Rightarrow> submit_outcome \<Rightarrow> unit engine_op" where
  "on_submitted c outcome = op_read (\<lambda>e.
     let trace_id = trace_of e c in
     case outcome of
       Acked venue_order_id \<Rightarrow> op_seq (write_event c trace_id (VenueAcked venue_order_id)) (op_ok ())
     | Rejected_by reason \<Rightarrow> op_seq (write_event c trace_id (VenueRejected reason)) (op_ok ())
     | SubmitTimedOut \<Rightarrow>
         op_seq (write_event c trace_id SubmissionTimedOut)
           (begin_reconcile c trace_id SubmissionTimeout))"

definition on_cancelled :: "client_order_id \<Rightarrow> cancel_outcome \<Rightarrow> unit engine_op" where
  "on_cancelled c outcome = op_read (\<lambda>e.
     case outcome of
       CancelTaken \<Rightarrow> op_ok ()
     | _ \<Rightarrow> begin_reconcile c (trace_of e c) CancelTimeout)"

definition forget_reconciliation :: "client_order_id \<Rightarrow> unit engine_op" where
  "forget_reconciliation c = op_modify (\<lambda>e. e\<lparr>en_reconciling := hm_remove c (en_reconciling e)\<rparr>)"

definition on_looked_up :: "client_order_id \<Rightarrow> lookup_outcome \<Rightarrow> unit engine_op" where
  "on_looked_up c outcome = op_read (\<lambda>e.
     let trace_id = trace_of e c in
     case outcome of
       LookupTimedOut \<Rightarrow> op_modify (defer_reconcile c)
     | Found snapshot \<Rightarrow>
         op_seq (ensure_reconciling c trace_id PositionDisagreement)
        (op_seq (book_the_difference c trace_id (sn_filled_qty snapshot) (sn_avg_price snapshot))
        (op_seq (write_event c trace_id
            (ReconcileResolved (sn_state snapshot) (sn_venue_order_id snapshot) (sn_filled_qty snapshot)))
          (forget_reconciliation c)))
     | LookupAbsent \<Rightarrow>
         op_seq (ensure_reconciling c trace_id SubmissionTimeout)
        (op_seq (write_event c trace_id (ReconcileResolved Canceled None e8_zero))
          (forget_reconciliation c)))"

definition disown :: "client_order_id \<Rightarrow> unit engine_op" where
  "disown c =
     op_seq (decide (inline_empty 16) Reconciler ReconcileScheduled 0 e8_zero
         (note_new (lit ''disowned event for unknown order '' @ as_str c)))
       (request Positions)"

text \<open>A streamed event of an order the book knows, and the reconciliation it may ask for.\<close>

definition apply_streamed :: "client_order_id \<Rightarrow> order_event \<Rightarrow> reconcile_cause \<Rightarrow> unit engine_op" where
  "apply_streamed c event cause = op_read (\<lambda>e.
     if \<not> is_some (book_order (en_book e) c) then disown c
     else let trace_id = trace_of e c in
       op_bind (write_event c trace_id event) (\<lambda>outcome.
         case outcome of NeedsReconciliation _ \<Rightarrow> begin_reconcile c trace_id cause | _ \<Rightarrow> op_ok ()))"

definition on_streamed :: "venue_event \<Rightarrow> unit engine_op" where
  "on_streamed event =
     (case event of
        VMark instrument price \<Rightarrow> op_seq (write_record (Mark instrument price)) (op_ok ())
      | VBalance asset amount \<Rightarrow> op_seq (write_record (Balance asset amount)) (op_ok ())
      | VFill c exec_id qty price \<Rightarrow> op_read (\<lambda>e.
          if is_some (book_fill (en_book e) exec_id) then op_ok ()
          else apply_streamed c (FillReceived exec_id qty price) LateFill)
      | VCancelConfirmed c \<Rightarrow> apply_streamed c CancelConfirmed LateCancelConfirm)"

definition has_never_traded :: "book \<Rightarrow> instrument \<Rightarrow> bool" where
  "has_never_traded b i \<longleftrightarrow>
     e8_is_zero (ps_qty (book_position b i)) \<and>
     \<not> list_ex (\<lambda>o'. oc_instrument (od_core o') = i) (book_orders b) \<and>
     \<not> list_ex (\<lambda>f. fl_instrument f = i) (all_fills b)"

definition intent_error_text :: "intent_error \<Rightarrow> str" where
  "intent_error_text e =
     (case e of
        NonPositiveQty \<Rightarrow> lit ''intent qty must be positive''
      | NonPositivePrice \<Rightarrow> lit ''prices must be positive''
      | StopLimitUnsupported \<Rightarrow> lit ''stop-limit is not supported: set a stop price or a limit price''
      | EmptyIdempotencyKey \<Rightarrow> lit ''idempotency key must be non-empty''
      | MissingPrice kind \<Rightarrow> wire_as_str order_kind_table kind @ lit '' requires a price'')"

definition adoption_trace :: "epoch \<Rightarrow> trace_id" where
  "adoption_trace epoch = push_bit 64 ADOPTION_TRACE_MARKER OR ucast epoch"

text \<open>What an adoption writes, once the position has been described as an intent.\<close>

definition adopt_records :: "economic_order_intent \<Rightarrow> exec_id \<Rightarrow> qty \<Rightarrow> price \<Rightarrow> unit engine_op" where
  "adopt_records intent exec_id reported_qty price =
     (let c = in_client_order_id intent; t = in_trace_id intent; qty = in_qty intent in
      op_seq (write_record (IntentPersisted intent))
     (op_seq (write_event c t (ReconcileStarted PositionDisagreement))
     (op_seq (write_event c t (FillReceived exec_id qty price))
     (op_seq (write_event c t (ReconcileResolved Filled None qty))
       (decide (in_instrument intent) Reconciler EntryPlaced t reported_qty
         (note_new (lit ''adopted '' @ format_e8 reported_qty @ lit '' held at the venue, booked at '' @
           format_e8 price)))))))"

definition adopt_position :: "venue_position \<Rightarrow> unit engine_op" where
  "adopt_position reported = op_read (\<lambda>e.
     let instrument = vp_instrument reported;
         side = (if e8_is_positive (vp_qty reported) then Buy else Sell);
         qty = e8_abs (vp_qty reported);
         price = (case vp_entry_price reported of Some p \<Rightarrow> p
                  | None \<Rightarrow> (case book_mark (en_book e) instrument of Some p \<Rightarrow> p | None \<Rightarrow> e8_zero));
         epoch = jn_epoch (en_journal e);
         suffix = 45 # dec (unat epoch) in
     op_bind (or_panic (str_prefix (min (inline_len instrument) 20) (as_str instrument))) (\<lambda>head.
       let name = lit ''ADOPT-'' @ head @ suffix in
       case intent_market (inline_or_default 36 name) instrument side qty Entry (adoption_trace epoch) of
         Inl err \<Rightarrow> on_halt (note_new (as_str instrument @ lit '': cannot adopt '' @ format_e8 (vp_qty reported) @
             lit '': '' @ intent_error_text err))
       | Inr intent \<Rightarrow> adopt_records intent (inline_or_default 40 name) (vp_qty reported) price))"

text \<open>The text of a deferred disagreement holds an em dash, three bytes.\<close>

definition on_reported_position :: "bool \<Rightarrow> venue_position \<Rightarrow> unit engine_op" where
  "on_reported_position first_report reported = op_read (\<lambda>e.
     let i = vp_instrument reported; ours = ps_qty (book_position (en_book e) i);
         differs = lit ''venue holds '' @ format_e8 (vp_qty reported) @ lit '', book holds '' @ format_e8 ours in
     if ours = vp_qty reported then op_ok ()
     else if first_report \<and> has_never_traded (en_book e) i then adopt_position reported
     else if live_orders_on (en_book e) i \<noteq> []
     then decide i Reconciler ReconcileScheduled 0 (vp_qty reported)
       (note_new (differs @ lit '', an order is in flight '' @ [226, 128, 148] @ lit '' deferred to the next sweep''))
     else op_seq (decide i Reconciler ReconcileScheduled 0 (vp_qty reported) (note_new differs))
       (on_halt (note_new (as_str i @ lit '' position diverged: venue '' @ format_e8 (vp_qty reported) @
         lit '', book '' @ format_e8 ours))))"

definition on_positions :: "venue_position option list \<Rightarrow> unit engine_op" where
  "on_positions positions = op_read (\<lambda>e.
     let first_report = \<not> en_position_confirmed e in
     op_seq (op_modify (\<lambda>e. e\<lparr>en_position_confirmed := True\<rparr>))
       (op_for (on_reported_position first_report) (filter_map (\<lambda>x. x) positions)))"

definition sweep_one :: "client_order_id \<Rightarrow> unit engine_op" where
  "sweep_one c = op_read (\<lambda>e.
     if hm_contains (en_reconciling e) c then op_ok ()
     else begin_reconcile c (trace_of e c) StaleSweep)"

definition on_sweep :: "unit engine_op" where
  "on_sweep =
     op_seq (request Positions)
       (op_read (\<lambda>e. op_for sweep_one (stale_orders (en_book e) (cf_stale_after_nanos (en_config e)))))"

definition submit :: "command \<Rightarrow> unit engine_op" where
  "submit command =
     (case command of
        Tick now \<Rightarrow> on_tick now
      | Place intent \<Rightarrow> on_place intent
      | CancelOrder c trace_id \<Rightarrow> on_cancel c trace_id
      | Submitted c outcome \<Rightarrow> on_submitted c outcome
      | Cancelled c outcome \<Rightarrow> on_cancelled c outcome
      | LookedUp c outcome \<Rightarrow> on_looked_up c outcome
      | Streamed event \<Rightarrow> on_streamed event
      | PositionsReported positions \<Rightarrow> on_positions positions
      | SweepStale \<Rightarrow> on_sweep
      | Halt text_note \<Rightarrow> on_halt text_note
      | Resume text_note \<Rightarrow> on_resume text_note
      | Decide actor instrument kind trace_id val text_note \<Rightarrow>
          decide instrument actor kind trace_id val text_note)"

definition engine_flush :: "os \<Rightarrow> venue_request list engine_op" where
  "engine_flush os =
     op_seq (on_journal (journal_flush os))
       (\<lambda>e. (Inr (en_uncommitted e), e\<lparr>en_uncommitted := []\<rparr>))"

text \<open>
  The execution id of a correction keeps only what fits of the client order id. Two orders that agree in their first
  27 bytes and were both found filled for a quantity of eight digits get the same id, so the book takes the second
  correction for a repetition of the first.
\<close>

lemma reconciliation_ids_collide:
  "\<exists>c c'. inline_new 36 (replicate 28 65 @ [66]) = Inr c \<and> inline_new 36 (replicate 28 65 @ [67]) = Inr c' \<and> c \<noteq> c' \<and>
     reconciliation_exec_id c 10000000 = reconciliation_exec_id c' 10000000"
proof -
  let ?c = "inline_or_default 36 (replicate 28 65 @ [66])" and ?c' = "inline_or_default 36 (replicate 28 65 @ [67])"
  have new: "inline_new 36 (replicate 28 65 @ [66]) = Inr ?c" "inline_new 36 (replicate 28 65 @ [67]) = Inr ?c'" "?c \<noteq> ?c'"
    by code_simp+
  have d: "dec_i64 10000000 = [49, 48, 48, 48, 48, 48, 48, 48]" by (simp add: dec_i64_def dec.simps)
  have "str_prefix (min (inline_len ?c) 27) (as_str ?c) = str_prefix (min (inline_len ?c') 27) (as_str ?c')" by code_simp
  then have "reconciliation_exec_id ?c 10000000 = reconciliation_exec_id ?c' 10000000" by (simp add: reconciliation_exec_id_def Let_def d)
  then show ?thesis using new by blast
qed

end
