(* ===== verification/Runs.thy ===== *)
theory Runs
  imports Engine
begin

text \<open>
  Runs of the writer: what every handler of the engine keeps, and what holds over any sequence of commands
  and flushes. The locales \<open>write_closed\<close> and \<open>request_closed\<close> carry a relation between engine states from
  the primitive steps (a write, a flag, a request) to the handlers; each property of a run is an
  interpretation of them.
\<close>

subsection \<open>What handlers keep\<close>

text \<open>
  A relation between engine states that every write keeps, and setting the two flags keeps, is kept by
  every handler that only writes.
\<close>

locale write_closed =
  fixes R :: "engine \<Rightarrow> engine \<Rightarrow> bool"
  assumes pre: "preorder_rel R"
    and writes: "keeps R (write_at now r)"
    and flag_halted: "R e (e\<lparr>en_halted := x\<rparr>)"
    and flag_confirmed: "R e (e\<lparr>en_position_confirmed := x\<rparr>)"
begin

lemma k_ok: "keeps R (op_ok x)" by (rule keeps_ok [OF pre])
lemma k_err: "keeps R (op_err x)" by (rule keeps_err [OF pre])
lemma k_seq: "keeps R m \<Longrightarrow> keeps R n \<Longrightarrow> keeps R (op_seq m n)" by (rule keeps_seq [OF pre])
lemma k_bind: "keeps R m \<Longrightarrow> (\<And>x. keeps R (f x)) \<Longrightarrow> keeps R (op_bind m f)" by (rule keeps_bind [OF pre])
lemma k_for: "(\<And>x. keeps R (f x)) \<Longrightarrow> keeps R (op_for f xs)" by (rule keeps_for [OF pre])
lemmas k_read = keeps_read_all [of R]

lemma write_record: "keeps R (write_record r)"
  unfolding write_record_def by (intro k_read writes)

lemma write_event: "keeps R (write_event c t ev)"
  unfolding write_event_def by (intro k_read write_record)

lemma decide: "keeps R (decide i a k t v n)"
  unfolding decide_def by (intro k_seq write_record k_ok)

lemma on_halt: "keeps R (on_halt n)"
  unfolding on_halt_def
  by (rule k_read) (auto intro!: k_ok k_seq decide keeps_modify flag_halted)

lemma on_resume: "keeps R (on_resume n)"
  unfolding on_resume_def
  by (rule k_read) (auto intro!: k_ok k_seq decide keeps_modify flag_halted)

lemma ensure_reconciling: "keeps R (ensure_reconciling c t cause)"
  unfolding ensure_reconciling_def
  by (rule k_read) (auto intro!: k_ok k_seq k_read decide write_event split: option.splits)

lemma or_panic: "keeps R (or_panic x)"
  by (cases x) (auto simp: or_panic_def intro: k_ok k_err)

lemma book_the_difference: "keeps R (book_the_difference c t q p)"
  unfolding book_the_difference_def Let_def
  by (rule k_read) (auto intro!: k_ok k_seq k_bind or_panic decide write_event on_halt split: option.split)

lemma authorise_writes:
  "keeps R (op_seq (write_record r) (op_seq (write_event c t ev) (decide i a k t' v n)))"
  by (intro k_seq write_record write_event decide)

lemma refuse: "keeps R (refuse i r)"
  unfolding refuse_def by (rule decide)

lemma adopt_records: "keeps R (adopt_records i x q p)"
  unfolding adopt_records_def Let_def by (intro k_seq write_record write_event decide)

lemma adopt_position: "keeps R (adopt_position p)"
  unfolding adopt_position_def Let_def
  by (rule k_read, rule k_bind, rule or_panic) (auto intro: on_halt adopt_records split: sum.split)

lemma on_reported_position: "keeps R (on_reported_position b p)"
  unfolding on_reported_position_def Let_def
  by (rule k_read) (auto intro!: k_ok k_seq decide on_halt adopt_position)

lemma on_positions: "keeps R (on_positions ps)"
  unfolding on_positions_def Let_def
  by (intro k_read k_seq keeps_modify flag_confirmed k_for on_reported_position)

end

lemma write_at_fields:
  "en_reconciling (snd (write_at now r e)) = en_reconciling e" "en_config (snd (write_at now r e)) = en_config e"
  "en_uncommitted (snd (write_at now r e)) = en_uncommitted e" "en_halted (snd (write_at now r e)) = en_halted e"
  "en_position_confirmed (snd (write_at now r e)) = en_position_confirmed e"
  by (simp_all add: write_at_def on_journal_def on_book_def op_defs split: prod.splits sum.splits)

interpretation keep_reconciling: write_closed "same_of en_reconciling"
  by unfold_locales (auto simp: keeps_def same_of_def write_at_fields)

interpretation keep_config: write_closed "same_of en_config"
  by unfold_locales (auto simp: keeps_def same_of_def write_at_fields)

interpretation keep_uncommitted: write_closed "same_of en_uncommitted"
  by unfold_locales (auto simp: keeps_def same_of_def write_at_fields)

text \<open>
  A relation that also admits requests other than submissions, and a lookup exactly when none is under way
  for its order, is kept by every command but a placement and the answer to a lookup.
\<close>

definition flying :: "client_order_id \<Rightarrow> engine \<Rightarrow> bool" where
  "flying c e = is_some_and pd_in_flight (hm_get (en_reconciling e) c)"

definition ask :: "venue_request \<Rightarrow> engine \<Rightarrow> engine" where
  "ask r e = e\<lparr>en_uncommitted := en_uncommitted e @ [r]\<rparr>"

definition plain :: "command \<Rightarrow> bool" where
  "plain command = (case command of Place _ \<Rightarrow> False | LookedUp _ _ \<Rightarrow> False | _ \<Rightarrow> True)"

locale request_closed = write_closed +
  assumes asking: "(\<And>i. r \<noteq> Submit i) \<Longrightarrow> (\<And>c. r \<noteq> Lookup c) \<Longrightarrow> R e (ask r e)"
    and looking_up: "\<not> flying c e \<Longrightarrow> pd_in_flight p \<Longrightarrow>
      R e (ask (Lookup c) (e\<lparr>en_reconciling := hm_insert c p (en_reconciling e)\<rparr>))"
    and retrying: "keeps R (retry_due_reconciliations now)"
begin

lemma request: "(\<And>i. r \<noteq> Submit i) \<Longrightarrow> (\<And>c. r \<noteq> Lookup c) \<Longrightarrow> keeps R (request r)"
  unfolding request_def by (rule keeps_modify) (use asking in \<open>auto simp: ask_def\<close>)

lemma begin_reconcile: "keeps R (begin_reconcile c t cause)"
  unfolding keeps_def
proof
  fix e
  let ?m = "ensure_reconciling c t cause"
  have R1: "R e (snd (?m e))" and same: "en_reconciling (snd (?m e)) = en_reconciling e"
    using ensure_reconciling [of c t cause] keep_reconciling.ensure_reconciling [of c t cause]
    by (simp_all add: keeps_def same_of_def)
  show "R e (snd (begin_reconcile c t cause e))"
  proof (cases "hm_get (en_reconciling e) c")
    case None
    show ?thesis
    proof (cases "fst (?m e)")
      case (Inl f)
      then show ?thesis using R1 None by (simp add: begin_reconcile_def op_defs prod.case_eq_if)
    next
      case (Inr u)
      let ?e = "snd (?m e)"
      let ?p = "\<lparr>pd_retry_at = bk_now (en_book ?e), pd_backoff = cf_reconcile_backoff_nanos (en_config ?e), pd_in_flight = True\<rparr>"
      have "R ?e (ask (Lookup c) (?e\<lparr>en_reconciling := hm_insert c ?p (en_reconciling ?e)\<rparr>))"
        using looking_up [of c ?e ?p] None same by (simp add: flying_def)
      moreover have "snd (begin_reconcile c t cause e) = ask (Lookup c) (?e\<lparr>en_reconciling := hm_insert c ?p (en_reconciling ?e)\<rparr>)"
        using None Inr by (simp add: begin_reconcile_def request_def ask_def op_defs prod.case_eq_if)
      ultimately show ?thesis using R1 pre by (auto simp: preorder_rel_def dest: transpD)
    qed
  next
    case (Some p)
    then show ?thesis using k_ok [of "()"] by (simp add: begin_reconcile_def op_defs keeps_def)
  qed
qed

lemma on_tick: "keeps R (on_tick now)"
  unfolding on_tick_def by (rule k_read) (auto intro!: k_ok k_seq writes retrying)

lemma on_cancel: "keeps R (on_cancel c t)"
  unfolding keeps_def
proof
  fix e
  have R1: "R e (snd (write_event c t CancelRequested e))" using write_event by (simp add: keeps_def)
  moreover have "R e' (snd (request (Cancel c v) e'))" for e' v using request [of "Cancel c v"] by (simp add: keeps_def)
  ultimately have "R e (snd (request (Cancel c v) (snd (write_event c t CancelRequested e))))" for v
    using pre by (auto simp: preorder_rel_def dest: transpD)
  moreover have "R e e" using pre by (auto simp: preorder_rel_def dest: reflpD)
  ultimately show "R e (snd (on_cancel c t e))"
    using R1 by (auto simp: on_cancel_def op_defs split: prod.split sum.split option.split)
qed

lemma on_submitted: "keeps R (on_submitted c o')"
  unfolding on_submitted_def Let_def
  by (rule k_read) (auto intro!: k_ok k_seq write_event begin_reconcile split: submit_outcome.split)

lemma on_cancelled: "keeps R (on_cancelled c o')"
  unfolding on_cancelled_def by (rule k_read) (auto intro!: k_ok begin_reconcile split: cancel_outcome.split)

lemma disown: "keeps R (disown c)"
  unfolding disown_def by (intro k_seq decide request) auto

lemma apply_streamed: "keeps R (apply_streamed c ev cause)"
  unfolding apply_streamed_def Let_def
  by (rule k_read) (auto intro!: k_ok k_bind disown write_event begin_reconcile split: applied.split)

lemma on_streamed: "keeps R (on_streamed ev)"
  unfolding on_streamed_def
  by (auto intro!: k_ok k_seq k_read write_record apply_streamed split: venue_event.split)

lemma on_sweep: "keeps R on_sweep"
  unfolding on_sweep_def sweep_one_def
  by (intro k_seq request k_read k_for) (auto intro!: k_ok begin_reconcile)

lemma on_looked_up:
  assumes forget: "\<And>e. R e (e\<lparr>en_reconciling := hm_remove c (en_reconciling e)\<rparr>)"
    and postpone: "\<And>e. R e (defer_reconcile c e)"
  shows "keeps R (on_looked_up c o')"
  unfolding on_looked_up_def Let_def forget_reconciliation_def
  by (rule k_read)
    (auto intro!: k_seq ensure_reconciling book_the_difference write_event keeps_modify forget postpone
      split: lookup_outcome.split)

lemma on_place:
  assumes "\<And>i e. R e (ask (Submit i) e)"
  shows "keeps R (on_place i)"
proof -
  have "keeps R (request (Submit j))" for j
    unfolding request_def by (rule keeps_modify) (use assms in \<open>auto simp: ask_def\<close>)
  then have "keeps R (authorise j)" for j
    unfolding authorise_def by (intro k_seq write_record write_event decide)
  then show ?thesis
    unfolding on_place_def Let_def
    by (intro k_read) (auto intro!: k_ok k_seq begin_reconcile refuse decide split: option.split verdict.split)
qed

lemma submit_plain: "plain command \<Longrightarrow> keeps R (submit command)"
  by (cases command)
    (auto simp: submit_def plain_def intro: on_tick on_cancel on_submitted on_cancelled on_streamed on_positions
      on_sweep on_halt on_resume decide)

end

subsection \<open>The log and the requests\<close>

text \<open>A journal is sound, or has failed for good.\<close>

definition journal_state :: "journal \<Rightarrow> bool" where
  "journal_state j \<longleftrightarrow> journal_ok j \<or> is_poisoned j"

definition log_grows :: "journal \<Rightarrow> journal \<Rightarrow> bool" where
  "log_grows j j' \<longleftrightarrow>
     (journal_ok j \<longrightarrow> journal_ok j' \<and> durable_frames j' = durable_frames j \<and>
        (\<exists>fs. pending_frames j' = pending_frames j @ fs)) \<and>
     (is_poisoned j \<longrightarrow> j' = j)"

lemma log_grows_pre: "log_grows j j" "log_grows j j' \<Longrightarrow> log_grows j' j'' \<Longrightarrow> log_grows j j''"
  by (auto simp: log_grows_def)

lemma append_grows: "log_grows j (snd (journal_append kind now payload j))"
proof (cases "jn_poisoned j = None \<and> length payload \<le> MAX_PAYLOAD")
  case True
  then show ?thesis
    using append_ok [of j payload kind now] by (auto simp: log_grows_def is_poisoned_def)
next
  case False
  then have "snd (journal_append kind now payload j) = j"
    by (auto simp: journal_append_def split: option.splits)
  then show ?thesis by (simp add: log_grows_pre)
qed

lemma write_at_journal:
  "en_journal (snd (write_at now r e)) = snd (journal_append (Records.record_kind r) now (record_encode r) (en_journal e))"
  by (simp add: write_at_def on_journal_def on_book_def op_defs split: prod.splits sum.splits)

text \<open>The orders a book knows only grow.\<close>

definition known :: "book \<Rightarrow> client_order_id set" where
  "known b = {c. hm_get (bk_orders b) c \<noteq> None}"

lemma book_apply_known: "known b \<subseteq> known (snd (book_apply h r b :: (journal_error ledger_error + applied) \<times> book))"
proof -
  have "known b \<subseteq> known (snd (book_record_fill h c o' ev b :: (journal_error ledger_error + unit) \<times> book))" for c o' ev b
    by (cases ev) (auto simp: book_record_fill_def op_defs known_def Let_def split: prod.splits)
  moreover have "known b \<subseteq> known (snd (book_store_order h c n ev b :: (journal_error ledger_error + applied) \<times> book))" for c n ev b
    by (auto simp: book_store_order_def op_defs known_def Let_def split: option.splits)
  ultimately have "known b \<subseteq> known (snd (op_seq (book_record_fill h c o' ev) (book_store_order h c n ev) b
      :: (journal_error ledger_error + applied) \<times> book))" for c o' ev n b
    by (auto simp: op_seq_def op_bind_def split: prod.split sum.split) (metis snd_conv subsetD)+
  then have "known b \<subseteq> known (snd (apply_order_event h c f g ev b :: (journal_error ledger_error + applied) \<times> book))" for c f g ev b
    by (cases rule: apply_order_event_cases [of h c f g ev b, where 'j = journal_error]) auto
  moreover have "known b = known (book_stamp h b)" by (simp add: known_def book_stamp_def)
  ultimately show ?thesis
    unfolding book_apply_def op_seq_modify
    by (cases r) (auto simp: apply_record_def apply_intent_def op_defs known_def split: decision_kind.splits)
qed

lemma write_at_book:
  "en_book (snd (write_at now r e)) =
     (case fst (journal_append (Records.record_kind r) now (record_encode r) (en_journal e)) of
        Inl _ \<Rightarrow> en_book e
      | Inr seq \<Rightarrow> snd (book_apply (write_header (snd (journal_append (Records.record_kind r) now (record_encode r) (en_journal e))) seq now r) r (en_book e)
          :: (journal_error ledger_error + applied) \<times> book))"
  by (simp add: write_at_def on_journal_def on_book_def op_defs split: prod.splits sum.splits)

lemma write_at_known: "known (en_book e) \<subseteq> known (en_book (snd (write_at now r e)))"
  by (auto simp: write_at_book split: sum.splits intro: subsetD [OF book_apply_known])

definition submits :: "venue_request list \<Rightarrow> economic_order_intent list" where
  "submits rs = List.map_filter (\<lambda>r. case r of Submit i \<Rightarrow> Some i | _ \<Rightarrow> None) rs"

lemma submits_simps [simp]:
  "submits [] = []" "submits (Submit i # rs) = i # submits rs" "submits (rs @ rs') = submits rs @ submits rs'"
  "submits (Lookup c # rs) = submits rs" "submits (Cancel c v # rs) = submits rs" "submits (Positions # rs) = submits rs"
  by (simp_all add: submits_def List.map_filter_simps map_filter_def)

lemma submits_other: "(\<And>i. r \<noteq> Submit i) \<Longrightarrow> submits [r] = []"
  by (cases r) auto

text \<open>What every command but a placement does to the log, the orders and the submissions.\<close>

definition calm :: "engine \<Rightarrow> engine \<Rightarrow> bool" where
  "calm e e' \<longleftrightarrow> log_grows (en_journal e) (en_journal e') \<and> known (en_book e) \<subseteq> known (en_book e') \<and>
     submits (en_uncommitted e') = submits (en_uncommitted e)"

lemma calm_pre: "preorder_rel calm"
  by (auto simp: preorder_rel_def reflp_def transp_def calm_def intro: log_grows_pre)

lemma calm_eq:
  "en_journal e' = en_journal e \<Longrightarrow> en_book e' = en_book e \<Longrightarrow>
   submits (en_uncommitted e') = submits (en_uncommitted e) \<Longrightarrow> calm e e'"
  by (simp add: calm_def log_grows_pre)

lemma retry_one_calm: "keeps calm (retry_one c)"
  unfolding keeps_def retry_one_def
  by (auto simp: op_defs request_def intro!: calm_eq split: option.split)

interpretation calm: request_closed calm
proof unfold_locales
  show "preorder_rel calm" by (rule calm_pre)
  show "keeps calm (write_at now r)" for now r
    by (simp add: keeps_def calm_def write_at_journal append_grows write_at_known write_at_fields)
  show "keeps calm (retry_due_reconciliations now)" for now
    unfolding retry_due_reconciliations_def by (intro keeps_read_all keeps_for calm_pre retry_one_calm)
qed (auto intro!: calm_eq simp: ask_def submits_other)

lemma looked_up_calm: "keeps calm (on_looked_up c o')"
  by (rule calm.on_looked_up) (auto intro!: calm_eq simp: defer_reconcile_def split: option.split)

definition logged :: "economic_order_intent \<Rightarrow> frame list \<Rightarrow> bool" where
  "logged i fs \<longleftrightarrow> (\<exists>f \<in> set fs. fh_kind (fst f) = KIntentPersisted \<and> snd f = record_encode (IntentPersisted i))"

text \<open>A placement submits at most once, for an order that was not known, and only after its intent is in the log.\<close>

definition placed :: "economic_order_intent \<Rightarrow> engine \<Rightarrow> engine \<Rightarrow> bool" where
  "placed i e e' \<longleftrightarrow>
     log_grows (en_journal e) (en_journal e') \<and> known (en_book e) \<subseteq> known (en_book e') \<and>
     in_client_order_id i \<notin> known (en_book e) \<and> in_client_order_id i \<in> known (en_book e') \<and>
     submits (en_uncommitted e') = submits (en_uncommitted e) @ [i] \<and>
     (journal_ok (en_journal e) \<longrightarrow> logged i (pending_frames (en_journal e')))"

lemma write_intent:
  assumes "write_record (IntentPersisted i) e = (Inr x, e')"
  shows "in_client_order_id i \<in> known (en_book e')"
    "journal_ok (en_journal e) \<Longrightarrow> logged i (pending_frames (en_journal e'))"
proof -
  let ?p = "record_encode (IntentPersisted i)" and ?now = "bk_now (en_book e)"
  let ?ap = "journal_append KIntentPersisted ?now ?p (en_journal e)"
  have wr: "write_at ?now (IntentPersisted i) e = (Inr x, e')"
    using assms by (simp add: write_record_def op_read_def)
  then show "in_client_order_id i \<in> known (en_book e')"
    by (auto simp: write_at_def on_journal_def on_book_def op_defs book_apply_def apply_record_def apply_intent_def
        known_def book_stamp_def split: prod.splits sum.splits if_splits)
  have j: "en_journal e' = snd ?ap" using write_at_journal [of ?now "IntentPersisted i" e] wr by simp
  have "\<exists>y. fst ?ap = Inr y"
    using wr by (auto simp: write_at_def on_journal_def op_defs split: prod.splits sum.splits)
  moreover assume ok: "journal_ok (en_journal e)"
  ultimately have "length ?p \<le> MAX_PAYLOAD"
    by (auto simp: journal_append_def journal_ok_def split: if_splits)
  then show "logged i (pending_frames (en_journal e'))"
    using append_ok(3) [OF ok] j by (auto simp: logged_def append_header_def)
qed

lemma logged_grows:
  "log_grows j j' \<Longrightarrow> journal_ok j \<Longrightarrow> logged i (pending_frames j) \<Longrightarrow> logged i (pending_frames j')"
  by (auto simp: log_grows_def logged_def)

lemma authorise_placed:
  assumes "in_client_order_id i \<notin> known (en_book e)"
  shows "calm e (snd (authorise i e)) \<or> placed i e (snd (authorise i e))"
proof (cases "write_record (IntentPersisted i) e")
  case (Pair r e1)
  define rest where "rest = op_seq (write_event (in_client_order_id i) (in_trace_id i) SubmissionStarted)
    (decide (in_instrument i) (if opens_exposure i then Gateway else Protection)
        (if opens_exposure i then EntryPlaced else ExitPlaced) (in_trace_id i) (in_qty i)
        (note_new (wire_as_str side_table (in_side i) @ lit '' '' @ format_e8 (in_qty i) @ lit '' '' @ as_str (in_instrument i))))"
  have auth: "authorise i = op_seq (write_record (IntentPersisted i)) (op_seq rest (request (Submit i)))"
    by (simp add: authorise_def rest_def op_seq_def op_bind_assoc)
  have c1: "calm e e1" using calm.write_record Pair by (metis keepsD)
  have rest: "keeps calm rest" unfolding rest_def by (intro calm.k_seq calm.write_event calm.decide)
  show ?thesis
  proof (cases r)
    case (Inl f)
    then show ?thesis using c1 Pair by (simp add: auth op_seq_def op_bind_def)
  next
    case (Inr x)
    obtain r2 e2 where r2: "rest e1 = (r2, e2)" by fastforce
    have c2: "calm e1 e2" using rest r2 by (metis keepsD)
    show ?thesis
    proof (cases r2)
      case (Inl f)
      then have "snd (authorise i e) = e2" using Pair Inr r2 by (simp add: auth op_seq_def op_bind_def)
      then show ?thesis using c1 c2 calm_pre by (auto simp: preorder_rel_def dest: transpD)
    next
      case (Inr y)
      then have "snd (authorise i e) = ask (Submit i) e2"
        using Pair \<open>r = Inr x\<close> r2 by (simp add: auth op_seq_def op_bind_def request_def ask_def op_modify_def)
      moreover have wi: "in_client_order_id i \<in> known (en_book e1)"
        "journal_ok (en_journal e) \<Longrightarrow> logged i (pending_frames (en_journal e1))"
        using write_intent [of i e x e1] Pair \<open>r = Inr x\<close> by auto
      moreover have "journal_ok (en_journal e) \<Longrightarrow> journal_ok (en_journal e1)"
        using c1 by (simp add: calm_def log_grows_def)
      ultimately show ?thesis
        using c1 c2 assms logged_grows [of "en_journal e1" "en_journal e2" i]
        by (auto simp: placed_def calm_def ask_def intro: log_grows_pre)
    qed
  qed
qed

lemma decide_orders: "decide i a k t v n e = (Inr u, e') \<Longrightarrow> bk_orders (en_book e') = bk_orders (en_book e)"
  by (auto simp: decide_def write_record_def write_at_def on_journal_def on_book_def op_defs book_apply_def
      apply_record_def book_stamp_def split: prod.splits sum.splits decision_kind.splits)

lemma place_outcome:
  "calm e (snd (on_place i e)) \<or>
   (\<exists>i'. in_client_order_id i' = in_client_order_id i \<and> placed i' e (snd (on_place i e)))"
proof (cases "book_order (en_book e) (in_client_order_id i)")
  case (Some o')
  then show ?thesis
    using calm.begin_reconcile calm_eq [of e e] by (simp add: on_place_def op_read_def keeps_def op_ok_def)
next
  case None
  then have new: "in_client_order_id i \<notin> known (en_book e)" by (simp add: known_def book_order_def)
  let ?v = "evaluate (en_book e) i ((cf_limits (en_config e))\<lparr>lm_position_confirmed := en_position_confirmed e\<rparr>) (en_halted e)"
  show ?thesis
  proof (cases ?v)
    case Allow
    then show ?thesis using authorise_placed [OF new] None by (auto simp: on_place_def op_read_def)
  next
    case (Refuse r)
    then show ?thesis using calm.refuse None by (simp add: on_place_def op_read_def keeps_def)
  next
    case (Clamp q)
    let ?d = "decide (in_instrument i) Guards ExitClamped (in_trace_id i) q
        (note_new (lit ''exit '' @ format_e8 (in_qty i) @ lit '' clamped to '' @ format_e8 q))"
    have eq: "on_place i e = op_seq ?d (authorise (i\<lparr>in_qty := q\<rparr>)) e"
      using Clamp None by (simp add: on_place_def op_read_def Let_def)
    obtain r e1 where r: "?d e = (r, e1)" by fastforce
    have c: "calm e e1" using calm.decide r by (metis keepsD)
    show ?thesis
    proof (cases r)
      case (Inl f)
      then show ?thesis using c r eq by (simp add: op_seq_def op_bind_def)
    next
      case (Inr u)
      have "bk_orders (en_book e1) = bk_orders (en_book e)" using decide_orders r Inr by blast
      then have "in_client_order_id (i\<lparr>in_qty := q\<rparr>) \<notin> known (en_book e1)" using new by (simp add: known_def)
      from authorise_placed [OF this] show ?thesis
      proof
        assume "calm e1 (snd (authorise (i\<lparr>in_qty := q\<rparr>) e1))"
        then have "calm e (snd (authorise (i\<lparr>in_qty := q\<rparr>) e1))"
          using c calm_pre by (auto simp: preorder_rel_def dest: transpD)
        then show ?thesis using eq r Inr by (simp add: op_seq_def op_bind_def)
      next
        assume "placed (i\<lparr>in_qty := q\<rparr>) e1 (snd (authorise (i\<lparr>in_qty := q\<rparr>) e1))"
        then have "placed (i\<lparr>in_qty := q\<rparr>) e (snd (authorise (i\<lparr>in_qty := q\<rparr>) e1))"
          using c new by (auto simp: placed_def calm_def log_grows_def intro: log_grows_pre)
        then show ?thesis using eq r Inr
          by (intro disjI2 exI [of _ "i\<lparr>in_qty := q\<rparr>"]) (simp add: op_seq_def op_bind_def)
      qed
    qed
  qed
qed

subsection \<open>Runs of the writer\<close>

text \<open>
  What the writer thread does with its engine, in any order: submit a command, whatever that returns, and
  flush, handing the released requests on.
\<close>

datatype action = Do command | Flush os

definition act :: "action \<Rightarrow> engine \<Rightarrow> engine \<times> venue_request list" where
  "act a e =
     (case a of
        Do command \<Rightarrow> (snd (submit command e), [])
      | Flush os \<Rightarrow> (case engine_flush os e of (Inl _, e') \<Rightarrow> (e', []) | (Inr rs, e') \<Rightarrow> (e', rs)))"

inductive executes :: "engine \<Rightarrow> action list \<Rightarrow> engine \<Rightarrow> venue_request list \<Rightarrow> bool" for e0 where
  start: "executes e0 [] e0 []"
| more: "executes e0 as e rs \<Longrightarrow> act a e = (e', new) \<Longrightarrow> executes e0 (as @ [a]) e' (rs @ new)"

inductive_cases executes_snocE: "executes e0 (as @ [a]) e rs"

lemma executes_total: "\<exists>e rs. executes e0 as e rs"
proof (induction as rule: rev_induct)
  case Nil
  then show ?case by (blast intro: executes.start)
next
  case (snoc a as)
  then show ?case by (metis executes.more prod.collapse)
qed

lemma submit_outcome:
  "calm e (snd (submit command e)) \<or> (\<exists>i. placed i e (snd (submit command e)))"
proof (cases "plain command")
  case True
  then show ?thesis using calm.submit_plain by (simp add: keeps_def)
next
  case False
  then consider i where "command = Place i" | c o' where "command = LookedUp c o'"
    by (cases command) (auto simp: plain_def)
  then show ?thesis
  proof cases
    case (1 i)
    then show ?thesis using place_outcome [of e i] by (auto simp: submit_def)
  next
    case (2 c o')
    then show ?thesis using looked_up_calm by (simp add: submit_def keeps_def)
  qed
qed

lemma poison_final [simp]: "is_poisoned (poison d j)" "\<not> journal_ok (poison d j)"
  by (simp_all add: is_poisoned_def poison_def journal_ok_def)

lemma flush_state:
  assumes "journal_state j"
  shows "journal_state (snd (journal_flush os j))"
    "set (durable_frames j) \<subseteq> set (durable_frames (snd (journal_flush os j)))"
    "journal_ok (snd (journal_flush os j)) \<Longrightarrow> journal_ok j \<and> set (pending_frames j) \<subseteq> set (durable_frames (snd (journal_flush os j)))"
proof -
  let ?j = "snd (journal_flush os j)"
  have "journal_state ?j \<and> set (durable_frames j) \<subseteq> set (durable_frames ?j) \<and>
    (journal_ok ?j \<longrightarrow> journal_ok j \<and> set (pending_frames j) \<subseteq> set (durable_frames ?j))"
  proof (cases "journal_ok j")
    case ok: True
    show ?thesis
    proof (cases "pending_frames j = [] \<or> os_write os = None \<and> os_sync os")
      case True
      then have "pending_frames j = [] \<Longrightarrow> ?j = j" using ok by (simp add: journal_flush_def journal_ok_def)
      then show ?thesis using True flush_ok(1,2) [OF ok, of os] ok by (auto simp: journal_state_def)
    next
      case False
      then obtain doing where "journal_flush os j = (Inl (JIo doing), poison doing ?j)"
        using flush_failed [OF ok, of os] by blast
      then have eq: "?j = poison doing ?j" by (metis snd_conv)
      have "is_poisoned ?j" "\<not> journal_ok ?j" by (subst eq, simp)+
      moreover obtain k where "durable_frames ?j = durable_frames j @ take k (pending_frames j)"
        using wal.flush_any [OF ok, of os] by auto
      ultimately show ?thesis by (simp add: journal_state_def)
    qed
  next
    case False
    then have "is_poisoned j" using assms by (simp add: journal_state_def)
    then have "?j = j" by (auto simp: journal_flush_def is_poisoned_def split: option.splits)
    then show ?thesis using assms False by simp
  qed
  then show "journal_state ?j" "set (durable_frames j) \<subseteq> set (durable_frames ?j)"
    "journal_ok ?j \<Longrightarrow> journal_ok j \<and> set (pending_frames j) \<subseteq> set (durable_frames ?j)" by auto
qed

text \<open>What holds at every moment of a run: of what was released, of what waits, and of the log.\<close>

definition accounted :: "engine \<Rightarrow> venue_request list \<Rightarrow> bool" where
  "accounted e rs \<longleftrightarrow> journal_state (en_journal e) \<and>
     (\<forall>i \<in> set (submits rs). logged i (durable_frames (en_journal e))) \<and>
     (journal_ok (en_journal e) \<longrightarrow> (\<forall>i \<in> set (submits (en_uncommitted e)).
        logged i (durable_frames (en_journal e) @ pending_frames (en_journal e)))) \<and>
     distinct (map in_client_order_id (submits rs @ submits (en_uncommitted e))) \<and>
     in_client_order_id ` set (submits rs @ submits (en_uncommitted e)) \<subseteq> known (en_book e)"

lemma logged_mono: "logged i fs \<Longrightarrow> set fs \<subseteq> set gs \<Longrightarrow> logged i gs"
  by (auto simp: logged_def)

lemma logged_append [simp]: "logged i (fs @ gs) \<longleftrightarrow> logged i fs \<or> logged i gs"
  by (auto simp: logged_def)

lemma log_grows_state:
  "log_grows j j' \<Longrightarrow> journal_state j \<Longrightarrow>
     journal_state j' \<and> durable_frames j' = durable_frames j \<and> (journal_ok j' \<longrightarrow> journal_ok j) \<and>
     (journal_ok j \<longrightarrow> set (pending_frames j) \<subseteq> set (pending_frames j'))"
  by (auto simp: log_grows_def journal_state_def journal_ok_def is_poisoned_def)

lemma accounted_calm:
  assumes "accounted e rs" "calm e e'"
  shows "accounted e' rs"
proof -
  have g: "journal_state (en_journal e')" "durable_frames (en_journal e') = durable_frames (en_journal e)"
    "journal_ok (en_journal e') \<Longrightarrow> journal_ok (en_journal e)"
    "journal_ok (en_journal e) \<Longrightarrow> set (pending_frames (en_journal e)) \<subseteq> set (pending_frames (en_journal e'))"
    using log_grows_state [of "en_journal e" "en_journal e'"] assms by (auto simp: accounted_def calm_def)
  have "logged i (durable_frames (en_journal e)) \<or> logged i (pending_frames (en_journal e'))"
    if "journal_ok (en_journal e')" "i \<in> set (submits (en_uncommitted e))" for i
    using assms(1) that g(3) logged_mono [OF _ g(4)] by (auto simp: accounted_def)
  then show ?thesis using assms g by (auto simp: accounted_def calm_def)
qed

lemma accounted_placed:
  assumes "accounted e rs" "placed i e e'"
  shows "accounted e' rs"
proof -
  have g: "journal_state (en_journal e')" "durable_frames (en_journal e') = durable_frames (en_journal e)"
    "journal_ok (en_journal e') \<Longrightarrow> journal_ok (en_journal e)"
    "journal_ok (en_journal e) \<Longrightarrow> set (pending_frames (en_journal e)) \<subseteq> set (pending_frames (en_journal e'))"
    using log_grows_state [of "en_journal e" "en_journal e'"] assms by (auto simp: accounted_def placed_def)
  have "logged j (durable_frames (en_journal e') @ pending_frames (en_journal e'))"
    if "journal_ok (en_journal e')" "j \<in> set (submits (en_uncommitted e'))" for j
  proof (cases "j \<in> set (submits (en_uncommitted e))")
    case True
    then have "logged j (durable_frames (en_journal e)) \<or> logged j (pending_frames (en_journal e))"
      using assms(1) g(3) that(1) by (simp add: accounted_def)
    then show ?thesis using g(2) logged_mono [OF _ g(4)] g(3) that(1) by auto
  next
    case False
    then have "j = i" using that(2) assms(2) by (simp add: placed_def)
    then have "logged j (pending_frames (en_journal e'))" using assms(2) g(3) that(1) by (simp add: placed_def)
    then show ?thesis by (rule logged_mono) auto
  qed
  moreover have "in_client_order_id i \<notin> in_client_order_id ` set (submits rs @ submits (en_uncommitted e))"
    using assms by (auto simp: accounted_def placed_def)
  ultimately show ?thesis using assms g by (auto simp: accounted_def placed_def)
qed

lemma engine_flush_eq:
  "engine_flush os e =
     (let (r, j) = journal_flush os (en_journal e) in
      case r of Inl x \<Rightarrow> (Inl (Failed (EJournal x)), e\<lparr>en_journal := j\<rparr>)
      | Inr _ \<Rightarrow> (Inr (en_uncommitted e), e\<lparr>en_journal := j, en_uncommitted := []\<rparr>))"
  by (auto simp: engine_flush_def on_journal_def op_defs map_err_def split: prod.splits sum.splits)

lemma accounted_flush:
  assumes "accounted e rs" "act (Flush os) e = (e', new)"
  shows "accounted e' (rs @ new)"
proof -
  obtain r j where fl: "journal_flush os (en_journal e) = (r, j)" by fastforce
  have st: "journal_state (en_journal e)" using assms(1) by (simp add: accounted_def)
  note f = flush_state [OF st, of os, unfolded fl snd_conv]
  show ?thesis
  proof (cases r)
    case (Inl x)
    then have "e' = e\<lparr>en_journal := j\<rparr>" "new = []" using assms(2) fl by (auto simp: act_def engine_flush_eq)
    then show ?thesis
      using assms(1) f(1) logged_mono [OF _ f(2)] f(3) logged_mono [of _ "pending_frames (en_journal e)" "durable_frames j"]
      by (simp add: accounted_def) blast
  next
    case (Inr s)
    then have e': "e' = e\<lparr>en_journal := j, en_uncommitted := []\<rparr>" "new = en_uncommitted e"
      using assms(2) fl by (auto simp: act_def engine_flush_eq)
    have ok: "journal_ok (en_journal e)"
    proof (rule ccontr)
      assume "\<not> journal_ok (en_journal e)"
      then have "is_poisoned (en_journal e)" using st by (simp add: journal_state_def)
      then show False using fl Inr by (auto simp: journal_flush_def is_poisoned_def split: option.splits)
    qed
    have "durable_frames j = durable_frames (en_journal e) @ pending_frames (en_journal e)"
      using flush_Inr_ok [OF ok] fl Inr by blast
    then show ?thesis using assms(1) f(1) ok e' by (auto simp: accounted_def)
  qed
qed

lemma executes_accounted:
  "executes e0 as e rs \<Longrightarrow> journal_ok (en_journal e0) \<Longrightarrow> en_uncommitted e0 = [] \<Longrightarrow> accounted e rs"
proof (induction rule: executes.induct)
  case start
  then show ?case by (simp add: accounted_def journal_state_def)
next
  case (more as e rs a e' new)
  show ?case
  proof (cases a)
    case (Do command)
    then have "e' = snd (submit command e)" "new = []" using more.hyps(2) by (auto simp: act_def)
    moreover have "accounted e rs" by (rule more.IH [OF more.prems])
    ultimately have "accounted e' rs" using submit_outcome [of e command] accounted_calm accounted_placed by blast
    then show ?thesis using \<open>new = []\<close> by simp
  next
    case (Flush os)
    then show ?thesis using accounted_flush more by blast
  qed
qed

text \<open>What a run submits was not known to the book it started from.\<close>

lemma executes_fresh:
  "executes e0 as e rs \<Longrightarrow> en_uncommitted e0 = [] \<Longrightarrow>
   known (en_book e0) \<subseteq> known (en_book e) \<and>
   in_client_order_id ` set (submits (rs @ en_uncommitted e)) \<inter> known (en_book e0) = {}"
proof (induction rule: executes.induct)
  case (more as e rs a e' new)
  note IH = more.IH [OF more.prems]
  show ?case
  proof (cases a)
    case (Do command)
    then have e': "e' = snd (submit command e)" "new = []" using more.hyps(2) by (auto simp: act_def)
    from submit_outcome [of e command] consider "calm e e'" | i where "placed i e e'" using e' by blast
    then show ?thesis
      using IH e'(2) by cases (auto simp: calm_def placed_def)
  next
    case (Flush os)
    then show ?thesis
      using more.hyps(2) IH by (auto simp: act_def engine_flush_eq disjoint_iff split: prod.splits sum.splits)
  qed
qed simp

subsection \<open>Properties\<close>

definition sample_engine :: engine where
  "sample_engine = \<lparr>en_journal = sample_journal, en_book = book_new, en_config = config_default, en_uncommitted = [],
     en_reconciling = [], en_halted = False, en_position_confirmed = True\<rparr>"

lemma sample_engine_simps [simp]:
  "en_journal sample_engine = sample_journal" "en_uncommitted sample_engine = []" "en_reconciling sample_engine = []"
  "en_book sample_engine = book_new" "en_config sample_engine = config_default"
  by (simp_all add: sample_engine_def)

text \<open>
  C6: an order is submitted at most once. Over any sequence of commands and flushes, whatever was placed
  again, timed out or failed in between, no two submissions handed out carry the same client order id.
\<close>

theorem at_most_one_submission:
  assumes "journal_ok (en_journal e0)" "en_uncommitted e0 = []" "executes e0 as e rs"
  shows "distinct (map in_client_order_id (submits (rs @ en_uncommitted e))) \<and>
    (\<forall>i \<in> set (submits (rs @ en_uncommitted e)). book_order (en_book e) (in_client_order_id i) \<noteq> None)"
  using executes_accounted [OF assms(3,1,2)] by (auto simp: accounted_def known_def book_order_def)

text \<open>The example run: an order is placed twice and flushed.\<close>

definition sample_actions :: "action list" where
  "sample_actions = [Do (Place sample_intent), Do (Place sample_intent), Flush sample_os]"

theorem at_most_one_submission_witness:
  "\<exists>e rs. executes sample_engine sample_actions e rs \<and>
     distinct (map in_client_order_id (submits (rs @ en_uncommitted e)))"
proof -
  obtain e rs where run: "executes sample_engine sample_actions e rs" using executes_total by blast
  show ?thesis using at_most_one_submission [OF _ _ run] sample_journal_ok(1) run by auto
qed

end
