(* ===== verification/Reconcile.thy ===== *)
theory Reconcile
  imports Runs
begin

text \<open>
  Pacing of reconciliations (\<open>begin_reconcile\<close>, \<open>defer_reconcile\<close>, \<open>retry_due_reconciliations\<close> in
  \<open>sentinel-engine/src/engine.rs\<close>).

  Shown here: at most one lookup of an order is outstanding, whatever triggers fire; the waits between
  unanswered lookups double up to the cap; and a lookup whose answer never arrives is never repeated.
\<close>

definition lookups :: "client_order_id \<Rightarrow> venue_request list \<Rightarrow> nat" where
  "lookups c rs = length (filter (\<lambda>r. r = Lookup c) rs)"

lemma lookups_simps [simp]:
  "lookups c [] = 0" "lookups c (rs @ rs') = lookups c rs + lookups c rs'"
  "lookups c (r # rs) = (if r = Lookup c then Suc (lookups c rs) else lookups c rs)"
  by (simp_all add: lookups_def)

definition in_air :: "client_order_id \<Rightarrow> engine \<Rightarrow> nat" where
  "in_air c e = (if flying c e then 1 else 0)"

text \<open>Every new lookup is one that is now in flight and was not.\<close>

definition paced :: "engine \<Rightarrow> engine \<Rightarrow> bool" where
  "paced e e' \<longleftrightarrow> (hm_wf (en_reconciling e) \<longrightarrow> hm_wf (en_reconciling e') \<and>
     (\<forall>c. lookups c (en_uncommitted e') + in_air c e \<le> lookups c (en_uncommitted e) + in_air c e'))"

lemma paced_trans:
  assumes "paced e e'" "paced e' e''"
  shows "paced e e''"
  unfolding paced_def
proof (intro impI conjI allI)
  assume wf: "hm_wf (en_reconciling e)"
  then show "hm_wf (en_reconciling e'')" using assms by (simp add: paced_def)
  fix c
  have "lookups c (en_uncommitted e') + in_air c e \<le> lookups c (en_uncommitted e) + in_air c e'"
    "lookups c (en_uncommitted e'') + in_air c e' \<le> lookups c (en_uncommitted e') + in_air c e''"
    using wf assms by (simp_all add: paced_def)
  then show "lookups c (en_uncommitted e'') + in_air c e \<le> lookups c (en_uncommitted e) + in_air c e''" by linarith
qed

lemma paced_same: "en_reconciling e' = en_reconciling e \<Longrightarrow> en_uncommitted e' = en_uncommitted e \<Longrightarrow> paced e e'"
  by (simp add: paced_def in_air_def flying_def)

lemma paced_pre: "preorder_rel paced"
  by (auto simp: preorder_rel_def reflp_def transp_def intro: paced_same paced_trans)

lemma paced_lookup:
  "\<not> flying c e \<Longrightarrow> pd_in_flight p \<Longrightarrow>
   paced e (ask (Lookup c) (e\<lparr>en_reconciling := hm_insert c p (en_reconciling e)\<rparr>))"
  by (auto simp: paced_def in_air_def flying_def ask_def)

lemma retry_one_eq:
  "hm_get (en_reconciling e) c = Some p \<Longrightarrow>
   retry_one c e = (Inr (), ask (Lookup c) (e\<lparr>en_reconciling := hm_insert c (p\<lparr>pd_in_flight := True\<rparr>) (en_reconciling e)\<rparr>))"
  by (simp add: retry_one_def op_defs request_def ask_def)

lemma retry_all_paced:
  "distinct cs \<Longrightarrow> \<forall>c \<in> set cs. \<exists>p. hm_get (en_reconciling e) c = Some p \<and> \<not> pd_in_flight p \<Longrightarrow>
   paced e (snd (op_for retry_one cs e))"
proof (induction cs arbitrary: e)
  case Nil
  then show ?case by (simp add: op_ok_def paced_same)
next
  case (Cons c cs)
  then obtain p where p: "hm_get (en_reconciling e) c = Some p" "\<not> pd_in_flight p" by auto
  let ?e = "ask (Lookup c) (e\<lparr>en_reconciling := hm_insert c (p\<lparr>pd_in_flight := True\<rparr>) (en_reconciling e)\<rparr>)"
  have "paced e ?e" using p by (intro paced_lookup) (simp_all add: flying_def)
  moreover have "paced ?e (snd (op_for retry_one cs ?e))"
    using Cons.prems by (intro Cons.IH) (auto simp: ask_def)
  ultimately have "paced e (snd (op_for retry_one cs ?e))" by (rule paced_trans)
  then show ?case using retry_one_eq [OF p(1)] by (simp add: op_seq_def op_bind_def)
qed

lemma due_ok:
  assumes "hm_wf (en_reconciling e)"
  shows "distinct (due_reconciliations e now)"
    "c \<in> set (due_reconciliations e now) \<Longrightarrow> \<exists>p. hm_get (en_reconciling e) c = Some p \<and> \<not> pd_in_flight p"
proof -
  have "distinct (map fst (filter (\<lambda>(_, p). \<not> pd_in_flight p \<and> pd_retry_at p \<le> now) (en_reconciling e)))"
    using assms unfolding hm_wf_def by (rule distinct_map_filter)
  then show "distinct (due_reconciliations e now)" by (simp add: due_reconciliations_def)
  show "c \<in> set (due_reconciliations e now) \<Longrightarrow> \<exists>p. hm_get (en_reconciling e) c = Some p \<and> \<not> pd_in_flight p"
    using assms by (auto simp: due_reconciliations_def hm_wf_def hm_get_def)
qed

interpretation paced: request_closed paced
proof unfold_locales
  show "preorder_rel paced" by (rule paced_pre)
  show "keeps paced (write_at now r)" for now r by (auto simp: keeps_def write_at_fields intro!: paced_same)
  show "keeps paced (retry_due_reconciliations now)" for now
    unfolding keeps_def
  proof
    fix e
    show "paced e (snd (retry_due_reconciliations now e))"
    proof (cases "hm_wf (en_reconciling e)")
      case True
      then show ?thesis using retry_all_paced due_ok by (simp add: retry_due_reconciliations_def op_read_def)
    next
      case False
      then show ?thesis by (simp add: paced_def)
    qed
  qed
  show "paced e (ask (Lookup c) (e\<lparr>en_reconciling := hm_insert c p (en_reconciling e)\<rparr>))"
    if "\<not> flying c e" "pd_in_flight p" for c e p using that by (rule paced_lookup)
  show "paced e (ask r e)" if "\<And>i. r \<noteq> Submit i" "\<And>c. r \<noteq> Lookup c" for r e
    using that by (auto simp: paced_def ask_def in_air_def flying_def)
qed (auto intro!: paced_same)

lemma paced_place: "keeps paced (on_place i)"
  by (rule paced.on_place) (simp add: paced_def ask_def in_air_def flying_def)

text \<open>The answer to a lookup asks for nothing and at most ends the wait for it.\<close>

definition dropped :: "client_order_id \<Rightarrow> engine \<Rightarrow> engine \<Rightarrow> bool" where
  "dropped c e e' \<longleftrightarrow> en_uncommitted e' = en_uncommitted e \<and>
     (\<forall>d. d \<noteq> c \<longrightarrow> hm_get (en_reconciling e') d = hm_get (en_reconciling e) d) \<and>
     (hm_wf (en_reconciling e) \<longrightarrow> hm_wf (en_reconciling e'))"

interpretation dropped: write_closed "dropped c" for c
proof unfold_locales
  show "preorder_rel (dropped c)" by (auto simp: preorder_rel_def reflp_def transp_def dropped_def)
qed (auto simp: keeps_def dropped_def write_at_fields)

lemma looked_up_dropped: "dropped c e (snd (on_looked_up c o' e))"
proof -
  have "keeps (dropped c) (on_looked_up c o')"
    unfolding on_looked_up_def Let_def forget_reconciliation_def
    by (rule keeps_read_all)
      (auto intro!: dropped.k_seq dropped.ensure_reconciling dropped.book_the_difference dropped.write_event keeps_modify
        simp: dropped_def defer_reconcile_def split: lookup_outcome.split option.split)
  then show ?thesis by (simp add: keeps_def)
qed

lemma submit_paced:
  assumes "hm_wf (en_reconciling e)"
  shows "hm_wf (en_reconciling (snd (submit command e))) \<and>
    lookups c (en_uncommitted (snd (submit command e))) + in_air c e \<le>
      lookups c (en_uncommitted e) + in_air c (snd (submit command e)) +
      (case command of LookedUp d _ \<Rightarrow> if d = c then 1 else 0 | _ \<Rightarrow> 0)"
proof (cases "\<exists>d o'. command = LookedUp d o'")
  case True
  then obtain d o' where cmd: "command = LookedUp d o'" by blast
  have "dropped d e (snd (submit command e))" using looked_up_dropped by (simp add: cmd submit_def)
  then show ?thesis using assms by (auto simp: cmd dropped_def in_air_def flying_def)
next
  case False
  have "keeps paced (submit command)"
  proof (cases "plain command")
    case True
    then show ?thesis by (rule paced.submit_plain)
  next
    case False
    then show ?thesis using \<open>\<not> (\<exists>d o'. command = LookedUp d o')\<close> paced_place
      by (cases command) (auto simp: plain_def submit_def)
  qed
  then have "paced e (snd (submit command e))" by (simp add: keeps_def)
  then show ?thesis using assms False by (auto simp: paced_def split: command.split)
qed

fun answers :: "client_order_id \<Rightarrow> action list \<Rightarrow> nat" where
  "answers c [] = 0"
| "answers c (Do (LookedUp d _) # as) = (if d = c then 1 else 0) + answers c as"
| "answers c (_ # as) = answers c as"

lemma answers_snoc: "answers c (as @ [a]) = answers c as + answers c [a]"
  by (induction c as rule: answers.induct) auto

lemma executes_paced:
  assumes "executes e0 as e rs" "hm_wf (en_reconciling e0)"
  shows "hm_wf (en_reconciling e) \<and>
    lookups c (rs @ en_uncommitted e) + in_air c e0 \<le> lookups c (en_uncommitted e0) + in_air c e + answers c as"
  using assms
proof (induction rule: executes.induct)
  case start
  then show ?case by simp
next
  case (more as e rs a e' new)
  then have IH: "hm_wf (en_reconciling e)"
    "lookups c (rs @ en_uncommitted e) + in_air c e0 \<le> lookups c (en_uncommitted e0) + in_air c e + answers c as" by auto
  show ?case
  proof (cases a)
    case (Do command)
    then have e': "e' = snd (submit command e)" "new = []" using more.hyps(2) by (auto simp: act_def)
    have "answers c [a] = (case command of LookedUp d _ \<Rightarrow> if d = c then 1 else 0 | _ \<Rightarrow> 0)"
      unfolding Do by (cases command) auto
    then show ?thesis using IH submit_paced [OF IH(1), of command c] e' by (simp add: answers_snoc)
  next
    case (Flush os)
    obtain r j where "journal_flush os (en_journal e) = (r, j)" by fastforce
    then have "en_reconciling e' = en_reconciling e \<and> new @ en_uncommitted e' = en_uncommitted e"
      using more.hyps(2) Flush by (cases r) (auto simp: act_def engine_flush_eq)
    moreover from this have "in_air c e' = in_air c e" "lookups c new + lookups c (en_uncommitted e') = lookups c (en_uncommitted e)"
      by (simp add: in_air_def flying_def) (metis calculation lookups_simps(2))
    ultimately show ?thesis using IH Flush by (simp add: answers_snoc)
  qed
qed

subsection \<open>Properties\<close>

text \<open>
  C27: no queue storm. Over any run, however many timeouts, sweeps, late events and replays ask for it, the
  number of lookups of one order that were handed out or wait is at most one more than the number of answers
  received for it.
\<close>

theorem one_lookup_outstanding:
  assumes "executes e0 as e rs" "hm_wf (en_reconciling e0)" "en_uncommitted e0 = []"
  shows "lookups c (rs @ en_uncommitted e) \<le> answers c as + 1"
proof -
  have "in_air c e \<le> 1" by (simp add: in_air_def)
  then show ?thesis using executes_paced [OF assms(1,2), of c] assms(3) by simp
qed

theorem one_lookup_outstanding_witness:
  "\<exists>e rs. executes sample_engine [Do SweepStale, Do (Tick 7), Do SweepStale, Flush sample_os] e rs \<and>
     lookups (in_client_order_id sample_intent) (rs @ en_uncommitted e) \<le> 1"
proof -
  obtain e rs where run: "executes sample_engine [Do SweepStale, Do (Tick 7), Do SweepStale, Flush sample_os] e rs"
    using executes_total by blast
  show ?thesis using one_lookup_outstanding [OF run, of "in_client_order_id sample_intent"] run by auto
qed

text \<open>
  A lookup whose answer never arrives is never repeated. While a lookup is marked as in flight, no run of
  commands and flushes that brings no answer for it, ticks and sweeps included, asks for that order again.
\<close>

theorem unanswered_lookup_is_never_repeated:
  assumes "executes e as e' rs" "hm_wf (en_reconciling e)" "hm_get (en_reconciling e) c = Some p" "pd_in_flight p"
    "answers c as = 0"
  shows "lookups c (rs @ en_uncommitted e') \<le> lookups c (en_uncommitted e)"
proof -
  have "in_air c e = 1" "in_air c e' \<le> 1" using assms(3,4) by (simp_all add: in_air_def flying_def)
  then show ?thesis using executes_paced [OF assms(1,2), of c] assms(5) by simp
qed

theorem unanswered_lookup_is_never_repeated_witness:
  "\<exists>e rs. executes (sample_engine\<lparr>en_reconciling := [(in_client_order_id sample_intent,
       \<lparr>pd_retry_at = 0, pd_backoff = 1, pd_in_flight = True\<rparr>)]\<rparr>) [Do (Tick 9), Do SweepStale, Do (Tick 99), Flush sample_os] e rs \<and>
     lookups (in_client_order_id sample_intent) (rs @ en_uncommitted e) = 0"
proof -
  let ?e = "sample_engine\<lparr>en_reconciling := [(in_client_order_id sample_intent,
       \<lparr>pd_retry_at = 0, pd_backoff = 1, pd_in_flight = True\<rparr>)]\<rparr>"
  obtain e rs where run: "executes ?e [Do (Tick 9), Do SweepStale, Do (Tick 99), Flush sample_os] e rs"
    using executes_total by blast
  show ?thesis
    using unanswered_lookup_is_never_repeated [OF run, of "in_client_order_id sample_intent"] run
    by (auto simp: hm_wf_def hm_get_def)
qed

lemma unat_saturating_double:
  "unat (min (saturating_mul_u64 b 2) cap) = min (2 * unat b) (unat cap)"
proof -
  have top: "unat (- 1 :: u64) = 2 ^ 64 - 1" by (simp add: unsigned_minus_1_eq_mask mask_eq_exp_minus_1)
  have "unat (saturating_mul_u64 b 2) = min (2 * unat b) (2 ^ 64 - 1)"
  proof (cases "unat b * 2 < 2 ^ 64")
    case True
    then have "uint b * 2 < 2 ^ 64" by (metis (mono_tags) of_nat_less_iff of_nat_mult of_nat_numeral of_nat_power of_nat_unat)
    then show ?thesis using True unat_mult_lem [of b 2] by (simp add: saturating_mul_u64_def mult.commute)
  next
    case False
    then have "\<not> uint b * 2 < 2 ^ 64" by (metis (mono_tags) of_nat_less_iff of_nat_mult of_nat_numeral of_nat_power of_nat_unat)
    then show ?thesis using False top by (simp add: saturating_mul_u64_def)
  qed
  moreover have "unat cap \<le> 2 ^ 64 - 1" using unsigned_less [of cap, where 'a = nat] by simp
  ultimately show ?thesis by (simp add: min_def word_le_nat_alt)
qed

text \<open>
  The waits double up to the cap. After n unanswered lookups in a row, each of which was recorded, the
  order waits for its first delay doubled n times, or the cap if that is less.
\<close>

theorem backoff_doubles_to_the_cap:
  assumes "hm_get (en_reconciling e) c = Some p" "0 < n"
  shows "\<exists>p'. hm_get (en_reconciling ((defer_reconcile c ^^ n) e)) c = Some p' \<and> \<not> pd_in_flight p' \<and>
    unat (pd_backoff p') = min (unat (pd_backoff p) * 2 ^ n) (unat (cf_reconcile_backoff_cap_nanos (en_config e))) \<and>
    (\<forall>d. d \<noteq> c \<longrightarrow> hm_get (en_reconciling ((defer_reconcile c ^^ n) e)) d = hm_get (en_reconciling e) d)"
  using assms(2)
proof (induction n rule: nat_induct_non_zero)
  case 1
  then show ?case using assms(1) by (simp add: defer_reconcile_def unat_saturating_double)
next
  case (Suc n)
  then obtain q where q: "hm_get (en_reconciling ((defer_reconcile c ^^ n) e)) c = Some q"
    "unat (pd_backoff q) = min (unat (pd_backoff p) * 2 ^ n) (unat (cf_reconcile_backoff_cap_nanos (en_config e)))"
    "\<forall>d. d \<noteq> c \<longrightarrow> hm_get (en_reconciling ((defer_reconcile c ^^ n) e)) d = hm_get (en_reconciling e) d" by blast
  have cfg: "en_config ((defer_reconcile c ^^ k) e) = en_config e" for k
    by (induction k) (simp_all add: defer_reconcile_def split: option.split)
  have "min (2 * min (unat (pd_backoff p) * 2 ^ n) cap) cap = min (unat (pd_backoff p) * 2 ^ Suc n) cap" for cap
    by (auto simp: min_def)
  then show ?case using q cfg [of n] by (simp add: defer_reconcile_def [of c "(defer_reconcile c ^^ n) e"] unat_saturating_double)
qed

theorem backoff_doubles_to_the_cap_witness:
  "\<exists>p'. hm_get (en_reconciling ((defer_reconcile (in_client_order_id sample_intent) ^^ 7)
      (sample_engine\<lparr>en_reconciling := [(in_client_order_id sample_intent,
        \<lparr>pd_retry_at = 0, pd_backoff = 1000000000, pd_in_flight = True\<rparr>)]\<rparr>))) (in_client_order_id sample_intent) = Some p' \<and>
    unat (pd_backoff p') = 60000000000"
  using backoff_doubles_to_the_cap [of "sample_engine\<lparr>en_reconciling := [(in_client_order_id sample_intent,
        \<lparr>pd_retry_at = 0, pd_backoff = 1000000000, pd_in_flight = True\<rparr>)]\<rparr>" "in_client_order_id sample_intent"
      "\<lparr>pd_retry_at = 0, pd_backoff = 1000000000, pd_in_flight = True\<rparr>" 7]
  by (auto simp: hm_get_def config_default_def)

end
