(* ===== verification/Strings.thy ===== *)
theory Strings
  imports Codec
begin

text \<open>
  What the process uses of the standard library's string functions, on the UTF-8 bytes of the text: trimming
  white space, parsing the integers, and splitting at an ASCII separator.

  Shown here: an integer that was printed is parsed back, with or without a newline behind it, at every width;
  and the pieces of a split put back together are the text.
\<close>

subsection \<open>Trimming\<close>

text \<open>The encodings of the characters of the Unicode property \<open>White_Space\<close>.\<close>

definition whitespace :: "str list" where
  "whitespace =
     [[9], [10], [11], [12], [13], [32], [0xC2, 0x85], [0xC2, 0xA0], [0xE1, 0x9A, 0x80],
      [0xE2, 0x80, 0x80], [0xE2, 0x80, 0x81], [0xE2, 0x80, 0x82], [0xE2, 0x80, 0x83], [0xE2, 0x80, 0x84],
      [0xE2, 0x80, 0x85], [0xE2, 0x80, 0x86], [0xE2, 0x80, 0x87], [0xE2, 0x80, 0x88], [0xE2, 0x80, 0x89],
      [0xE2, 0x80, 0x8A], [0xE2, 0x80, 0xA8], [0xE2, 0x80, 0xA9], [0xE2, 0x80, 0xAF], [0xE2, 0x81, 0x9F],
      [0xE3, 0x80, 0x80]]"

text \<open>\<open>strip ws s\<close> drops words of \<open>ws\<close> from the front of \<open>s\<close> for as long as there is one.\<close>

function strip :: "str list \<Rightarrow> str \<Rightarrow> str" where
  "strip ws s =
     (case find (\<lambda>w. w \<noteq> [] \<and> take (length w) s = w) ws of
        None \<Rightarrow> s | Some w \<Rightarrow> strip ws (drop (length w) s))"
  by pat_completeness auto
termination
proof (relation "measure (\<lambda>(ws, s). length s)", goal_cases)
  case (2 ws s w)
  then have "w \<noteq> []" "take (length w) s = w" by (auto simp: find_Some_iff)
  then show ?case by (cases s) auto
qed simp

declare strip.simps [simp del]

definition trim_start :: "str \<Rightarrow> str" where
  "trim_start = strip whitespace"

definition trim_end :: "str \<Rightarrow> str" where
  "trim_end s = rev (strip (map rev whitespace) (rev s))"

definition trim :: "str \<Rightarrow> str" where
  "trim s = trim_end (trim_start s)"

subsection \<open>Parsing integers\<close>

fun parse_digits :: "nat \<Rightarrow> nat \<Rightarrow> str \<Rightarrow> nat option" where
  "parse_digits limit acc [] = Some acc"
| "parse_digits limit acc (d # ds) =
     (if \<not> is_ascii_digit d then None
      else let acc' = acc * 10 + nat (uint (d - 48))
           in if acc' > limit then None else parse_digits limit acc' ds)"

text \<open>\<open>str::parse\<close> at an unsigned type whose largest value is \<open>limit\<close>: a single \<open>+\<close> may lead.\<close>

definition parse_uint :: "nat \<Rightarrow> str \<Rightarrow> nat option" where
  "parse_uint limit s =
     (let digits = (case s of c # cs \<Rightarrow> if c = 43 then cs else s | [] \<Rightarrow> [])
      in if digits = [] then None else parse_digits limit 0 digits)"

definition parse_u64 :: "str \<Rightarrow> u64 option" where
  "parse_u64 s = map_option of_nat (parse_uint (2 ^ 64 - 1) s)"

definition parse_u32 :: "str \<Rightarrow> u32 option" where
  "parse_u32 s = map_option of_nat (parse_uint (2 ^ 32 - 1) s)"

definition parse_i64 :: "str \<Rightarrow> i64 option" where
  "parse_i64 s =
     (case s of [] \<Rightarrow> None
      | c # cs \<Rightarrow>
          if c = 45
          then (if cs = [] then None
                else map_option (\<lambda>n. word_of_int (- int n)) (parse_digits (2 ^ 63) 0 cs))
          else map_option of_nat (parse_uint (2 ^ 63 - 1) s))"

subsection \<open>Splitting\<close>

text \<open>\<open>str::split\<close> at one ASCII character: always at least one piece.\<close>

fun split_char :: "u8 \<Rightarrow> str \<Rightarrow> str list" where
  "split_char c [] = [[]]"
| "split_char c (b # bs) =
     (if b = c then [] # split_char c bs
      else case split_char c bs of p # ps \<Rightarrow> (b # p) # ps | [] \<Rightarrow> [[b]])"

text \<open>\<open>str::split_once\<close>.\<close>

definition split_once :: "u8 \<Rightarrow> str \<Rightarrow> (str \<times> str) option" where
  "split_once c s =
     (case dropWhile (\<lambda>b. b \<noteq> c) s of [] \<Rightarrow> None | _ # rest \<Rightarrow> Some (takeWhile (\<lambda>b. b \<noteq> c) s, rest))"

subsection \<open>Lemmas\<close>

lemma parse_digits_value:
  assumes "all_digits ds" "int acc * 10 ^ length ds + dval ds \<le> int limit"
  shows "parse_digits limit acc ds = Some (nat (int acc * 10 ^ length ds + dval ds))"
  using assms
proof (induction ds arbitrary: acc)
  case (Cons d ds)
  let ?acc = "acc * 10 + nat (uint (d - 48))"
  have eq: "int ?acc * 10 ^ length ds + dval ds = int acc * 10 ^ length (d # ds) + dval (d # ds)"
    by (simp add: algebra_simps)
  have "int ?acc \<le> int ?acc * 10 ^ length ds + dval ds" by (rule le_scaled) (simp_all add: dval_nonneg)
  then have "?acc \<le> limit" using Cons.prems(2) unfolding eq by linarith
  then show ?case using Cons.IH [of ?acc] Cons.prems unfolding eq by (simp add: Let_def)
qed simp

lemma parse_uint_dec: "n \<le> limit \<Longrightarrow> parse_uint limit (dec n) = Some n"
proof -
  assume n: "n \<le> limit"
  obtain d ds where dec: "dec n = d # ds" using dec_digits(3) [of n] by (cases "dec n") auto
  then have "d \<noteq> 43" using dec_digits(1) [of n] not_digit by auto
  then have "parse_uint limit (dec n) = parse_digits limit 0 (dec n)" by (simp add: parse_uint_def dec Let_def)
  also have "\<dots> = Some n" using parse_digits_value [OF dec_digits(1), of 0 n limit] n by (simp add: dec_digits(2))
  finally show ?thesis .
qed

lemma parse_u64_dec: "parse_u64 (dec (unat x)) = Some x"
proof -
  have "unat x \<le> 2 ^ 64 - 1" using unsigned_less [of x, where ?'a = nat] by simp
  then show ?thesis by (simp add: parse_u64_def parse_uint_dec)
qed

lemma parse_i64_dec: "parse_i64 (dec_i64 x) = Some x"
proof (cases "sint x < 0")
  case True
  have "dval (dec (nat (- sint x))) = - sint x" using True by (simp add: dec_digits(2))
  moreover have "- sint x \<le> 2 ^ 63" using sint_i64_range(1) [of x] by (simp add: i64_min_def)
  ultimately have "parse_digits (2 ^ 63) 0 (dec (nat (- sint x))) = Some (nat (- sint x))"
    using parse_digits_value [OF dec_digits(1), of 0 "nat (- sint x)" "2 ^ 63"] by simp
  then show ?thesis using True dec_digits(3) by (simp add: parse_i64_def dec_i64_def)
next
  case False
  obtain d ds where dec: "dec (nat (sint x)) = d # ds" using dec_digits(3) by (cases "dec (nat (sint x))") auto
  then have "d \<noteq> 45" using dec_digits(1) [of "nat (sint x)"] not_digit by auto
  moreover have "nat (sint x) \<le> 2 ^ 63 - 1" using sint_i64_range(2) [of x] False by (simp add: i64_max_def)
  then have "parse_uint (2 ^ 63 - 1) (dec (nat (sint x))) = Some (nat (sint x))" by (rule parse_uint_dec)
  moreover have "(of_nat (nat (sint x)) :: i64) = x" using False by (simp add: of_nat_nat)
  ultimately show ?thesis using False dec by (simp add: parse_i64_def dec_i64_def)
qed

text \<open>Digits are not white space, in either direction.\<close>

lemma strip_none: "\<forall>w \<in> set ws. w = [] \<or> take (length w) s \<noteq> w \<Longrightarrow> strip ws s = s"
  by (subst strip.simps) (auto split: option.split simp: find_Some_iff)

lemma digit_not_white:
  assumes "is_ascii_digit d" "w \<in> set whitespace" "w \<noteq> []"
  shows "hd w \<noteq> d" "last w \<noteq> d"
  using assms by (auto simp: whitespace_def is_ascii_digit_def)

lemma trim_line:
  assumes "all_digits ds" "ds \<noteq> []"
  shows "trim (ds @ [10]) = ds" "trim ds = ds"
proof -
  have pick: "take (length w) s \<noteq> w" if "w \<noteq> []" "s \<noteq> []" "hd w \<noteq> hd s" for w s :: str
    using that by (cases w; cases s) auto
  have fwd: "strip whitespace (ds @ t) = ds @ t" for t
    using assms digit_not_white [of "hd ds"] pick [of _ "ds @ t"]
    by (intro strip_none ballI) (cases ds, auto)
  have bwd: "strip (map rev whitespace) (rev ds) = rev ds"
  proof (intro strip_none ballI)
    fix v assume "v \<in> set (map rev whitespace)"
    then show "v = [] \<or> take (length v) (rev ds) \<noteq> v"
      using assms digit_not_white(2) [of "last ds" "rev v"] pick [of v "rev ds"]
      by (auto simp: hd_rev last_rev all_digits_def list_all_iff)
  qed
  have "find (\<lambda>w. w \<noteq> [] \<and> take (length w) (10 # rev ds) = w) (map rev whitespace) = Some [10]"
    by (simp add: whitespace_def)
  then have "strip (map rev whitespace) (10 # rev ds) = rev ds"
    using bwd by (subst strip.simps) simp
  then show "trim (ds @ [10]) = ds" by (simp add: trim_def trim_start_def trim_end_def fwd)
  show "trim ds = ds" using fwd [of "[]"] bwd by (simp add: trim_def trim_start_def trim_end_def)
qed

text \<open>The pieces between separators, put back together.\<close>

fun join :: "str \<Rightarrow> str list \<Rightarrow> str" where
  "join sep [] = []"
| "join sep [p] = p"
| "join sep (p # q # ps) = p @ sep @ join sep (q # ps)"

lemma split_char_join: "join [c] (split_char c s) = s \<and> split_char c s \<noteq> [] \<and> (\<forall>p \<in> set (split_char c s). c \<notin> set p)"
proof (induction s)
  case (Cons b bs)
  then obtain p ps where ps: "split_char c bs = p # ps" by (cases "split_char c bs") auto
  then show ?case using Cons by (cases ps) auto
qed simp

end
