(* ===== verification/Segments.thy ===== *)
theory Segments
  imports Journal Strings "HOL-Library.Multiset"
begin

text \<open>
  Names, listing and creation of segment files (\<open>sentinel-journal/src/segment.rs\<close>). A directory is what reading it delivers:
  its entries in any order, each a file name (if it is UTF-8) with the file, or an entry that could not be read.

  Shown here: the fixed width makes lexical order numeric order, a name is read back, and listing a directory
  delivers exactly its segments in sequence order, whatever else lies beside them and in whatever order the
  operating system names them; and a segment left without its whole header keeps any process from claiming the log.
\<close>

subsection \<open>Names\<close>

text \<open>\<open>{:016x}\<close>.\<close>

definition hex_char :: "nat \<Rightarrow> u8" where
  "hex_char d = (if d < 10 then 48 + of_nat d else 87 + of_nat d)"

fun hex_padded :: "nat \<Rightarrow> nat \<Rightarrow> str" where
  "hex_padded 0 n = []"
| "hex_padded (Suc w) n = hex_padded w (n div 16) @ [hex_char (n mod 16)]"

definition segment_name :: "seq \<Rightarrow> str" where
  "segment_name base = hex_padded 16 (unat base) @ lit ''.jrnl''"

text \<open>\<open>u64::from_str_radix(_, 16)\<close>: either case of the letters, and a single \<open>+\<close> may lead.\<close>

definition hex_value :: "u8 \<Rightarrow> nat option" where
  "hex_value c =
     (if 48 \<le> c \<and> c \<le> 57 then Some (unat (c - 48))
      else if 97 \<le> c \<and> c \<le> 102 then Some (unat (c - 87))
      else if 65 \<le> c \<and> c \<le> 70 then Some (unat (c - 55)) else None)"

fun parse_hex_digits :: "nat \<Rightarrow> str \<Rightarrow> nat option" where
  "parse_hex_digits acc [] = Some acc"
| "parse_hex_digits acc (c # cs) =
     (case hex_value c of
        None \<Rightarrow> None
      | Some d \<Rightarrow> if acc * 16 + d < 2 ^ 64 then parse_hex_digits (acc * 16 + d) cs else None)"

definition parse_hex_u64 :: "str \<Rightarrow> u64 option" where
  "parse_hex_u64 s =
     (let digits = (case s of c # cs \<Rightarrow> if c = 43 then cs else s | [] \<Rightarrow> [])
      in if digits = [] then None else map_option of_nat (parse_hex_digits 0 digits))"

definition strip_suffix :: "str \<Rightarrow> str \<Rightarrow> str option" where
  "strip_suffix suffix s =
     (let n = length s - length suffix
      in if length suffix \<le> length s \<and> drop n s = suffix then Some (take n s) else None)"

definition parse_segment_name :: "str \<Rightarrow> seq option" where
  "parse_segment_name name =
     (case strip_suffix (lit ''.jrnl'') name of
        None \<Rightarrow> None
      | Some stem \<Rightarrow> if length stem \<noteq> 16 then None else parse_hex_u64 stem)"

subsection \<open>Listing\<close>

definition listed :: "str option \<times> 'f \<Rightarrow> (seq \<times> 'f) option" where
  "listed entry =
     (case fst entry of
        None \<Rightarrow> None
      | Some name \<Rightarrow> (case parse_segment_name name of None \<Rightarrow> None | Some base \<Rightarrow> Some (base, snd entry)))"

fun read_entries :: "(str option \<times> 'f) option list \<Rightarrow> journal_error + (seq \<times> 'f) list" where
  "read_entries [] = Inr []"
| "read_entries (None # entries) = Inl (JIo ''read journal dir entry'')"
| "read_entries (Some entry # entries) =
     res_bind (read_entries entries) (\<lambda>found.
       Inr (case listed entry of None \<Rightarrow> found | Some segment \<Rightarrow> segment # found))"

definition list_segments :: "(str option \<times> 'f) option list option \<Rightarrow> journal_error + (seq \<times> 'f) list" where
  "list_segments dir =
     (case dir of
        None \<Rightarrow> Inl (JIo ''read journal dir'')
      | Some entries \<Rightarrow> res_bind (read_entries entries) (\<lambda>found. Inr (sort_key (\<lambda>(base, _). unat base) found)))"

subsection \<open>Lemmas\<close>

lemma hex_cases: "(d :: nat) < 16 \<Longrightarrow> d \<in> {0,1,2,3,4,5,6,7,8,9,10,11,12,13,14,15}"
  by (simp, presburger)

lemma hex_char_value: "d < 16 \<Longrightarrow> hex_value (hex_char d) = Some d"
proof -
  assume "d < 16"
  from hex_cases [OF this] show ?thesis by (elim insertE) (simp_all add: hex_char_def hex_value_def)
qed

lemma hex_char_less: "d < 16 \<Longrightarrow> e < 16 \<Longrightarrow> hex_char d < hex_char e \<longleftrightarrow> d < e"
proof -
  have mono: "unat (hex_char d) = (if d < 10 then 48 + d else 87 + d)" if "d < 16" for d
    using hex_cases [OF that] by (elim insertE) (simp_all add: hex_char_def)
  assume "d < 16" "e < 16"
  then show ?thesis by (auto simp: word_less_nat_alt mono)
qed

lemma hex_padded_length [simp]: "length (hex_padded w n) = w"
  by (induction w arbitrary: n) simp_all

lemma parse_hex_digits_append:
  "parse_hex_digits acc (xs @ ys) = Option.bind (parse_hex_digits acc xs) (\<lambda>acc. parse_hex_digits acc ys)"
  by (induction xs arbitrary: acc) (simp_all split: option.split)

lemma parse_hex_padded: "n < 16 ^ w \<Longrightarrow> w \<le> 16 \<Longrightarrow> parse_hex_digits 0 (hex_padded w n) = Some n"
proof (induction w arbitrary: n)
  case (Suc w)
  have n: "n div 16 < 16 ^ w" using Suc.prems(1) by (simp add: less_mult_imp_div_less mult.commute)
  have "(16::nat) ^ Suc w \<le> 16 ^ 16" using Suc.prems(2) by (intro power_increasing) simp_all
  then have "n < 2 ^ 64" using Suc.prems(1) by simp
  then show ?case using Suc.IH [OF n] Suc.prems(2) by (simp add: parse_hex_digits_append hex_char_value)
qed simp

lemma hex_padded_plus: "w > 0 \<Longrightarrow> hd (hex_padded w n) \<noteq> 43 \<and> hex_padded w n \<noteq> []"
proof (induction w arbitrary: n)
  case (Suc w)
  have "hex_char (n mod 16) \<noteq> 43" using hex_char_value [of "n mod 16"] by (auto simp: hex_value_def)
  then show ?case using Suc.IH [of "n div 16"] by (cases w) (auto simp: hd_append)
qed simp

lemma parse_segment_name_name: "parse_segment_name (segment_name base) = Some base"
proof -
  have "unat base < 16 ^ 16" using unsigned_less [of base, where ?'a = nat] by simp
  then have "parse_hex_digits 0 (hex_padded 16 (unat base)) = Some (unat base)" by (rule parse_hex_padded) simp
  moreover obtain c cs where "hex_padded 16 (unat base) = c # cs" "c \<noteq> 43"
    using hex_padded_plus [of 16 "unat base"] by (cases "hex_padded 16 (unat base)") auto
  ultimately have "parse_hex_u64 (hex_padded 16 (unat base)) = Some base" by (simp add: parse_hex_u64_def Let_def)
  then show ?thesis by (simp add: parse_segment_name_def segment_name_def strip_suffix_def Let_def)
qed

lemma read_entries_eq: "read_entries (map Some entries) = Inr (List.map_filter listed entries)"
  by (induction entries) (simp_all add: List.map_filter_simps split: option.split)

lemma lexordp_append:
  "length xs = length ys \<Longrightarrow>
   ord_class.lexordp (xs @ us) (ys @ vs) \<longleftrightarrow> ord_class.lexordp xs ys \<or> xs = ys \<and> ord_class.lexordp us (vs :: 'a :: linorder list)"
  by (induction rule: list_induct2) auto

lemma digits_less: "c < 16 \<Longrightarrow> d < 16 \<Longrightarrow> 16 * a + c < 16 * b + d \<longleftrightarrow> a < b \<or> a = b \<and> c < (d :: nat)"
  by (cases a b rule: linorder_cases) auto

lemma hex_padded_less:
  assumes "m < 16 ^ w" "n < 16 ^ w" "w \<le> 16"
  shows "ord_class.lexordp (hex_padded w m) (hex_padded w n) \<longleftrightarrow> m < n"
  using assms
proof (induction w arbitrary: m n)
  case (Suc w)
  have d: "m div 16 < 16 ^ w" "n div 16 < 16 ^ w" using Suc.prems by (simp_all add: less_mult_imp_div_less mult.commute)
  have inj: "hex_padded w (m div 16) = hex_padded w (n div 16) \<longleftrightarrow> m div 16 = n div 16"
    using parse_hex_padded [OF d(1)] parse_hex_padded [OF d(2)] Suc_leD [OF Suc.prems(3)] by (metis option.inject)
  have "m < n \<longleftrightarrow> m div 16 < n div 16 \<or> m div 16 = n div 16 \<and> m mod 16 < n mod 16"
    using digits_less [of "m mod 16" "n mod 16" "m div 16" "n div 16"] 
    by (simp add: mult_div_mod_eq)
  then show ?case using Suc.IH [OF d] Suc.prems(3) by (simp add: lexordp_append inj hex_char_less)
qed simp

subsection \<open>Creating a segment\<close>

text \<open>
  Whether the file could be created, and how many bytes of the header reached it when writing failed; with the
  result, what is left under the segment's name.
\<close>

definition create_segment :: "bool \<Rightarrow> nat option \<Rightarrow> seq \<Rightarrow> nanos \<Rightarrow> (journal_error + unit) \<times> u8 list option" where
  "create_segment opened written base now =
     (let header = encode_segment_header base now in
      if \<not> opened then (Inl (JIo ''create segment''), None)
      else case written of
        None \<Rightarrow> (Inr (), Some header)
      | Some n \<Rightarrow> (Inl (JIo ''write segment header''), Some (take n header)))"

text \<open>The writer's roll is a segment created whole.\<close>

lemma roll_creates:
  "fst (create_segment (os_create os) None (jn_next_seq j) 0) = fst (roll os j) \<and>
   (\<forall>file. snd (create_segment (os_create os) None (jn_next_seq j) 0) = Some file \<longrightarrow> jn_segment_file (snd (roll os j)) = file)"
  by (simp add: create_segment_def roll_def Let_def)

lemma claim_stops_at_a_short_file:
  "chain s segs \<Longrightarrow> length short < SEGMENT_HEADER_LEN \<Longrightarrow>
   claim_segments t (segs @ [(b, short)]) acc = Inl (JIo ''read segment header'')"
proof (induction segs arbitrary: s acc)
  case (Cons seg segs)
  obtain b' "file" where seg: "seg = (b', file)" by (cases seg)
  have ok: "segment_ok b' file (frames_in (body file))" and more: "chain (seq_after s (frames_in (body file))) segs"
    using Cons.prems(1) by (auto simp: seg segment_ok_def)
  show ?case
    using scan_segment_ok [OF ok scan_frame_Nil] Cons.IH [OF more Cons.prems(2)] by (simp add: seg res_bind_def Let_def)
qed (simp add: scan_segment_def res_bind_def)

text \<open>
  A segment is not created in one step. When the process dies, or the disk fills up, between the creation of the next
  segment's file and the end of its header, the log behind it is whole, but no process can claim the directory again:
  the short file is not taken for the torn tail it is.
\<close>

theorem unfinished_segment_stops_the_claim:
  assumes "journal_ok j" "n < SEGMENT_HEADER_LEN" "snd (create_segment True (Some n) (jn_next_seq j) 0) = Some left"
  shows "journal_claim False t os (disk j @ [(jn_next_seq j, left)]) now = Inl (JIo ''read segment header'')"
proof -
  have "length left < SEGMENT_HEADER_LEN" using assms(2,3) by (auto simp: create_segment_def Let_def)
  moreover have "chain 1 (disk j)" using assms(1) by (simp add: journal_ok_def)
  ultimately show ?thesis by (simp add: journal_claim_def claim_stops_at_a_short_file res_bind_def)
qed

theorem unfinished_segment_stops_the_claim_witness:
  "journal_claim False True sample_os (disk sample_journal @ [(jn_next_seq sample_journal, [])]) 9 = Inl (JIo ''read segment header'')"
  by (rule unfinished_segment_stops_the_claim [OF sample_journal_ok(1), of 0])
    (simp_all add: create_segment_def SEGMENT_HEADER_LEN_def)

subsection \<open>Properties\<close>

text \<open>
  A directory says what its log is. The names of two segments are in lexical order exactly if their sequence
  numbers are; and if the entries of the directory are, in any order, the files of a log's segments under their
  names and any files whose names are no segment names, then the listing is exactly the log's segments in order.
\<close>

theorem listing_finds_the_log:
  assumes "sorted (map (\<lambda>(base, _). unat base) dir)" "distinct (map fst dir)"
    "mset entries = mset (map (\<lambda>(base, file). (Some (segment_name base), file)) dir) + mset others"
    "\<forall>(name, _) \<in> set others. \<forall>n. name = Some n \<longrightarrow> parse_segment_name n = None"
  shows "list_segments (Some (map Some entries)) = Inr dir \<and>
    (\<forall>b b'. ord_class.lexordp (segment_name b) (segment_name b') \<longleftrightarrow> b < b')"
proof -
  let ?named = "map (\<lambda>(base, file). (Some (segment_name base), file)) dir"
  have "mset (List.map_filter listed entries) = mset (List.map_filter listed (?named @ others))"
    using assms(3) by (simp add: List.map_filter_def)
  moreover have "List.map_filter listed others = []"
    using assms(4) by (induction others) (auto simp: List.map_filter_simps listed_def split: option.splits)
  moreover have "List.map_filter listed ?named = dir"
    by (induction dir) (auto simp: List.map_filter_simps listed_def parse_segment_name_name)
  moreover have "List.map_filter listed (?named @ others) = List.map_filter listed ?named @ List.map_filter listed others"
    by (simp add: List.map_filter_def)
  ultimately have ms: "mset (List.map_filter listed entries) = mset dir" by simp
  have "inj_on (\<lambda>(base, _). unat base) (set dir)"
    using assms(2) by (fastforce simp: distinct_map inj_on_def word_unat_eq_iff [symmetric])
  then have "sort_key (\<lambda>(base, _). unat base) (List.map_filter listed entries) = dir"
    using mset_eq_setD [OF ms] assms(1) by (intro sort_key_inj_key_eq [OF ms]) simp_all
  moreover have "ord_class.lexordp (segment_name b) (segment_name b') \<longleftrightarrow> b < b'" for b b'
    using hex_padded_less [of "unat b" 16 "unat b'"] unsigned_less [of b, where ?'a = nat] unsigned_less [of b', where ?'a = nat]
    by (simp add: segment_name_def lexordp_append word_less_nat_alt lexordp_irreflexive')
  ultimately show ?thesis by (simp add: list_segments_def read_entries_eq)
qed

theorem listing_finds_the_log_witness:
  "list_segments (Some (map Some
     [(Some (lit ''LOCK''), 0), (Some (segment_name 300), 3), (None, 1), (Some (segment_name 1), 2)])) =
   Inr [(1, 2), (300, 3 :: nat)]"
proof -
  have "\<forall>(name, _) \<in> set [(Some (lit ''LOCK''), 0 :: nat), (None, 1)]. \<forall>n. name = Some n \<longrightarrow> parse_segment_name n = None"
    by (simp add: parse_segment_name_def strip_suffix_def lit_def)
  then show ?thesis
    using listing_finds_the_log [of "[(1, 2), (300, 3 :: nat)]" "[(Some (lit ''LOCK''), 0), (Some (segment_name 300), 3), (None, 1), (Some (segment_name 1), 2)]"
        "[(Some (lit ''LOCK''), 0), (None, 1)]"] by simp
qed

end
