(* ===== verification/Reader.thy ===== *)
theory Reader
  imports Segments
begin

text \<open>
  The journal reader (\<open>sentinel-journal/src/reader.rs\<close>): the tailer that follows the log, and the cursor a
  consumer keeps. The journal directory is the list of its segments in sequence order, which is what
  \<open>list_segments\<close> makes of the file names; one call of the tailer sees one such list. The files of the directory are
  never removed. What a writer that runs beside the tailer does to it is the theory \<open>Follow\<close>.

  Shown here: from any position in a gap-free log the tailer delivers exactly the records after it, in order,
  and then reports that it has caught up, also when the log has grown since it last listed the directory; and a
  cursor that was committed is loaded back.
\<close>

type_synonym directory = "(seq \<times> u8 list) list"

record tailer =
  tl_segments :: "seq list"
  tl_index :: nat
  tl_file :: "seq option"
  tl_offset :: nat
  tl_next_seq :: seq

type_synonym 'a tailer_op = "(tailer, journal_error, 'a) op"

definition segment_bases :: "directory \<Rightarrow> seq list" where
  "segment_bases dir = map fst dir"

definition open_current :: "directory \<Rightarrow> bool tailer_op" where
  "open_current dir t =
     (if tl_index t \<ge> length (tl_segments t) then (Inr False, t)
      else let base = tl_segments t ! tl_index t in
        case map_of dir base of
          None \<Rightarrow> (Inl (JIo ''open segment''), t)
        | Some _ \<Rightarrow>
            (Inr True, t\<lparr>tl_offset := (if tl_offset t = 0 then SEGMENT_HEADER_LEN else tl_offset t),
                         tl_file := Some base\<rparr>))"

definition rescan :: "directory \<Rightarrow> tailer \<Rightarrow> bool \<times> tailer" where
  "rescan dir t =
     (let found = segment_bases dir;
          grew = length found > length (tl_segments t);
          t = t\<lparr>tl_segments := found\<rparr>
      in if grew \<and> tl_index t + 1 < length found
         then (True, t\<lparr>tl_index := tl_index t + 1, tl_file := None, tl_offset := 0\<rparr>)
         else (False, t))"

definition open_file :: "directory \<Rightarrow> tailer \<Rightarrow> u8 list" where
  "open_file dir t = (case tl_file t of None \<Rightarrow> [] | Some base \<Rightarrow> (case map_of dir base of None \<Rightarrow> [] | Some f \<Rightarrow> f))"

definition ensure_open :: "directory \<Rightarrow> bool tailer_op" where
  "ensure_open dir t = (if tl_file t = None then open_current dir t else (Inr True, t))"

lemma ensure_open_fields:
  "ensure_open dir t = (r, t1) \<Longrightarrow> tl_segments t1 = tl_segments t \<and> tl_index t1 = tl_index t \<and> tl_next_seq t1 = tl_next_seq t"
  by (auto simp: ensure_open_def open_current_def Let_def split: if_splits option.splits)

lemma rescan_True:
  "rescan dir t = (True, t') \<Longrightarrow> tl_segments t' = segment_bases dir \<and> tl_segments t \<noteq> segment_bases dir"
  by (auto simp: rescan_def Let_def split: if_splits)

function next_record :: "directory \<Rightarrow> (frame_header \<times> u8 list) option tailer_op" where
  "next_record dir t =
     (case ensure_open dir t of
        (Inl e, t1) \<Rightarrow> (Inl e, t1)
      | (Inr False, t1) \<Rightarrow>
          (case rescan dir t1 of (False, t2) \<Rightarrow> (Inr None, t2) | (True, t2) \<Rightarrow> next_record dir t2)
      | (Inr True, t1) \<Rightarrow>
          (case read_frame_at (open_file dir t1) (tl_offset t1) of
             Inl e \<Rightarrow> (Inl e, t1)
           | Inr (Some (header, payload)) \<Rightarrow>
               if fh_seq header \<noteq> tl_next_seq t1 then (Inl (SequenceGap (tl_next_seq t1) (fh_seq header)), t1)
               else (Inr (Some (header, payload)),
                     t1\<lparr>tl_offset := tl_offset t1 + frame_len header, tl_next_seq := seq_next (fh_seq header)\<rparr>)
           | Inr None \<Rightarrow>
               if tl_index t1 + 1 < length (tl_segments t1)
               then next_record dir (t1\<lparr>tl_index := tl_index t1 + 1, tl_file := None, tl_offset := 0\<rparr>)
               else (case rescan dir t1 of (True, t2) \<Rightarrow> next_record dir t2 | (False, t2) \<Rightarrow> (Inr None, t2))))"
  by pat_completeness auto
termination
proof (relation "(\<lambda>(dir, t). if tl_segments t = segment_bases dir then 0 else 1 :: nat) <*mlex*>
    measure (\<lambda>(dir, t). length (tl_segments t) - tl_index t)", goal_cases)
  case 1
  then show ?case by (intro wf_mlex) simp
next
  case 2
  then show ?case by (auto dest!: rescan_True [OF sym] ensure_open_fields [OF sym] simp: mlex_prod_def)
next
  case 3
  then show ?case by (auto dest!: rescan_True [OF sym] ensure_open_fields [OF sym] simp: mlex_prod_def)
next
  case 4
  then show ?case by (auto dest!: rescan_True [OF sym] ensure_open_fields [OF sym] simp: mlex_prod_def)
qed

declare next_record.simps [simp del]

lemma read_frame_at_Some:
  "read_frame_at file offset = Inr (Some (h, p)) \<Longrightarrow> offset < length file \<and> 0 < frame_len h"
  by (auto simp: read_frame_at_def Let_def frame_len_def FRAME_HEADER_LEN_def split: if_splits sum.splits)

function seek_walk :: "u8 list \<Rightarrow> unit tailer_op" where
  "seek_walk file t =
     (case read_frame_at file (tl_offset t) of
        Inl e \<Rightarrow> (Inl e, t)
      | Inr None \<Rightarrow> (Inr (), t)
      | Inr (Some (header, _)) \<Rightarrow>
          if fh_seq header \<ge> tl_next_seq t then (Inr (), t\<lparr>tl_next_seq := fh_seq header\<rparr>)
          else seek_walk file (t\<lparr>tl_offset := tl_offset t + frame_len header\<rparr>))"
  by pat_completeness auto
termination
  by (relation "measure (\<lambda>(file, t). length file - tl_offset t)") (auto dest!: read_frame_at_Some)

declare seek_walk.simps [simp del]

definition seek_to_start :: "directory \<Rightarrow> unit tailer_op" where
  "seek_to_start dir t =
     (if tl_segments t = [] then (Inr (), t)
      else let t = t\<lparr>tl_index := length (takeWhile (\<lambda>base. base \<le> tl_next_seq t) (tl_segments t)) - 1,
                     tl_file := None, tl_offset := 0\<rparr> in
        case open_current dir t of
          (Inl e, t) \<Rightarrow> (Inl e, t)
        | (Inr False, t) \<Rightarrow> (Inr (), t)
        | (Inr True, t) \<Rightarrow> seek_walk (open_file dir t) t)"

definition tailer_open :: "directory \<Rightarrow> seq \<Rightarrow> journal_error + tailer" where
  "tailer_open dir after =
     (case seek_to_start dir \<lparr>tl_segments = segment_bases dir, tl_index = 0, tl_file = None, tl_offset = 0,
             tl_next_seq = seq_next after\<rparr> of
        (Inl e, _) \<Rightarrow> Inl e | (Inr _, t) \<Rightarrow> Inr t)"

text \<open>Everything available now: the records up to an error, or to where the tailer has caught up.\<close>

fun tail_items :: "nat \<Rightarrow> directory \<Rightarrow> tailer \<Rightarrow> (journal_error + (frame_header \<times> u8 list)) list" where
  "tail_items 0 dir t = []"
| "tail_items (Suc fuel) dir t =
     (case next_record dir t of
        (Inl e, _) \<Rightarrow> [Inl e]
      | (Inr None, _) \<Rightarrow> []
      | (Inr (Some r), t') \<Rightarrow> Inr r # tail_items fuel dir t')"

text \<open>Fuel that is always enough: every record takes at least one byte of some file.\<close>

definition directory_size :: "directory \<Rightarrow> nat" where
  "directory_size dir = sum_list (map (\<lambda>(_, file). length file) dir)"

subsection \<open>Reading whole frames\<close>

lemma read_frame_at_frame:
  assumes "frame_ok f"
  shows "read_frame_at (xs @ frame_bytes f @ rest) (length xs) = Inr (Some f)"
proof -
  obtain h p where f: "f = (h, p)" by (cases f)
  have ok: "unat (fh_len h) = length p" "length p \<le> MAX_PAYLOAD" using assms by (simp_all add: f frame_ok_def)
  let ?file = "xs @ frame_bytes f @ rest"
  have hd: "take FRAME_HEADER_LEN (drop (length xs) ?file) = frame_header_bytes h p"
    by (simp add: f frame_bytes_def)
  have pl: "take (length p) (drop (length xs + FRAME_HEADER_LEN) ?file) = p"
    by (simp add: f frame_bytes_def drop_drop [symmetric] add.commute del: drop_drop)
  have len: "unat (from_le_bytes (take_at 4 (frame_header_bytes h p) 0) :: u32) = length p"
    using ok(1) by (simp add: frame_header_bytes_eq)
  have "FRAME_HEADER_LEN + length p \<le> length (frame_bytes f)" by (simp add: f frame_bytes_def)
  then show ?thesis
    unfolding read_frame_at_def Let_def hd len pl
    using ok frame_read_back [OF ok] by (simp add: f)
qed

lemma read_frame_at_end: "read_frame_at xs (length xs) = Inr None"
  by (simp add: read_frame_at_def FRAME_HEADER_LEN_def)

lemma read_segment:
  assumes "segment_ok b file (pre @ post)"
  shows "read_frame_at file (SEGMENT_HEADER_LEN + length (log_bytes pre)) =
    Inr (case post of [] \<Rightarrow> None | f # _ \<Rightarrow> Some f)"
proof -
  obtain t where seg: "file = encode_segment_header b t @ log_bytes (pre @ post)" "list_all frame_ok (pre @ post)"
    using assms by (auto simp: segment_ok_def)
  let ?xs = "encode_segment_header b t @ log_bytes pre"
  have len: "SEGMENT_HEADER_LEN + length (log_bytes pre) = length ?xs" by (simp add: segment_header_length)
  show ?thesis
  proof (cases post)
    case Nil
    then show ?thesis unfolding len seg(1) using read_frame_at_end [of ?xs] by simp
  next
    case (Cons f fs)
    then show ?thesis
      unfolding len seg(1) using read_frame_at_frame [of f ?xs "log_bytes fs"] seg(2) by simp
  qed
qed

subsection \<open>Where a tailer stands\<close>

text \<open>
  A directory the writer left: segments without a gap, each under its own base. A tailer that stands before the
  frames \<open>rest\<close> has its segment open behind the frames already delivered, or is about to open it; it may not yet
  have listed the last segments.
\<close>

definition dir_ok :: "directory \<Rightarrow> bool" where
  "dir_ok dir \<longleftrightarrow> chain 1 dir \<and> distinct (map fst dir)"

definition stands :: "directory \<Rightarrow> tailer \<Rightarrow> frame list \<Rightarrow> bool" where
  "stands dir t rest \<longleftrightarrow>
     (\<exists>k \<le> length dir. tl_segments t = map fst (take k dir) \<and> tl_index t < k) \<and>
     (\<exists>pre post. frames_in (body (snd (dir ! tl_index t))) = pre @ post \<and>
        (tl_file t = Some (fst (dir ! tl_index t)) \<and> tl_offset t = SEGMENT_HEADER_LEN + length (log_bytes pre) \<or>
         tl_file t = None \<and> tl_offset t = 0 \<and> pre = []) \<and>
        rest = post @ frames_of (drop (Suc (tl_index t)) dir) \<and>
        tl_next_seq t = seq_after 1 (frames_of (take (tl_index t) dir) @ pre))"

lemma frames_of_at: "i < length dir \<Longrightarrow>
  frames_of dir = frames_of (take i dir) @ frames_in (body (snd (dir ! i))) @ frames_of (drop (Suc i) dir)"
  by (metis frames_of_simps(2,3) id_take_nth_drop prod.collapse)

lemma stands_run:
  assumes "dir_ok dir" "stands dir t rest"
  shows "\<exists>done'. frames_of dir = done' @ rest \<and> tl_next_seq t = seq_after 1 done'" "seq_run (tl_next_seq t) rest"
proof -
  from assms(2) obtain pre post where p: "tl_index t < length dir" "frames_in (body (snd (dir ! tl_index t))) = pre @ post"
    "rest = post @ frames_of (drop (Suc (tl_index t)) dir)"
    "tl_next_seq t = seq_after 1 (frames_of (take (tl_index t) dir) @ pre)" by (auto simp: stands_def)
  then have all: "frames_of dir = (frames_of (take (tl_index t) dir) @ pre) @ rest" using frames_of_at [OF p(1)] by simp
  then show "\<exists>done'. frames_of dir = done' @ rest \<and> tl_next_seq t = seq_after 1 done'" using p(4) by blast
  have "seq_run 1 (frames_of dir)" using assms(1) chain_seq_run by (simp add: dir_ok_def)
  then show "seq_run (tl_next_seq t) rest" unfolding all p(4) by (simp only: seq_run_append)
qed

lemma dir_file: "dir_ok dir \<Longrightarrow> i < length dir \<Longrightarrow> map_of dir (fst (dir ! i)) = Some (snd (dir ! i))"
  unfolding dir_ok_def by (metis map_of_is_SomeI nth_mem prod.collapse)

lemma chain_nth: "chain s dir \<Longrightarrow> i < length dir \<Longrightarrow>
  segment_ok (fst (dir ! i)) (snd (dir ! i)) (frames_in (body (snd (dir ! i))))"
proof (induction dir arbitrary: s i)
  case (Cons seg dir)
  then show ?case by (cases seg; cases i) auto
qed simp

text \<open>Opening does not move the tailer.\<close>

lemma ensure_open_stands:
  assumes "dir_ok dir" "stands dir t rest"
  obtains t1 pre post where "ensure_open dir t = (Inr True, t1)" "tl_segments t1 = tl_segments t"
    "tl_index t1 = tl_index t" "tl_next_seq t1 = tl_next_seq t"
    "tl_file t1 = Some (fst (dir ! tl_index t))" "tl_offset t1 = SEGMENT_HEADER_LEN + length (log_bytes pre)"
    "frames_in (body (snd (dir ! tl_index t))) = pre @ post" "rest = post @ frames_of (drop (Suc (tl_index t)) dir)"
    "tl_next_seq t = seq_after 1 (frames_of (take (tl_index t) dir) @ pre)"
proof -
  have i: "tl_index t < length (tl_segments t)" "tl_index t < length dir"
    "tl_segments t ! tl_index t = fst (dir ! tl_index t)" using assms(2) by (auto simp: stands_def)
  obtain pre post where pp: "frames_in (body (snd (dir ! tl_index t))) = pre @ post"
    "tl_file t = Some (fst (dir ! tl_index t)) \<and> tl_offset t = SEGMENT_HEADER_LEN + length (log_bytes pre) \<or>
         tl_file t = None \<and> tl_offset t = 0 \<and> pre = []"
    "rest = post @ frames_of (drop (Suc (tl_index t)) dir)"
    "tl_next_seq t = seq_after 1 (frames_of (take (tl_index t) dir) @ pre)" using assms(2) by (auto simp: stands_def)
  show thesis
  proof (cases "tl_file t = None")
    case True
    then show thesis
      using pp i dir_file [OF assms(1) i(2)]
      by (intro that [of "t\<lparr>tl_offset := SEGMENT_HEADER_LEN, tl_file := Some (fst (dir ! tl_index t))\<rparr>" "[]" post])
        (auto simp: ensure_open_def open_current_def Let_def)
  next
    case False
    then show thesis using pp i by (intro that [of t pre post]) (auto simp: ensure_open_def)
  qed
qed

lemma open_file_eq:
  "dir_ok dir \<Longrightarrow> i < length dir \<Longrightarrow> tl_file t = Some (fst (dir ! i)) \<Longrightarrow> open_file dir t = snd (dir ! i)"
  by (simp add: open_file_def dir_file)

lemma rescan_same: "tl_segments t = map fst dir \<Longrightarrow> rescan dir t = (False, t)"
  by (simp add: rescan_def segment_bases_def Let_def)

lemma next_record_stands:
  assumes "dir_ok dir" "stands dir t rest"
  shows "\<exists>t'. next_record dir t = (Inr (case rest of [] \<Rightarrow> None | f # _ \<Rightarrow> Some f), t') \<and>
    stands dir t' (tl rest)"
  using assms(2)
proof (induction "length dir - tl_index t" arbitrary: t rule: less_induct)
  case less
  from ensure_open_stands [OF assms(1) less.prems] obtain t1 pre post where
    t1: "ensure_open dir t = (Inr True, t1)" "tl_segments t1 = tl_segments t"
    "tl_index t1 = tl_index t" "tl_next_seq t1 = tl_next_seq t"
    "tl_file t1 = Some (fst (dir ! tl_index t))" "tl_offset t1 = SEGMENT_HEADER_LEN + length (log_bytes pre)"
    "frames_in (body (snd (dir ! tl_index t))) = pre @ post" "rest = post @ frames_of (drop (Suc (tl_index t)) dir)"
    "tl_next_seq t = seq_after 1 (frames_of (take (tl_index t) dir) @ pre)"
    by blast
  obtain k where k: "k \<le> length dir" "tl_segments t = map fst (take k dir)" "tl_index t < k"
    using less.prems by (auto simp: stands_def)
  have i: "tl_index t < length dir" and run: "seq_run (tl_next_seq t) rest"
    using k stands_run(2) [OF assms(1) less.prems] by simp_all
  have seg: "segment_ok (fst (dir ! tl_index t)) (snd (dir ! tl_index t)) (pre @ post)"
    using chain_nth [of 1 dir "tl_index t"] assms(1) i t1(7) by (simp add: dir_ok_def)
  have rd: "read_frame_at (open_file dir t1) (tl_offset t1) = Inr (case post of [] \<Rightarrow> None | f # _ \<Rightarrow> Some f)"
    using read_segment [OF seg] open_file_eq [OF assms(1) i t1(5)] t1(6) by simp
  show ?case
  proof (cases post)
    case (Cons f fs)
    have fok: "frame_ok f" using seg Cons by (simp add: segment_ok_def)
    have rest: "rest = f # fs @ frames_of (drop (Suc (tl_index t)) dir)" using t1(8) Cons by simp
    let ?t = "t1\<lparr>tl_offset := tl_offset t1 + frame_len (fst f), tl_next_seq := seq_next (fh_seq (fst f))\<rparr>"
    have "next_record dir t = (Inr (Some f), ?t)"
      using run rest rd Cons t1(1,4) by (subst next_record.simps) (simp add: case_prod_unfold)
    moreover have "stands dir ?t (fs @ frames_of (drop (Suc (tl_index t)) dir))"
      unfolding stands_def using t1 k run rest Cons fok
      by (intro conjI exI [of _ "pre @ [f]"] exI [of _ fs] exI [of _ k]) (auto simp: frame_bytes_length seq_after_append)
    ultimately show ?thesis using rest by auto
  next
    case Nil
    show ?thesis
    proof (cases "Suc (tl_index t) < length dir")
      case True
      define segs where "segs = (if Suc (tl_index t) < k then tl_segments t else map fst dir)"
      let ?t = "t1\<lparr>tl_segments := segs, tl_index := tl_index t + 1, tl_file := None, tl_offset := 0\<rparr>"
      have "drop (Suc (tl_index t)) dir = dir ! Suc (tl_index t) # drop (Suc (Suc (tl_index t))) dir"
        using True by (simp add: Cons_nth_drop_Suc)
      then have "rest = frames_in (body (snd (dir ! Suc (tl_index t)))) @ frames_of (drop (Suc (Suc (tl_index t))) dir)"
        using t1(8) Nil by (cases "dir ! Suc (tl_index t)") simp
      moreover have "\<exists>k' \<le> length dir. segs = map fst (take k' dir) \<and> Suc (tl_index t) < k'"
        using True k by (auto simp: segs_def intro: exI [of _ "length dir"])
      moreover have "frames_of (take (Suc (tl_index t)) dir) = frames_of (take (tl_index t) dir) @ pre"
        using t1(7) Nil i by (cases "dir ! tl_index t") (simp add: take_Suc_conv_app_nth del: take_append)
      ultimately have st: "stands dir ?t rest" using t1(4,9) by (auto simp: stands_def)
      moreover have "next_record dir t = next_record dir ?t"
      proof (cases "Suc (tl_index t) < k")
        case more: True
        then have "segs = tl_segments t1" using t1(2) by (simp add: segs_def)
        then have same: "?t = t1\<lparr>tl_index := tl_index t + 1, tl_file := None, tl_offset := 0\<rparr>" by simp
        show ?thesis unfolding same using rd Nil t1 k more by (subst next_record.simps) simp
      next
        case False
        then have "k = Suc (tl_index t)" using k(3) by simp
        then have "rescan dir t1 = (True, ?t)"
          using True k t1(2,3) False by (simp add: rescan_def segment_bases_def Let_def segs_def)
        then show ?thesis using rd Nil t1 k \<open>k = Suc (tl_index t)\<close> by (subst next_record.simps) simp
      qed
      ultimately show ?thesis using less.hyps [of ?t] i by simp
    next
      case False
      then have len: "k = length dir" "Suc (tl_index t) = length dir" using k i by simp_all
      then have "rest = []" using t1(8) Nil by simp
      moreover have "next_record dir t = (Inr None, t1)"
        using rd Nil t1 k len rescan_same [of t1 dir] by (subst next_record.simps) simp
      moreover have "stands dir t1 []"
        unfolding stands_def using t1 k run \<open>rest = []\<close> Nil len
        by (intro conjI exI [of _ pre] exI [of _ "[]"] exI [of _ k]) auto
      ultimately show ?thesis by simp
    qed
  qed
qed

lemma tail_items_stands:
  "dir_ok dir \<Longrightarrow> stands dir t rest \<Longrightarrow> length rest < fuel \<Longrightarrow> tail_items fuel dir t = map Inr rest"
proof (induction rest arbitrary: t fuel)
  case Nil
  then obtain fuel' where "fuel = Suc fuel'" by (cases fuel) auto
  then show ?case using next_record_stands [OF Nil.prems(1,2)] by auto
next
  case (Cons f fs)
  then obtain fuel' where "fuel = Suc fuel'" by (cases fuel) auto
  then show ?case using next_record_stands [OF Cons.prems(1,2)] Cons by auto
qed

subsection \<open>Opening a tailer at a position\<close>

lemma unat_seq_next: "unat s + 1 < 2 ^ 64 \<Longrightarrow> unat (seq_next s) = unat s + 1"
proof -
  assume a: "unat s + 1 < 2 ^ 64"
  then have "uint s + 1 < 2 ^ 64" by (metis (mono_tags) of_nat_1 of_nat_add of_nat_less_iff of_nat_numeral of_nat_power of_nat_unat)
  then show ?thesis using a unat_add_lem [of s 1] by (simp add: seq_next_def saturating_add_u64_def)
qed

lemma unat_seq_after: "unat s + length fs < 2 ^ 64 \<Longrightarrow> unat (seq_after s fs) = unat s + length fs"
  by (induction fs arbitrary: s) (simp_all add: unat_seq_next)

lemma seq_run_nth:
  "seq_run s fs \<Longrightarrow> i < length fs \<Longrightarrow> unat s + length fs < 2 ^ 64 \<Longrightarrow> unat (fh_seq (fst (fs ! i))) = unat s + i"
  by (induction fs arbitrary: s i) (auto simp: nth_Cons unat_seq_next split: nat.splits)

lemma chain_base:
  "chain s dir \<Longrightarrow> i < length dir \<Longrightarrow> fst (dir ! i) = seq_after s (frames_of (take i dir))"
proof (induction dir arbitrary: s i)
  case (Cons seg dir)
  then show ?case by (cases seg; cases i) (auto simp: seq_after_append)
qed simp

lemma seek_walk_skip:
  assumes "segment_ok b file (pre @ skip @ keep)" "tl_offset t = SEGMENT_HEADER_LEN + length (log_bytes pre)"
    "\<forall>f \<in> set skip. fh_seq (fst f) < tl_next_seq t" "\<forall>f fs. keep = f # fs \<longrightarrow> fh_seq (fst f) = tl_next_seq t"
  shows "seek_walk file t = (Inr (), t\<lparr>tl_offset := SEGMENT_HEADER_LEN + length (log_bytes (pre @ skip))\<rparr>)"
  using assms
proof (induction skip arbitrary: pre t)
  case Nil
  have "read_frame_at file (tl_offset t) = Inr (case keep of [] \<Rightarrow> None | f # _ \<Rightarrow> Some f)"
    using read_segment [of b "file" pre keep] Nil.prems(1,2) by simp
  then show ?case using Nil.prems by (subst seek_walk.simps) (auto simp: case_prod_unfold split: list.split)
next
  case (Cons f skip)
  have rd: "read_frame_at file (tl_offset t) = Inr (Some f)"
    using read_segment [of b "file" pre "f # skip @ keep"] Cons.prems(1,2) by simp
  have "frame_ok f" using Cons.prems(1) by (simp add: segment_ok_def)
  then have off: "tl_offset t + frame_len (fst f) = SEGMENT_HEADER_LEN + length (log_bytes (pre @ [f]))"
    using Cons.prems(2) by (simp add: frame_bytes_length)
  have "\<not> tl_next_seq t \<le> fh_seq (fst f)" using Cons.prems(3) by (simp add: linorder_not_le)
  then have "seek_walk file t = seek_walk file (t\<lparr>tl_offset := tl_offset t + frame_len (fst f)\<rparr>)"
    using rd by (subst seek_walk.simps) (simp add: case_prod_unfold)
  also have "\<dots> = (Inr (), t\<lparr>tl_offset := SEGMENT_HEADER_LEN + length (log_bytes ((pre @ [f]) @ skip))\<rparr>)"
    using Cons.IH [of "pre @ [f]" "t\<lparr>tl_offset := tl_offset t + frame_len (fst f)\<rparr>"] Cons.prems off by simp
  finally show ?case by simp
qed

text \<open>The segment a position falls into.\<close>

lemma position_segment:
  assumes "dir_ok dir" "dir \<noteq> []" "n \<le> length (frames_of dir)" "length (frames_of dir) + 2 < 2 ^ 64"
    "unat s = n + 1"
  defines "i \<equiv> length (takeWhile (\<lambda>base. base \<le> s) (map fst dir)) - 1"
  shows "i < length dir" "length (frames_of (take i dir)) \<le> n"
    "n - length (frames_of (take i dir)) \<le> length (frames_in (body (snd (dir ! i))))"
    "i + 1 < length dir \<Longrightarrow> n - length (frames_of (take i dir)) < length (frames_in (body (snd (dir ! i))))"
proof -
  let ?L = "length (takeWhile (\<lambda>base. base \<le> s) (map fst dir))"
  have ch: "chain 1 dir" using assms(1) by (simp add: dir_ok_def)
  have split: "frames_of dir = frames_of (take j dir) @ frames_of (drop j dir)" for j
    by (metis append_take_drop_id frames_of_simps(3))
  then have le: "length (frames_of (take j dir)) \<le> length (frames_of dir)" for j by (metis length_append le_add1)
  have base: "unat (fst (dir ! j)) = 1 + length (frames_of (take j dir))" if "j < length dir" for j
    using chain_base [OF ch that] unat_seq_after [of 1 "frames_of (take j dir)"] le [of j] assms(4) by simp
  have cmp: "fst (dir ! j) \<le> s \<longleftrightarrow> length (frames_of (take j dir)) \<le> n" if "j < length dir" for j
    using base [OF that] assms(5) by (simp add: word_le_nat_alt)
  have "?L \<noteq> 0" using assms(2) cmp [of 0] by (cases dir) auto
  then have L: "?L = Suc i" by (simp add: i_def)
  show i: "i < length dir" using L length_takeWhile_le [of "\<lambda>base. base \<le> s" "map fst dir"] by simp
  have "(map fst dir) ! i \<le> s"
    using L by (metis lessI nth_mem set_takeWhileD takeWhile_nth)
  then show lo: "length (frames_of (take i dir)) \<le> n" using cmp [OF i] i by simp
  have seg: "frames_of (take (Suc i) dir) = frames_of (take i dir) @ frames_in (body (snd (dir ! i)))"
    using i by (cases "dir ! i") (simp add: take_Suc_conv_app_nth)
  have hi: "n < length (frames_of (take (Suc i) dir))" if "Suc i < length dir"
  proof -
    have "\<not> (map fst dir) ! ?L \<le> s" using that L nth_length_takeWhile [of "\<lambda>base. base \<le> s" "map fst dir"] by simp
    then show ?thesis using cmp [OF that] L that by simp
  qed
  then show "i + 1 < length dir \<Longrightarrow> n - length (frames_of (take i dir)) < length (frames_in (body (snd (dir ! i))))"
    using seg lo by simp
  show "n - length (frames_of (take i dir)) \<le> length (frames_in (body (snd (dir ! i))))"
  proof (cases "Suc i < length dir")
    case True
    then show ?thesis using hi seg lo by simp
  next
    case False
    then have "take (Suc i) dir = dir" by simp
    then show ?thesis using seg assms(3) by simp
  qed
qed

lemma tailer_open_stands:
  assumes "dir_ok dir" "dir \<noteq> []" "n \<le> length (frames_of dir)" "length (frames_of dir) + 2 < 2 ^ 64"
  shows "\<exists>t. tailer_open dir (of_nat n) = Inr t \<and> stands dir t (drop n (frames_of dir))"
proof -
  define s where "s = seq_next (of_nat n)"
  have "unat (of_nat n :: seq) = n" using assms(3,4) by (simp add: unat_of_nat take_bit_nat_eq_self)
  then have s: "unat s = n + 1" using unat_seq_next [of "of_nat n"] assms(3,4) by (simp add: s_def)
  define i where "i = length (takeWhile (\<lambda>base. base \<le> s) (map fst dir)) - 1"
  note pos = position_segment [OF assms s, folded i_def]
  define fs k where "fs = frames_in (body (snd (dir ! i)))" and "k = n - length (frames_of (take i dir))"
  let ?all = "frames_of dir"
  have dir: "dir = take i dir @ (fst (dir ! i), snd (dir ! i)) # drop (Suc i) dir"
    using pos(1) by (simp add: id_take_nth_drop)
  have all: "?all = frames_of (take i dir) @ fs @ frames_of (drop (Suc i) dir)"
    by (metis dir frames_of_simps(2,3) fs_def)
  have k: "k \<le> length fs" "n = length (frames_of (take i dir)) + k" using pos(2,3) by (simp_all add: k_def fs_def)
  have rest: "drop n ?all = drop k fs @ frames_of (drop (Suc i) dir)" using k all by simp
  have run: "seq_run 1 ?all" using assms(1) chain_seq_run by (simp add: dir_ok_def)
  have seqs: "unat (fh_seq (fst (?all ! j))) = j + 1" if "j < length ?all" for j
    using seq_run_nth [OF run that] assms(4) by simp
  have fsj: "fs ! j = ?all ! (length (frames_of (take i dir)) + j)" if "j < length fs" for j
    using that by (simp add: all nth_append)
  have lt: "length (frames_of (take i dir)) + j < length ?all" if "j < length fs" for j using that by (simp add: all)
  have skip: "\<forall>f \<in> set (take k fs). fh_seq (fst f) < s"
  proof
    fix f assume "f \<in> set (take k fs)"
    then obtain j where j: "j < k" "j < length fs" "f = fs ! j" by (auto simp: in_set_conv_nth)
    then show "fh_seq (fst f) < s" using seqs [OF lt [OF j(2)]] fsj [OF j(2)] k s by (simp add: word_less_nat_alt)
  qed
  have keep: "\<forall>f gs. drop k fs = f # gs \<longrightarrow> fh_seq (fst f) = s"
  proof (intro allI impI)
    fix f gs assume d: "drop k fs = f # gs"
    then have "k < length fs" using k(1) by (cases "k = length fs") auto
    moreover have "f = fs ! k" using d by (simp add: nth_via_drop)
    ultimately show "fh_seq (fst f) = s" using seqs [OF lt [of k]] fsj [of k] k s by (simp add: word_unat_eq_iff)
  qed
  have seg: "segment_ok (fst (dir ! i)) (snd (dir ! i)) fs"
    using chain_nth [OF _ pos(1), of 1] assms(1) by (simp add: dir_ok_def fs_def)
  let ?t = "\<lparr>tl_segments = map fst dir, tl_index = i, tl_file = Some (fst (dir ! i)),
    tl_offset = SEGMENT_HEADER_LEN, tl_next_seq = s\<rparr>"
  have "tailer_open dir (of_nat n) = (case seek_walk (snd (dir ! i)) ?t of (Inl e, _) \<Rightarrow> Inl e | (Inr _, t) \<Rightarrow> Inr t)"
    using assms(2) pos(1) dir_file [OF assms(1) pos(1)]
    by (simp add: tailer_open_def seek_to_start_def segment_bases_def open_current_def open_file_def Let_def
        s_def [symmetric] i_def)
  also have "\<dots> = Inr (?t\<lparr>tl_offset := SEGMENT_HEADER_LEN + length (log_bytes (take k fs))\<rparr>)"
    using seek_walk_skip [of "fst (dir ! i)" "snd (dir ! i)" "[]" "take k fs" "drop k fs" ?t] seg skip keep by simp
  finally have opened: "tailer_open dir (of_nat n) = \<dots>" .
  have "seq_run (seq_after 1 (take n ?all)) (drop n ?all)"
    using run by (metis append_take_drop_id seq_run_append)
  moreover have "seq_after 1 (take n ?all) = s"
    using unat_seq_after [of 1 "take n ?all"] s assms(3,4) by (simp add: word_unat_eq_iff)
  moreover have "take n ?all = frames_of (take i dir) @ take k fs" using k all by simp
  ultimately have "stands dir (?t\<lparr>tl_offset := SEGMENT_HEADER_LEN + length (log_bytes (take k fs))\<rparr>) (drop n ?all)"
    unfolding stands_def using pos(1) rest
    by (intro conjI exI [of _ "take k fs"] exI [of _ "drop k fs"] exI [of _ "length dir"]) (simp_all add: fs_def [symmetric])
  then show ?thesis using opened by blast
qed

subsection \<open>Every segment under its own name\<close>

lemma chain_distinct:
  assumes "chain s (closed @ [seg])" "full closed" "unat s + length (frames_of (closed @ [seg])) < 2 ^ 64"
  shows "distinct (map fst (closed @ [seg]))"
proof -
  let ?dir = "closed @ [seg]"
  have len: "length (frames_of (take i ?dir)) \<le> length (frames_of ?dir)" for i
    by (metis append_take_drop_id frames_of_simps(3) length_append le_add1)
  have base: "unat (fst (?dir ! i)) = unat s + length (frames_of (take i ?dir))" if "i < length ?dir" for i
    using chain_base [OF assms(1) that] unat_seq_after [of s "frames_of (take i ?dir)"] len [of i] assms(3) by simp
  have lt: "length (frames_of (take i ?dir)) < length (frames_of (take j ?dir))" if "i < j" "j < length ?dir" for i j
  proof -
    obtain b f where bf: "?dir ! i = (b, f)" by (cases "?dir ! i")
    have i: "i < length closed" using that by simp
    then have "frames_in (body f) \<noteq> []" using assms(2) bf by (auto simp: full_def list_all_length nth_append)
    moreover have "frames_of (take (Suc i) ?dir) = frames_of (take i ?dir) @ frames_in (body f)"
      using that bf frames_of_simps(2) [of b f "[]"] by (simp add: take_Suc_conv_app_nth del: take_append)
    moreover have "take j ?dir = take (Suc i) ?dir @ take (j - Suc i) (drop (Suc i) ?dir)"
      using that(1) by (metis Suc_leI le_add_diff_inverse take_add)
    then have "frames_of (take j ?dir) = frames_of (take (Suc i) ?dir) @ frames_of (take (j - Suc i) (drop (Suc i) ?dir))"
      by (metis frames_of_simps(3))
    ultimately show ?thesis by (simp del: take_append)
  qed
  have ne: "fst (?dir ! i) \<noteq> fst (?dir ! j)" if "i < j" "j < length ?dir" for i j
    using base [of i] base [of j] lt [OF that] that by auto
  show ?thesis
    unfolding distinct_conv_nth length_map
  proof (intro allI impI)
    fix i j assume ij: "i < length ?dir" "j < length ?dir" "i \<noteq> j"
    then have "fst (?dir ! i) \<noteq> fst (?dir ! j)" using ne [of i j] ne [of j i] by (cases "i < j") auto
    then show "map fst ?dir ! i \<noteq> map fst ?dir ! j" using nth_map [OF ij(1)] nth_map [OF ij(2)] by metis
  qed
qed

subsection \<open>A log that grows\<close>

text \<open>What the writer does to a directory: whole frames behind the last segment, and further segments behind that.\<close>

definition grows :: "directory \<Rightarrow> directory \<Rightarrow> bool" where
  "grows dir dir' \<longleftrightarrow> (\<exists>closed b file fs more. dir = closed @ [(b, file)] \<and>
     dir' = closed @ (b, file @ log_bytes fs) # more \<and> list_all frame_ok fs)"

lemma segment_frames_grow:
  "segment_ok b file (frames_in (body file)) \<Longrightarrow> list_all frame_ok fs \<Longrightarrow>
   frames_in (body (file @ log_bytes fs)) = frames_in (body file) @ fs"
proof -
  assume seg: "segment_ok b file (frames_in (body file))" and fs: "list_all frame_ok fs"
  then obtain time gs where gs: "file = encode_segment_header b time @ log_bytes gs" "list_all frame_ok gs"
    by (auto simp: segment_ok_def)
  then have "body (file @ log_bytes fs) = log_bytes (gs @ fs)" by simp
  then show ?thesis using gs fs by (simp add: frames_in_log_all frames_in_log)
qed

lemma stands_grows:
  assumes "dir_ok dir" "grows dir dir'" "stands dir t rest"
  shows "\<exists>new. frames_of dir' = frames_of dir @ new \<and> stands dir' t (rest @ new)"
proof -
  obtain closed b x fs more where g: "dir = closed @ [(b, x)]" "dir' = closed @ (b, x @ log_bytes fs) # more"
    "list_all frame_ok fs" using assms(2) by (auto simp: grows_def)
  let ?new = "fs @ frames_of more" and ?i = "tl_index t"
  obtain k pre post where st: "k \<le> length dir" "tl_segments t = map fst (take k dir)" "?i < k"
    "frames_in (body (snd (dir ! ?i))) = pre @ post"
    "tl_file t = Some (fst (dir ! ?i)) \<and> tl_offset t = SEGMENT_HEADER_LEN + length (log_bytes pre) \<or>
       tl_file t = None \<and> tl_offset t = 0 \<and> pre = []"
    "rest = post @ frames_of (drop (Suc ?i) dir)" "tl_next_seq t = seq_after 1 (frames_of (take ?i dir) @ pre)"
    using assms(3) by (auto simp: stands_def)
  have "segment_ok b x (frames_in (body x))" using chain_nth [of 1 dir "length closed"] assms(1) g(1) by (simp add: dir_ok_def)
  note grown = segment_frames_grow [OF this g(3)]
  have segs: "tl_segments t = map fst (take k dir')" "k \<le> length dir'" using st(1,2) g(1,2) by (auto simp: take_Cons')
  have base: "fst (dir' ! ?i) = fst (dir ! ?i)" and before: "take ?i dir' = take ?i dir"
    using st(1,3) g(1,2) by (auto simp: nth_append nth_Cons')
  have "stands dir' t (rest @ ?new)"
  proof (cases "?i < length closed")
    case True
    then have "dir' ! ?i = dir ! ?i" using g(1,2) by (simp add: nth_append)
    moreover have "frames_of (drop (Suc ?i) dir') = frames_of (drop (Suc ?i) dir) @ ?new"
      using True g(1,2) grown by simp
    ultimately show ?thesis
      unfolding stands_def using st segs before by (intro conjI exI [of _ k] exI [of _ pre] exI [of _ post]) simp_all
  next
    case False
    then have i: "?i = length closed" using st(1,3) g(1) by simp
    then show ?thesis
      unfolding stands_def using st segs base before g(1,2) grown
      by (intro conjI exI [of _ k] exI [of _ pre] exI [of _ "post @ fs"]) simp_all
  qed
  moreover have "frames_of dir' = frames_of dir @ ?new" using g(1,2) grown by simp
  ultimately show ?thesis by blast
qed

text \<open>\<open>drain_into\<close>: everything available now, behind what \<open>out\<close> held already. \<open>None\<close> is out of fuel.\<close>

fun drain_loop ::
  "nat \<Rightarrow> directory \<Rightarrow> tailer \<Rightarrow> frame list \<Rightarrow> ((journal_error + unit) \<times> tailer \<times> frame list) option"
where
  "drain_loop 0 dir t out = None"
| "drain_loop (Suc fuel) dir t out =
     (case next_record dir t of
        (Inl e, t') \<Rightarrow> Some (Inl e, t', out)
      | (Inr None, t') \<Rightarrow> Some (Inr (), t', out)
      | (Inr (Some r), t') \<Rightarrow> drain_loop fuel dir t' (out @ [r]))"

definition drain_into ::
  "nat \<Rightarrow> directory \<Rightarrow> tailer \<Rightarrow> frame list \<Rightarrow> ((journal_error + nat) \<times> tailer \<times> frame list) option"
where
  "drain_into fuel dir t out =
     map_option (\<lambda>(r, t', out'). (res_bind r (\<lambda>_. Inr (length out' - length out)), t', out'))
       (drain_loop fuel dir t out)"

lemma drain_loop_stands:
  "dir_ok dir \<Longrightarrow> stands dir t rest \<Longrightarrow> length rest < fuel \<Longrightarrow>
    \<exists>t'. drain_loop fuel dir t out = Some (Inr (), t', out @ rest) \<and> stands dir t' []"
proof (induction rest arbitrary: t fuel out)
  case Nil
  then obtain fuel' where "fuel = Suc fuel'" by (cases fuel) auto
  then show ?case using next_record_stands [OF Nil.prems(1,2)] by auto
next
  case (Cons f fs)
  then obtain fuel' where fuel: "fuel = Suc fuel'" by (cases fuel) auto
  obtain t' where t': "next_record dir t = (Inr (Some f), t')" "stands dir t' fs"
    using next_record_stands [OF Cons.prems(1,2)] by auto
  then show ?case using Cons.IH [of t' fuel' "out @ [f]"] Cons.prems fuel by simp
qed

text \<open>Every frame takes at least one byte of its file, so the size of the directory is always fuel enough.\<close>

lemma log_bytes_length: "length fs \<le> length (log_bytes fs)"
proof (induction fs)
  case (Cons f fs)
  have "0 < length (frame_bytes f)" by (cases f) (simp add: frame_bytes_def FRAME_HEADER_LEN_def)
  then show ?case unfolding log_bytes_simps length_append list.size using Cons by linarith
qed simp

lemma frames_fit: "chain s dir \<Longrightarrow> length (frames_of dir) \<le> directory_size dir"
proof (induction dir arbitrary: s)
  case (Cons seg dir)
  obtain b f where seg: "seg = (b, f)" by (cases seg)
  then have ok: "segment_ok b f (frames_in (body f))" "chain (seq_after b (frames_in (body f))) dir" using Cons.prems by auto
  then have "length (frames_in (body f)) \<le> length f"
    using log_bytes_length [of "frames_in (body f)"] unfolding segment_ok_def by (metis length_append trans_le_add2)
  then show ?case using Cons.IH [OF ok(2)] seg by (simp add: directory_size_def)
qed simp

subsection \<open>The cursor of a consumer\<close>

text \<open>
  \<open>cu_disk\<close> is the contents of the cursor file, and \<open>cu_tmp\<close> of the file it is written through. \<open>held = None\<close>
  is a file that is not there; one that cannot be read, or does not hold text, is an error.
\<close>

record cursor =
  cu_disk :: "u8 list option"
  cu_tmp :: "u8 list option"
  cu_seq :: seq

definition cursor_load :: "bool \<Rightarrow> u8 list option \<Rightarrow> u8 list option \<Rightarrow> journal_error + cursor" where
  "cursor_load readable held tmp =
     (case held of
        None \<Rightarrow> Inr \<lparr>cu_disk = held, cu_tmp = tmp, cu_seq = 0\<rparr>
      | Some bytes \<Rightarrow>
          if \<not> readable \<or> \<not> utf8_valid bytes then Inl (JIo ''read cursor'')
          else Inr \<lparr>cu_disk = held, cu_tmp = tmp,
                    cu_seq = (case parse_u64 (trim bytes) of None \<Rightarrow> 0 | Some n \<Rightarrow> n)\<rparr>)"

definition cursor_commit :: "bool \<Rightarrow> bool \<Rightarrow> seq \<Rightarrow> (cursor, journal_error, unit) op" where
  "cursor_commit written renamed seq c =
     (if seq < cu_seq c then (Inr (), c)
      else if \<not> written then (Inl (JIo ''write cursor''), c)
      else let c = c\<lparr>cu_tmp := Some (dec (unat seq) @ [10])\<rparr> in
        if \<not> renamed then (Inl (JIo ''rename cursor''), c)
        else (Inr (), c\<lparr>cu_disk := cu_tmp c, cu_tmp := None, cu_seq := seq\<rparr>))"

lemma cursor_roundtrip:
  assumes "cursor_commit written renamed seq c = (Inr (), c')" "cu_seq c \<le> seq"
  shows "\<exists>c2. cursor_load True (cu_disk c') (cu_tmp c') = Inr c2 \<and> cu_seq c2 = seq"
proof -
  have "cu_disk c' = Some (dec (unat seq) @ [10])"
    using assms by (auto simp: cursor_commit_def Let_def split: if_splits)
  moreover have "list_all (\<lambda>b. b < 128) (dec (unat seq) @ [10])"
    using dec_digits(1) [of "unat seq"] by (auto simp: all_digits_def is_ascii_digit_def list_all_iff intro: order.strict_trans1)
  ultimately show ?thesis
    using trim_line(1) [OF dec_digits(1,3)] utf8_valid_ascii by (simp add: cursor_load_def parse_u64_dec)
qed

subsection \<open>Properties\<close>

text \<open>
  C16: A consumer that commits its position and restarts receives exactly what it has not seen. Whatever the
  log holds (a directory of segments without a gap) and whatever position \<open>n\<close> in it the consumer committed
  last, loading its cursor and opening a tailer there succeeds, and draining the tailer ends (the size of the
  directory is fuel enough) having delivered the records after the first \<open>n\<close>, all of them, once each, in order,
  across every segment boundary.
\<close>

theorem committed_cursor_resumes:
  assumes "dir_ok dir" "dir \<noteq> []" "n \<le> length (frames_of dir)" "length (frames_of dir) + 2 < 2 ^ 64"
    and "cursor_commit written renamed (of_nat n) c = (Inr (), c')" "cu_seq c \<le> of_nat n"
  shows "\<exists>c2 t t'. cursor_load True (cu_disk c') (cu_tmp c') = Inr c2 \<and>
    tailer_open dir (cu_seq c2) = Inr t \<and>
    drain_into (Suc (directory_size dir)) dir t [] =
      Some (Inr (length (frames_of dir) - n), t', drop n (frames_of dir))"
proof -
  obtain c2 where c2: "cursor_load True (cu_disk c') (cu_tmp c') = Inr c2" "cu_seq c2 = of_nat n"
    using cursor_roundtrip [OF assms(5,6)] by blast
  obtain t where t: "tailer_open dir (of_nat n) = Inr t" "stands dir t (drop n (frames_of dir))"
    using tailer_open_stands [OF assms(1-4)] by blast
  have "length (frames_of dir) \<le> directory_size dir" using assms(1) frames_fit by (auto simp: dir_ok_def)
  then have "length (drop n (frames_of dir)) < Suc (directory_size dir)" by simp
  from drain_loop_stands [OF assms(1) t(2) this, of "[]"] obtain t' where
    "drain_loop (Suc (directory_size dir)) dir t [] = Some (Inr (), t', drop n (frames_of dir))" by auto
  then have "drain_into (Suc (directory_size dir)) dir t [] =
      Some (Inr (length (frames_of dir) - n), t', drop n (frames_of dir))"
    by (simp add: drain_into_def del: drain_loop.simps)
  then show ?thesis using c2 t by (intro exI [of _ c2] exI [of _ t] exI [of _ t']) simp
qed

definition sample_frame :: "seq \<Rightarrow> frame" where
  "sample_frame s = (\<lparr>fh_seq = s, fh_epoch = 1, fh_nanos = 7, fh_kind = KMark, fh_len = 1\<rparr>, [9])"

definition sample_dir :: directory where
  "sample_dir =
     [(1, encode_segment_header 1 0 @ log_bytes [sample_frame 1]),
      (2, encode_segment_header 2 0 @ log_bytes [sample_frame 2, sample_frame 3])]"

lemma sample_frames: "frames_of sample_dir = [sample_frame 1, sample_frame 2, sample_frame 3]" "dir_ok sample_dir" "sample_dir \<noteq> []"
proof -
  show "sample_dir \<noteq> []" by (simp add: sample_dir_def)
  have ok: "list_all frame_ok [sample_frame 1]" "list_all frame_ok [sample_frame 2, sample_frame 3]"
    by (simp_all add: sample_frame_def frame_ok_def MAX_PAYLOAD_def)
  have run: "seq_run 1 [sample_frame 1]" "seq_run 2 [sample_frame 2, sample_frame 3]"
    by (simp_all add: sample_frame_def seq_next_def saturating_add_u64_def)
  have after: "seq_after 1 [sample_frame 1] = 2" by (simp add: seq_next_def saturating_add_u64_def)
  note fr = frames_in_log_all [OF ok(1)] frames_in_log_all [OF ok(2)]
  show "frames_of sample_dir = [sample_frame 1, sample_frame 2, sample_frame 3]"
    using fr by (simp add: sample_dir_def del: log_bytes_simps)
  show "dir_ok sample_dir"
    using segment_okI [OF ok(1) run(1), of 0] segment_okI [OF ok(2) run(2), of 0] fr after
    by (simp add: sample_dir_def dir_ok_def del: log_bytes_simps)
qed

theorem committed_cursor_resumes_witness:
  "\<exists>c2 t t'. cursor_load True (cu_disk (snd (cursor_commit True True 1 \<lparr>cu_disk = None, cu_tmp = None, cu_seq = 0\<rparr>))) None = Inr c2 \<and>
    tailer_open sample_dir (cu_seq c2) = Inr t \<and>
    drain_into (Suc (directory_size sample_dir)) sample_dir t [] = Some (Inr (Suc (Suc 0)), t', [sample_frame 2, sample_frame 3])"
  using committed_cursor_resumes [of sample_dir 1 True True "\<lparr>cu_disk = None, cu_tmp = None, cu_seq = 0\<rparr>"
      "snd (cursor_commit True True 1 \<lparr>cu_disk = None, cu_tmp = None, cu_seq = 0\<rparr>)"] sample_frames
  by (simp add: cursor_commit_def)

end
