(* ===== verification/Follow.thy ===== *)
theory Follow
  imports Reader
begin

text \<open>
  A tailer beside the writer (\<open>sentinel-journal/src/reader.rs\<close> and \<open>writer.rs\<close> together). The writer appends and
  flushes, the tailer reads, in any order; each call of the tailer sees the directory as it is at that moment.

  Shown here: a follower delivers the durable log, in order and without loss, repetition or error, across every
  segment the writer rolls to, and reports that it has caught up only when it has. If the writer rolls between
  the tailer's read and its listing in one call, the tailer reports a gap the log does not have.
\<close>

record follower =
  fo_journal :: journal
  fo_tailer :: tailer
  fo_seen :: "frame list"

inductive follows :: "follower \<Rightarrow> follower \<Rightarrow> bool" for w0 where
  attached: "follows w0 w0"
| appended: "follows w0 w \<Longrightarrow> follows w0 (w\<lparr>fo_journal := snd (journal_append kind now payload (fo_journal w))\<rparr>)"
| flushed: "follows w0 w \<Longrightarrow> journal_flush os (fo_journal w) = (Inr x, j') \<Longrightarrow> follows w0 (w\<lparr>fo_journal := j'\<rparr>)"
| delivered: "follows w0 w \<Longrightarrow> next_record (disk (fo_journal w)) (fo_tailer w) = (Inr (Some f), t') \<Longrightarrow>
    follows w0 (w\<lparr>fo_tailer := t', fo_seen := fo_seen w @ [f]\<rparr>)"
| idle: "follows w0 w \<Longrightarrow> next_record (disk (fo_journal w)) (fo_tailer w) = (Inr None, t') \<Longrightarrow>
    follows w0 (w\<lparr>fo_tailer := t'\<rparr>)"

subsection \<open>What the writer does to the directory\<close>

lemma append_keeps:
  "disk (snd (journal_append kind now payload j)) = disk j"
  "durable_frames (snd (journal_append kind now payload j)) = durable_frames j"
  by (simp_all add: journal_append_def disk_def durable_frames_def Let_def split: option.split)

lemma append_invariant:
  assumes "journal_ok j"
  shows "journal_ok (snd (journal_append kind now payload j))"
    "length (pending_frames j) \<le> length (pending_frames (snd (journal_append kind now payload j)))"
proof -
  have "journal_ok (snd (journal_append kind now payload j)) \<and>
    length (pending_frames j) \<le> length (pending_frames (snd (journal_append kind now payload j)))"
  proof (cases "length payload \<le> MAX_PAYLOAD")
    case True
    then show ?thesis using append_ok [OF assms True, of kind now] by simp
  next
    case False
    then have "snd (journal_append kind now payload j) = j" by (simp add: journal_append_def split: option.split)
    then show ?thesis using assms by simp
  qed
  then show "journal_ok (snd (journal_append kind now payload j))"
    "length (pending_frames j) \<le> length (pending_frames (snd (journal_append kind now payload j)))" by auto
qed

lemma flush_grows:
  assumes "journal_ok j" "journal_flush os j = (Inr x, j')"
  shows "grows (disk j) (disk j')"
proof -
  have inv: "jn_poisoned j = None" "jn_buffer j = log_bytes (pending_frames j)" "list_all frame_ok (pending_frames j)"
    using assms(1) by (auto simp: journal_ok_def)
  consider "j' = j" | "disk j' = jn_closed j @ [(jn_segment_base j, jn_segment_file j @ jn_buffer j)]"
    | m where "disk j' = jn_closed j @ (jn_segment_base j, jn_segment_file j @ jn_buffer j) # [m]"
    using assms(2) inv(1)
    by (auto simp: journal_flush_def roll_def disk_def Let_def split: if_splits option.splits)
  then show ?thesis
  proof cases
    case 1
    then show ?thesis unfolding grows_def disk_def by (intro exI [of _ "[]"] exI) auto
  next
    case 2
    then show ?thesis unfolding grows_def disk_def [of j] inv(2) using inv(3) by blast
  next
    case 3
    then show ?thesis unfolding grows_def disk_def [of j] inv(2) using inv(3) by blast
  qed
qed

lemma journal_dir_ok:
  assumes "journal_ok j" "full (jn_closed j)" "length (durable_frames j) + 2 < 2 ^ 64"
  shows "dir_ok (disk j)"
  using assms chain_distinct [of 1 "jn_closed j" "(jn_segment_base j, jn_segment_file j)"]
  by (simp add: dir_ok_def journal_ok_def disk_def durable_frames_def)

subsection \<open>The follower keeps step\<close>

lemma follows_journal:
  "follows w0 w \<Longrightarrow> journal_ok (fo_journal w0) \<Longrightarrow> full (jn_closed (fo_journal w0)) \<Longrightarrow>
   journal_ok (fo_journal w) \<and> full (jn_closed (fo_journal w))"
proof (induction rule: follows.induct)
  case (appended w kind now payload)
  then show ?case by (simp add: append_invariant append_closed)
next
  case (flushed w os x j')
  then show ?case using flush_Inr_ok [of "fo_journal w" os x j'] flush_full [of "fo_journal w" os] by simp
qed simp_all

definition log_length :: "journal \<Rightarrow> nat" where
  "log_length j = length (durable_frames j @ pending_frames j)"

lemma follows_length:
  "follows w0 w \<Longrightarrow> journal_ok (fo_journal w0) \<Longrightarrow> full (jn_closed (fo_journal w0)) \<Longrightarrow>
   log_length (fo_journal w0) \<le> log_length (fo_journal w)"
proof (induction rule: follows.induct)
  case (appended w kind now payload)
  have "journal_ok (fo_journal w)" using follows_journal [OF appended.hyps appended.prems] by simp
  from append_invariant(2) [OF this, of kind now payload] show ?case
    using appended.IH [OF appended.prems] by (simp add: log_length_def append_keeps)
next
  case (flushed w os x j')
  have "journal_ok (fo_journal w)" using follows_journal [OF flushed.hyps(1) flushed.prems] by simp
  from flush_Inr_ok [OF this flushed.hyps(2)] show ?case using flushed.IH [OF flushed.prems] by (simp add: log_length_def)
qed simp_all

definition in_step :: "nat \<Rightarrow> follower \<Rightarrow> bool" where
  "in_step n w \<longleftrightarrow> n \<le> length (durable_frames (fo_journal w)) \<and>
     (\<exists>rest. stands (disk (fo_journal w)) (fo_tailer w) rest \<and> drop n (durable_frames (fo_journal w)) = fo_seen w @ rest)"

lemma in_step_follows:
  assumes "follows w0 w" "journal_ok (fo_journal w0)" "full (jn_closed (fo_journal w0))" "in_step n w0"
    "log_length (fo_journal w) + 2 < 2 ^ 64"
  shows "in_step n w"
  using assms(1,5)
proof (induction rule: follows.induct)
  case attached
  then show ?case using assms(4) by simp
next
  case (appended w kind now payload)
  have ok: "journal_ok (fo_journal w)" using follows_journal [OF appended.hyps assms(2,3)] by simp
  have "log_length (fo_journal w) + 2 < 2 ^ 64"
    using appended.prems append_invariant(2) [OF ok, of kind now payload] by (simp add: log_length_def append_keeps)
  then show ?case using appended.IH by (simp add: in_step_def append_keeps)
next
  case (flushed w os x j')
  have j: "journal_ok (fo_journal w)" "full (jn_closed (fo_journal w))" using follows_journal [OF flushed.hyps(1) assms(2,3)] by auto
  note fl = flush_Inr_ok [OF j(1) flushed.hyps(2)]
  have bound: "log_length (fo_journal w) + 2 < 2 ^ 64" using flushed.prems fl by (simp add: log_length_def)
  then have dir: "dir_ok (disk (fo_journal w))" using journal_dir_ok [OF j] by (simp add: log_length_def)
  from flushed.IH [OF bound] obtain rest where rest: "n \<le> length (durable_frames (fo_journal w))"
    "stands (disk (fo_journal w)) (fo_tailer w) rest" "drop n (durable_frames (fo_journal w)) = fo_seen w @ rest"
    by (auto simp: in_step_def)
  from stands_grows [OF dir flush_grows [OF j(1) flushed.hyps(2)] rest(2)] obtain new where
    "durable_frames j' = durable_frames (fo_journal w) @ new" "stands (disk j') (fo_tailer w) (rest @ new)"
    by (auto simp: durable_frames_def)
  then show ?case using rest by (auto simp: in_step_def)
next
  case (delivered w f t')
  have "dir_ok (disk (fo_journal w))"
    using follows_journal [OF delivered.hyps(1) assms(2,3)] journal_dir_ok delivered.prems by (simp add: log_length_def)
  moreover obtain rest where "n \<le> length (durable_frames (fo_journal w))"
    "stands (disk (fo_journal w)) (fo_tailer w) rest" "drop n (durable_frames (fo_journal w)) = fo_seen w @ rest"
    using delivered.IH delivered.prems by (auto simp: in_step_def)
  ultimately show ?case
    using next_record_stands [of "disk (fo_journal w)" "fo_tailer w" rest] delivered.hyps(2) by (cases rest) (auto simp: in_step_def)
next
  case (idle w t')
  have "dir_ok (disk (fo_journal w))"
    using follows_journal [OF idle.hyps(1) assms(2,3)] journal_dir_ok idle.prems by (simp add: log_length_def)
  moreover obtain rest where "n \<le> length (durable_frames (fo_journal w))"
    "stands (disk (fo_journal w)) (fo_tailer w) rest" "drop n (durable_frames (fo_journal w)) = fo_seen w @ rest"
    using idle.IH idle.prems by (auto simp: in_step_def)
  ultimately show ?case
    using next_record_stands [of "disk (fo_journal w)" "fo_tailer w" rest] idle.hyps(2) by (cases rest) (auto simp: in_step_def)
qed

subsection \<open>Properties\<close>



text \<open>
  A roll in the middle of a call. The tailer has read to the end of its segment and found nothing; the writer then
  writes \<open>fs\<close> behind it and rolls; the listing that follows in the same call shows the new segment, and the tailer
  goes on there. The records \<open>fs\<close> are passed over, and the next record of the new segment is reported as a gap.
\<close>

theorem roll_in_the_middle_looks_like_a_gap:
  assumes "dir_ok dir" "dir_ok dir'" "dir = closed @ [(b, x)]" "dir' = closed @ (b, x @ log_bytes fs) # (b', y) # later"
    "list_all frame_ok fs" "fs \<noteq> []" "frames_in (body y) = g # gs" "length (frames_of dir') + 2 < 2 ^ 64"
    "stands dir t []" "tl_segments t = map fst dir" "tl_file t = Some b"
  shows "\<exists>t'. read_frame_at (open_file dir t) (tl_offset t) = Inr None \<and> rescan dir' t = (True, t') \<and>
    fst (next_record dir' t') = Inl (SequenceGap (tl_next_seq t) (fh_seq (fst g)))"
proof -
  obtain pre post where st: "tl_index t < length dir" "frames_in (body (snd (dir ! tl_index t))) = pre @ post"
    "fst (dir ! tl_index t) = b" "tl_offset t = SEGMENT_HEADER_LEN + length (log_bytes pre)"
    "[] = post @ frames_of (drop (Suc (tl_index t)) dir)" "tl_next_seq t = seq_after 1 (frames_of (take (tl_index t) dir) @ pre)"
    using assms(9,11) by (auto simp: stands_def)
  have "map fst dir ! tl_index t = b" using st(1,3) by simp
  moreover have "map fst dir ! length closed = b" using assms(3) by (simp add: nth_append)
  ultimately have "map fst dir ! tl_index t = map fst dir ! length closed" by simp
  then have i: "tl_index t = length closed"
    using assms(1,3) st(1) nth_eq_iff_index_eq [of "map fst dir" "tl_index t" "length closed"] by (auto simp: dir_ok_def)
  have pre: "frames_in (body x) = pre" "post = []" using st(2,5) i assms(3) by simp_all
  have segx: "segment_ok b x (pre @ [])" using chain_nth [of 1 dir "length closed"] assms(1,3) pre by (simp add: dir_ok_def)
  have "read_frame_at (open_file dir t) (tl_offset t) = Inr None"
    using read_segment [OF segx] open_file_eq [OF assms(1), of "length closed" t] assms(3,11) st(4) by simp
  moreover define t' where "t' = t\<lparr>tl_segments := map fst dir', tl_index := tl_index t + 1, tl_file := None, tl_offset := 0\<rparr>"
  have "rescan dir' t = (True, t')"
    using assms(3,4,10) i by (simp add: rescan_def segment_bases_def Let_def t'_def)
  moreover have "fst (next_record dir' t') = Inl (SequenceGap (tl_next_seq t) (fh_seq (fst g)))"
  proof -
    let ?n = "Suc (length closed)"
    have at: "?n < length dir'" "dir' ! ?n = (b', y)" using assms(4) by (simp_all add: nth_append)
    have there: "map_of dir' b' = Some y" using dir_file [OF assms(2) at(1)] at(2) by simp
    have segy: "segment_ok b' y ([] @ g # gs)" using chain_nth [of 1 dir' ?n] assms(2,7) at by (simp add: dir_ok_def)
    have grown: "frames_in (body (x @ log_bytes fs)) = pre @ fs"
      using segment_frames_grow [of b x fs] segx pre assms(5) by simp
    have all: "frames_of dir' = frames_of dir @ fs @ g # gs @ frames_of later" using assms(3,4,7) grown pre by simp
    have run: "seq_run 1 (frames_of dir')" using assms(2) chain_seq_run by (simp add: dir_ok_def)
    have "unat (fh_seq (fst g)) = length (frames_of dir) + length fs + 1"
      using seq_run_nth [OF run, of "length (frames_of dir) + length fs"] assms(8) by (simp add: all nth_append)
    moreover have "frames_of (take (tl_index t) dir) @ pre = frames_of dir" using i assms(3) pre by simp
    then have "unat (tl_next_seq t) = length (frames_of dir) + 1"
      using st(6) unat_seq_after [of 1 "frames_of dir"] assms(8) all by simp
    ultimately have "fh_seq (fst g) \<noteq> tl_next_seq t" using assms(6) by auto
    then show ?thesis
      using read_segment [OF segy] at there i
      by (subst next_record.simps)
        (simp add: ensure_open_def open_current_def open_file_def t'_def Let_def case_prod_unfold)
  qed
  ultimately show ?thesis by blast
qed

end
