(* ===== verification/Texts.thy ===== *)
theory Texts
  imports Guards
begin

text \<open>
  Texts the engine builds for its records: concatenations of literals, printed numbers and the texts of
  ids. Shown here: they are valid UTF-8 without the padding byte, so an inline string made of one, or left
  empty because it does not fit, survives the disk.
\<close>

definition printable :: "str \<Rightarrow> bool" where
  "printable s \<longleftrightarrow> utf8_valid s \<and> 0 \<notin> set s"

subsection \<open>UTF-8 under concatenation and slicing\<close>

lemma utf8_cont_narrow:
  "160 \<le> c \<Longrightarrow> c \<le> 191 \<Longrightarrow> utf8_cont c" "144 \<le> c \<Longrightarrow> c \<le> 191 \<Longrightarrow> utf8_cont c"
  "128 \<le> c \<Longrightarrow> c \<le> 159 \<Longrightarrow> utf8_cont c" "128 \<le> c \<Longrightarrow> c \<le> 143 \<Longrightarrow> utf8_cont c"
  using order_trans [of 128 160 c] order_trans [of 128 144 c] order_trans [of c 159 191] order_trans [of c 143 191]
  by (simp_all add: utf8_cont_def)

lemma utf8_tail_shape:
  assumes "utf8_tail b bs = Some k"
  shows "\<exists>cs ds. bs = cs @ ds \<and> length cs = k \<and> list_all utf8_cont cs \<and> (\<forall>ds. utf8_tail b (cs @ ds) = Some k)"
proof (cases "b < 128")
  case True
  then show ?thesis using assms by (intro exI [of _ "[]"] exI [of _ bs]) (auto simp: utf8_tail_def)
next
  case hi: False
  then obtain c cs where bs: "bs = c # cs" using assms by (auto simp: utf8_tail_def split: list.splits)
  consider "194 \<le> b \<and> b \<le> 223" | "\<not> (194 \<le> b \<and> b \<le> 223)" "224 \<le> b \<and> b \<le> 239"
    | "\<not> (194 \<le> b \<and> b \<le> 223)" "\<not> (224 \<le> b \<and> b \<le> 239)" "240 \<le> b \<and> b \<le> 244"
    using assms hi bs by (auto simp: utf8_tail_def split: if_splits)
  then show ?thesis
  proof cases
    case 1
    then show ?thesis using assms hi bs
      by (intro exI [of _ "[c]"] exI [of _ cs]) (auto simp: utf8_tail_def split: if_splits)
  next
    case 2
    let ?first = "if b = 224 then 160 \<le> c \<and> c \<le> 191 else if b = 237 then 128 \<le> c \<and> c \<le> 159 else utf8_cont c"
    have eq: "utf8_tail b (c # xs) = (if ?first \<and> (case xs of d # _ \<Rightarrow> utf8_cont d | [] \<Rightarrow> False) then Some 2 else None)" for xs
      using hi 2 by (simp add: utf8_tail_def)
    have ok: ?first "case cs of d # _ \<Rightarrow> utf8_cont d | [] \<Rightarrow> False" "k = 2"
      using assms unfolding bs eq by (simp_all split: if_split_asm)
    then obtain d ds where cs: "cs = d # ds" "utf8_cont d" by (auto split: list.splits)
    have "utf8_cont c" using ok(1) utf8_cont_narrow by (simp split: if_split_asm)
    then show ?thesis using ok cs bs eq by (intro exI [of _ "[c, d]"] exI [of _ ds]) simp
  next
    case 3
    let ?first = "if b = 240 then 144 \<le> c \<and> c \<le> 191 else if b = 244 then 128 \<le> c \<and> c \<le> 143 else utf8_cont c"
    have eq: "utf8_tail b (c # xs) =
        (if ?first \<and> (case xs of d # e # _ \<Rightarrow> utf8_cont d \<and> utf8_cont e | _ \<Rightarrow> False) then Some 3 else None)" for xs
      by (simp only: utf8_tail_def hi 3 list.case if_True if_False simp_thms)
    have ok: ?first "case cs of d # e # _ \<Rightarrow> utf8_cont d \<and> utf8_cont e | _ \<Rightarrow> False" "k = 3"
      using assms unfolding bs eq by (simp_all split: if_split_asm)
    then obtain d e ds where cs: "cs = d # e # ds" "utf8_cont d" "utf8_cont e" by (auto split: list.splits)
    have "utf8_cont c" using ok(1) utf8_cont_narrow by (simp split: if_split_asm)
    then show ?thesis using ok cs bs eq by (intro exI [of _ "[c, d, e]"] exI [of _ ds]) simp
  qed
qed

lemma utf8_tail_Some:
  "utf8_tail b bs = Some k \<Longrightarrow> k \<le> length bs \<and> (\<forall>i < k. utf8_cont (bs ! i))"
  using utf8_tail_shape [of b bs k] by (auto simp: nth_append list_all_length)

lemma utf8_tail_cong:
  assumes "utf8_tail b bs = Some k" "take k cs = take k bs"
  shows "utf8_tail b cs = Some k"
proof -
  obtain xs ys where xs: "bs = xs @ ys" "length xs = k" "\<forall>ds. utf8_tail b (xs @ ds) = Some k"
    using utf8_tail_shape [OF assms(1)] by blast
  then have "cs = xs @ drop k cs" using assms(2) by (metis append_eq_conv_conj append_take_drop_id)
  with xs(3) show ?thesis by metis
qed

lemma utf8_valid_append: "utf8_valid xs \<Longrightarrow> utf8_valid ys \<Longrightarrow> utf8_valid (xs @ ys)"
proof (induction xs rule: utf8_valid.induct)
  case (2 b bs)
  then obtain k where k: "utf8_tail b bs = Some k" "utf8_valid (drop k bs)" by (auto split: option.splits)
  have "utf8_tail b (bs @ ys) = Some k" using utf8_tail_cong [OF k(1)] utf8_tail_Some [OF k(1)] by simp
  then show ?case using 2(1) [OF k(1) k(2) 2(3)] utf8_tail_Some [OF k(1)] by simp
qed simp

lemma utf8_valid_take: "utf8_valid s \<Longrightarrow> n \<le> length s \<Longrightarrow> is_char_boundary s n \<Longrightarrow> utf8_valid (take n s)"
proof (induction s arbitrary: n rule: utf8_valid.induct)
  case (2 b bs)
  obtain k where k: "utf8_tail b bs = Some k" "utf8_valid (drop k bs)" using 2(2) by (auto split: option.splits)
  note tail = utf8_tail_Some [OF k(1)]
  show ?case
  proof (cases n)
    case (Suc m)
    have "k \<le> m"
    proof (rule ccontr)
      assume "\<not> k \<le> m"
      then have "utf8_cont ((b # bs) ! n)" "n < length (b # bs)" using tail Suc by auto
      then show False using 2(4) Suc by (auto simp: is_char_boundary_def)
    qed
    moreover have "is_char_boundary (drop k bs) (m - k)"
      using 2(4) Suc \<open>k \<le> m\<close> tail by (auto simp: is_char_boundary_def)
    ultimately have "utf8_valid (take (m - k) (drop k bs))"
      using 2(1) [OF k, of "m - k"] 2(3) Suc by simp
    moreover have "utf8_tail b (take m bs) = Some k"
      using utf8_tail_cong [OF k(1), of "take m bs"] \<open>k \<le> m\<close> by (simp add: min_absorb1)
    ultimately show ?thesis using Suc by (simp add: drop_take)
  qed simp
qed simp

subsection \<open>Printable texts\<close>

lemma printable_append [simp]: "printable xs \<Longrightarrow> printable ys \<Longrightarrow> printable (xs @ ys)"
  by (auto simp: printable_def intro: utf8_valid_append)

lemma printable_ascii: "list_all (\<lambda>b. b \<noteq> 0 \<and> b < 128) s \<Longrightarrow> printable s"
  by (auto simp: printable_def list_all_iff intro!: utf8_valid_ascii)

lemma printable_digits: "all_digits s \<Longrightarrow> printable s"
  by (intro printable_ascii) (auto simp: all_digits_def list_all_iff is_ascii_digit_def word_le_nat_alt word_less_nat_alt)

lemma printable_dec [simp]: "printable (dec n)"
  by (simp add: printable_digits dec_digits)

lemma printable_Cons [simp]: "b \<noteq> 0 \<Longrightarrow> b < 128 \<Longrightarrow> printable s \<Longrightarrow> printable (b # s)"
  by (simp add: printable_def utf8_tail_def)

lemma printable_Nil [simp]: "printable []"
  by (simp add: printable_def)

lemma printable_lit [simp]:
  "list_all (\<lambda>c. (of_char c :: u8) \<noteq> 0 \<and> (of_char c :: u8) < 128) s \<Longrightarrow> printable (lit s)"
  by (intro printable_ascii) (simp add: lit_def list_all_iff)

lemma printable_dec_i64 [simp]: "printable (dec_i64 x)"
  by (simp add: dec_i64_def)

lemma all_digits_trim: "all_digits s \<Longrightarrow> all_digits (trim_zeros s)"
  by (auto simp: all_digits_def trim_zeros_def list_all_iff dest: set_dropWhileD)

lemma printable_format [simp]: "printable (format_e8 x)"
  by (simp add: format_e8_def Let_def printable_digits all_digits_trim pad_dec_def dec_digits)

lemma printable_as_str [simp]: "text_ok N s \<Longrightarrow> printable (as_str s)"
  by (auto simp: text_ok_def inline_wf_def inline_nul_free_def as_str_def printable_def inline_len_def Let_def list_all_iff)


lemma printable_inline:
  assumes "printable s" "N \<le> 255"
  shows "text_ok N (inline_or_default N s)"
proof (cases "length s \<le> N")
  case True
  then obtain x where x: "inline_new N s = Inr x" by (simp add: inline_new_def)
  have "take (inline_len x) (str_bytes x) = s"
    using x True assms(2) by (auto simp: inline_new_def inline_len_def unat_of_nat_u8)
  then show ?thesis
    using inline_new_wf [OF x assms(2)] assms(1) x
    by (auto simp: text_ok_def inline_or_default_def inline_nul_free_def printable_def list_all_iff)
next
  case False
  then have "inline_or_default N s = inline_or_default N []"
    by (simp add: inline_or_default_def inline_new_def inline_empty_def unwrap_or_def)
  then show ?thesis using text_ok_ascii [of "[]" N] assms(2) by simp
qed

lemma note_new_ok [simp]: "printable s \<Longrightarrow> text_ok 96 (note_new s)"
  by (simp add: note_new_def printable_inline)

lemma inline_empty_ok [simp]: "N \<le> 255 \<Longrightarrow> text_ok N (inline_empty N)"
  using text_ok_ascii [of "[]" N] by (simp add: inline_or_default_def inline_new_def inline_empty_def unwrap_or_def)

lemma printable_side [simp]: "printable (wire_as_str side_table s)"
  by (cases s) (simp_all add: wire_as_str_def side_table_def)

lemma printable_order_kind [simp]: "printable (wire_as_str order_kind_table s)"
  by (cases s) (simp_all add: wire_as_str_def order_kind_table_def)

lemma printable_cause [simp]: "printable (cause_as_str c)"
  by (cases c) simp_all

lemma refusal_note_ok:
  "(\<And>c. r = InstrumentLocked c \<Longrightarrow> text_ok 36 c) \<Longrightarrow> (\<And>c. r = EntryAlreadyLive c \<Longrightarrow> text_ok 36 c) \<Longrightarrow>
   text_ok 96 (refusal_note r)"
  by (cases r) simp_all

end
