(* ===== verification/Replay.thy ===== *)
theory Replay
  imports Runs Texts
begin

text \<open>
  Replay: the book the engine holds and the book a restart would rebuild from the engine's log.

  Shown here: as long as no record is refused the two are the same, over any run of commands and flushes; and
  a lifecycle record that is refused after it was appended leaves a log that no longer rebuilds.
\<close>

subsection \<open>One write\<close>

definition log_frames :: "journal \<Rightarrow> frame list" where
  "log_frames j = durable_frames j @ pending_frames j"

definition rebuilt :: "frame list \<Rightarrow> journal_error ledger_error + book" where
  "rebuilt fs = rebuild (map Inr fs)"

definition sound :: "engine \<Rightarrow> bool" where
  "sound e \<longleftrightarrow> journal_ok (en_journal e) \<and> rebuilt (log_frames (en_journal e)) = Inr (en_book e)"

lemma rebuild_loop_append:
  "rebuild_loop (xs @ ys) b = res_bind (rebuild_loop xs b) (rebuild_loop ys)"
proof (induction xs arbitrary: b)
  case (Cons x xs)
  then show ?case by (cases x) (auto simp: res_bind_def map_err_def split: prod.splits sum.splits)
qed (simp add: res_bind_def)

lemma rebuilt_snoc:
  "rebuilt fs = Inr b \<Longrightarrow> record_wf r \<Longrightarrow> fh_kind h = Records.record_kind r \<Longrightarrow>
   rebuilt (fs @ [(h, record_encode r)]) = (case book_apply h r b of (Inl x, _) \<Rightarrow> Inl x | (Inr _, b') \<Rightarrow> Inr b')"
  by (simp add: rebuilt_def rebuild_def rebuild_loop_append record_read_back split: prod.split sum.split)

lemma write_header_eq:
  assumes "length (record_encode r) \<le> MAX_PAYLOAD" "jn_epoch j' = jn_epoch j"
  shows "write_header j' (jn_next_seq j) now r = append_header j (Records.record_kind r) now (record_encode r)"
  using assms by (simp add: write_header_def append_header_def MAX_PAYLOAD_def)

text \<open>A well-formed record is always appended; whether it is applied is up to the book.\<close>

lemma write_at_eq:
  fixes now
  assumes "journal_ok (en_journal e)" "record_wf r"
  defines "h \<equiv> append_header (en_journal e) (Records.record_kind r) now (record_encode r)"
  obtains j' where "write_at now r e =
      (map_err (\<lambda>x. Failed (ELedger x)) (fst (book_apply h r (en_book e))),
       e\<lparr>en_journal := j', en_book := snd (book_apply h r (en_book e) :: (journal_error ledger_error + applied) \<times> book)\<rparr>)"
    "journal_ok j'" "log_frames j' = log_frames (en_journal e) @ [(h, record_encode r)]"
    "durable_frames j' = durable_frames (en_journal e)"
proof -
  let ?k = "Records.record_kind r" and ?p = "record_encode r"
  let ?j = "snd (journal_append ?k now ?p (en_journal e))"
  have len: "length ?p \<le> MAX_PAYLOAD" using record_encode_length [OF assms(2)] record_len_fits by simp
  have np: "jn_poisoned (en_journal e) = None" using assms(1) by (simp add: journal_ok_def)
  note st = append_state [OF np len, of ?k now] and ok = append_ok [OF assms(1) len, of ?k now]
  have ap: "journal_append ?k now ?p (en_journal e) = (Inr (jn_next_seq (en_journal e)), ?j)"
    using st(1) by (metis prod.collapse)
  have hd: "write_header ?j (jn_next_seq (en_journal e)) now r = h"
    unfolding h_def using write_header_eq [OF len] st(4) by blast
  show thesis
  proof (rule that [of ?j])
    show "write_at now r e = (map_err (\<lambda>x. Failed (ELedger x)) (fst (book_apply h r (en_book e))),
       e\<lparr>en_journal := ?j, en_book := snd (book_apply h r (en_book e) :: (journal_error ledger_error + applied) \<times> book)\<rparr>)"
      unfolding write_at_def op_bind_def op_read_def on_journal_def
      by (subst ap) (simp add: hd on_book_def map_err_def split: prod.split)
    show "journal_ok ?j" "durable_frames ?j = durable_frames (en_journal e)" by (rule ok)+
    show "log_frames ?j = log_frames (en_journal e) @ [(h, ?p)]" using ok by (simp add: log_frames_def h_def)
  qed
qed

lemma write_sound:
  assumes "sound e" "record_wf r" "write_at now r e = (Inr x, e')"
  shows "sound e'"
proof -
  have ok: "journal_ok (en_journal e)" "rebuilt (log_frames (en_journal e)) = Inr (en_book e)"
    using assms(1) by (auto simp: sound_def)
  let ?h = "append_header (en_journal e) (Records.record_kind r) now (record_encode r)"
  obtain j' where j': "write_at now r e = (map_err (\<lambda>x. Failed (ELedger x)) (fst (book_apply ?h r (en_book e))),
       e\<lparr>en_journal := j', en_book := snd (book_apply ?h r (en_book e) :: (journal_error ledger_error + applied) \<times> book)\<rparr>)"
    "journal_ok j'" "log_frames j' = log_frames (en_journal e) @ [(?h, record_encode r)]"
    using write_at_eq [OF ok(1) assms(2), of now] by metis
  obtain y b' where ap: "book_apply ?h r (en_book e) = (Inr y :: journal_error ledger_error + applied, b')"
    using j'(1) assms(3) by (cases "book_apply ?h r (en_book e) :: (journal_error ledger_error + applied) \<times> book")
      (auto simp: map_err_def split: sum.splits)
  have "e' = e\<lparr>en_journal := j', en_book := b'\<rparr>" using j'(1) assms(3) ap by simp
  moreover have "rebuilt (log_frames j') = Inr b'"
    unfolding j'(3) using rebuilt_snoc [OF ok(2) assms(2), of ?h] ap by (simp add: append_header_def)
  ultimately show ?thesis using j'(2) by (simp add: sound_def)
qed

text \<open>The converse: a record the book refuses is in the log all the same.\<close>

lemma write_refused:
  assumes "sound e" "record_wf r" "write_at now r e = (Inl f, e')"
  obtains err where "f = Failed (ELedger err)" "journal_ok (en_journal e')" "rebuilt (log_frames (en_journal e')) = Inl err"
proof -
  have ok: "journal_ok (en_journal e)" "rebuilt (log_frames (en_journal e)) = Inr (en_book e)"
    using assms(1) by (auto simp: sound_def)
  let ?h = "append_header (en_journal e) (Records.record_kind r) now (record_encode r)"
  obtain j' where j': "write_at now r e = (map_err (\<lambda>x. Failed (ELedger x)) (fst (book_apply ?h r (en_book e))),
       e\<lparr>en_journal := j', en_book := snd (book_apply ?h r (en_book e) :: (journal_error ledger_error + applied) \<times> book)\<rparr>)"
    "journal_ok j'" "log_frames j' = log_frames (en_journal e) @ [(?h, record_encode r)]"
    using write_at_eq [OF ok(1) assms(2), of now] by metis
  obtain err b' where ap: "book_apply ?h r (en_book e) = (Inl err :: journal_error ledger_error + applied, b')" "f = Failed (ELedger err)"
    using j'(1) assms(3)
    by (cases "book_apply ?h r (en_book e) :: (journal_error ledger_error + applied) \<times> book"; cases "fst (book_apply ?h r (en_book e) :: (journal_error ledger_error + applied) \<times> book)")
      (auto simp: map_err_def)
  have "rebuilt (log_frames j') = Inl err"
    unfolding j'(3) using rebuilt_snoc [OF ok(2) assms(2), of ?h] ap by (simp add: append_header_def)
  moreover have "en_journal e' = j'" using j'(1) assms(3) by auto
  ultimately show thesis using that ap(2) j'(2) by simp
qed

subsection \<open>The texts of a rebuilt book\<close>

definition book_texts :: "book \<Rightarrow> bool" where
  "book_texts b \<longleftrightarrow> (\<forall>c o'. hm_get (bk_orders b) c = Some o' \<longrightarrow> text_ok 36 c \<and> text_ok 16 (oc_instrument (od_core o')))"

lemma record_fill_orders:
  "bk_orders (snd (book_record_fill h c o' ev b :: (journal_error ledger_error + unit) \<times> book)) = bk_orders b"
  by (cases ev) (auto simp: book_record_fill_def op_defs Let_def split: prod.splits)

lemma book_texts_event:
  assumes "book_texts b"
  shows "book_texts (snd (apply_order_event h c f g ev b :: (journal_error ledger_error + applied) \<times> book))"
proof (cases rule: apply_order_event_cases [of h c f g ev b, where 'j = journal_error])
  case (still r)
  then show ?thesis using assms by simp
next
  case (step o' nxt)
  obtain r b1 where fill: "book_record_fill h c o' ev b = (r :: journal_error ledger_error + unit, b1)" by fastforce
  have b1: "bk_orders b1 = bk_orders b" using record_fill_orders [of h c o' ev b] fill by simp
  have "oc_instrument nxt = oc_instrument (od_core o')"
    using transition_identity [OF step(4)] by (simp add: same_identity_def)
  then show ?thesis
    using assms step(1) fill b1 unfolding step(6)
    by (auto simp: op_seq_def op_bind_def book_store_order_eq book_texts_def split: sum.split)
qed

lemma book_texts_apply:
  "book_texts b \<Longrightarrow> record_wf r \<Longrightarrow> book_texts (snd (book_apply h r b :: (journal_error ledger_error + applied) \<times> book))"
  using book_texts_event [of "book_stamp h b"]
  by (cases r) (auto simp: book_apply_def op_seq_modify apply_record_def apply_intent_def op_defs book_texts_def
      book_stamp_def order_of_intent_def created_def split: decision_kind.splits)

lemma rebuild_texts:
  "rebuild_loop items b = (Inr b' :: journal_error ledger_error + book) \<Longrightarrow> book_texts b \<Longrightarrow> book_texts b'"
proof (induction items b rule: rebuild_loop.induct)
  case (3 h payload items b)
  from 3(2) obtain rec where dec: "record_decode (fh_kind h) payload = Inr rec" by auto
  with 3(2) obtain r b1 where ap: "book_apply h rec b = (Inr r :: journal_error ledger_error + applied, b1)"
    and rest: "rebuild_loop items b1 = (Inr b' :: journal_error ledger_error + book)"
    by (auto split: prod.splits sum.splits)
  have "book_texts b1" using book_texts_apply [OF 3(3) record_decode_Inr(1) [OF dec], of h] ap by simp
  then show ?case by (rule 3(1) [OF ap [symmetric] refl rest])
qed auto

lemma sound_texts: "sound e \<Longrightarrow> book_texts (en_book e)"
  using rebuild_texts [of "map Inr (log_frames (en_journal e))" book_new "en_book e"]
  by (auto simp: sound_def rebuilt_def rebuild_def book_texts_def book_new_def)

lemma sound_book_inv: "sound e \<Longrightarrow> book_inv (en_book e)"
  by (auto simp: sound_def rebuilt_def intro: rebuild_inv)

lemma order_texts: "sound e \<Longrightarrow> book_order (en_book e) c = Some o' \<Longrightarrow> text_ok 36 c \<and> text_ok 16 (oc_instrument (od_core o'))"
  using sound_texts [of e] by (simp add: book_texts_def book_order_def)

subsection \<open>What keeps a log replayable\<close>

text \<open>An operation after which, if it returns, the log still rebuilds to the book.\<close>

definition replayable :: "'a engine_op \<Rightarrow> bool" where
  "replayable m \<longleftrightarrow> (\<forall>e x e'. sound e \<longrightarrow> m e = (Inr x, e') \<longrightarrow> sound e')"

named_theorems replay_intros \<open>operations that keep a log replayable\<close>

lemma replayable_ok [replay_intros]: "replayable (op_ok x)"
  by (simp add: replayable_def)

lemma replayable_err [replay_intros]: "replayable (op_err x)"
  by (simp add: replayable_def)

lemma replayable_bind: "replayable m \<Longrightarrow> (\<And>x. replayable (f x)) \<Longrightarrow> replayable (op_bind m f)"
  unfolding replayable_def op_bind_Inr by blast

lemma replayable_seq [replay_intros]: "replayable m \<Longrightarrow> replayable n \<Longrightarrow> replayable (op_seq m n)"
  unfolding op_seq_def by (rule replayable_bind)

lemma replayable_read: "(\<And>e. sound e \<Longrightarrow> replayable (f e)) \<Longrightarrow> replayable (op_read f)"
  unfolding replayable_def op_read_def by blast

lemma replayable_modify:
  "(\<And>e. en_journal (f e) = en_journal e \<and> en_book (f e) = en_book e) \<Longrightarrow> replayable (op_modify f)"
  by (simp add: replayable_def sound_def)

lemma replayable_for: "(\<And>x. x \<in> set xs \<Longrightarrow> replayable (f x)) \<Longrightarrow> replayable (op_for f xs)"
  by (induction xs) (auto intro: replay_intros)

lemma replayable_or_panic [replay_intros]: "replayable (or_panic x)"
  by (cases x) (auto simp: or_panic_def intro: replay_intros)

lemma replayable_request [replay_intros]: "replayable (request r)"
  unfolding request_def by (rule replayable_modify) simp

lemma replayable_write_at: "record_wf r \<Longrightarrow> replayable (write_at now r)"
  unfolding replayable_def using write_sound by blast

lemma replayable_write: "record_wf r \<Longrightarrow> replayable (write_record r)"
  unfolding write_record_def by (intro replayable_read replayable_write_at)

lemma event_record_wf: "text_ok 36 c \<Longrightarrow> event_wf ev \<Longrightarrow> record_wf (event_record b c t ev)"
  by (simp add: event_record_def Let_def)

lemma replayable_event: "text_ok 36 c \<Longrightarrow> event_wf ev \<Longrightarrow> replayable (write_event c t ev)"
  unfolding write_event_def by (intro replayable_read replayable_write event_record_wf)

lemma replayable_decide: "text_ok 16 i \<Longrightarrow> text_ok 96 n \<Longrightarrow> replayable (decide i a k t v n)"
  unfolding decide_def by (intro replay_intros replayable_write) simp

lemma replayable_halt: "text_ok 96 n \<Longrightarrow> replayable (on_halt n)"
  unfolding on_halt_def
  by (rule replayable_read) (auto intro!: replay_intros replayable_modify replayable_decide)

lemma replayable_resume: "text_ok 96 n \<Longrightarrow> replayable (on_resume n)"
  unfolding on_resume_def
  by (rule replayable_read) (auto intro!: replay_intros replayable_modify replayable_decide)

lemma replayable_ensure: "text_ok 36 c \<Longrightarrow> replayable (ensure_reconciling c t cause)"
  unfolding ensure_reconciling_def
  by (rule replayable_read)
    (auto intro!: replay_intros replayable_read replayable_event replayable_decide dest: order_texts split: option.split)

lemma replayable_begin: "text_ok 36 c \<Longrightarrow> replayable (begin_reconcile c t cause)"
  unfolding begin_reconcile_def
  by (rule replayable_read) (auto intro!: replay_intros replayable_modify replayable_ensure)

lemma printable_prefix: "str_prefix n s = Some t \<Longrightarrow> printable s \<Longrightarrow> printable t"
  by (auto simp: str_prefix_def printable_def intro: utf8_valid_take dest: in_set_takeD split: if_splits)

lemma exec_id_ok: "reconciliation_exec_id c q = Some x \<Longrightarrow> text_ok 36 c \<Longrightarrow> text_ok 40 x"
  by (auto simp: reconciliation_exec_id_def Let_def intro!: printable_inline dest!: printable_prefix)

lemma replayable_panic_bind:
  "(\<And>y. x = Some y \<Longrightarrow> replayable (f y)) \<Longrightarrow> replayable (op_bind (or_panic x) f)"
  by (cases x) (auto simp: or_panic_def op_bind_def replayable_def op_err_def op_ok_def)

lemma replayable_difference:
  assumes "text_ok 36 c"
  shows "replayable (book_the_difference c t q p)"
  unfolding book_the_difference_def Let_def
  by (rule replayable_read)
    (use assms in \<open>auto intro!: replay_intros replayable_halt replayable_panic_bind replayable_event replayable_decide
        dest: order_texts exec_id_ok split: option.split\<close>)

lemma replayable_adopt_records:
  "record_wf (IntentPersisted i) \<Longrightarrow> text_ok 40 x \<Longrightarrow> replayable (adopt_records i x q p)"
  unfolding adopt_records_def Let_def
  by (intro replay_intros replayable_write replayable_event replayable_decide) auto

lemma replayable_adopt:
  assumes "text_ok 16 (vp_instrument p)"
  shows "replayable (adopt_position p)"
  unfolding adopt_position_def Let_def
proof (intro replayable_read replayable_panic_bind)
  fix e head
  assume "str_prefix (min (inline_len (vp_instrument p)) 20) (as_str (vp_instrument p)) = Some head"
  then have head: "printable head" using assms by (auto dest: printable_prefix)
  let ?name = "lit ''ADOPT-'' @ head @ 45 # dec (unat (jn_epoch (en_journal e)))"
  have name: "printable ?name" using head by simp
  have err: "printable (intent_error_text x)" for x by (cases x) (simp_all add: intent_error_text_def)
  let ?m = "intent_market (inline_or_default 36 ?name) (vp_instrument p) (if e8_is_positive (vp_qty p) then Buy else Sell)
    (e8_abs (vp_qty p)) Entry (adoption_trace (jn_epoch (en_journal e)))"
  show "replayable (case ?m of
      Inl err \<Rightarrow> on_halt (note_new (as_str (vp_instrument p) @ lit '': cannot adopt '' @ format_e8 (vp_qty p) @
          lit '': '' @ intent_error_text err))
    | Inr intent \<Rightarrow> adopt_records intent (inline_or_default 40 ?name) (vp_qty p)
        (case vp_entry_price p of Some p \<Rightarrow> p
         | None \<Rightarrow> case book_mark (en_book e) (vp_instrument p) of Some p \<Rightarrow> p | None \<Rightarrow> e8_zero))"
  proof (cases ?m)
    case (Inl x)
    then show ?thesis using assms err by (auto intro!: replayable_halt)
  next
    case (Inr i)
    then have "record_wf (IntentPersisted i)"
      using assms name by (auto simp: intent_market_def intent_new_Inr printable_inline)
    then show ?thesis using Inr name by (auto intro!: replayable_adopt_records printable_inline)
  qed
qed

lemma printable_dash [simp]: "printable [226, 128, 148]"
  by (simp add: printable_def utf8_tail_def utf8_cont_def)

lemma replayable_reported:
  assumes "text_ok 16 (vp_instrument p)"
  shows "replayable (on_reported_position first p)"
proof -
  have "printable ([226, 128, 148] @ lit '' deferred to the next sweep'')"
    by (rule printable_append) simp_all
  then show ?thesis
    unfolding on_reported_position_def Let_def
    by (intro replayable_read)
      (use assms in \<open>auto intro!: replay_intros replayable_adopt replayable_decide replayable_halt
        printable_append note_new_ok simp del: append_Cons append.simps\<close>)
qed

definition command_wf :: "command \<Rightarrow> bool" where
  "command_wf command =
     (case command of
        Place i \<Rightarrow> record_wf (IntentPersisted i)
      | CancelOrder c _ \<Rightarrow> text_ok 36 c
      | Submitted c o' \<Rightarrow> text_ok 36 c \<and>
          (case o' of Acked v \<Rightarrow> text_ok 32 v | Rejected_by r \<Rightarrow> text_ok 64 (rr_text r) | SubmitTimedOut \<Rightarrow> True)
      | Cancelled c _ \<Rightarrow> text_ok 36 c
      | LookedUp c o' \<Rightarrow> text_ok 36 c \<and>
          (case o' of Found s \<Rightarrow> (case sn_venue_order_id s of Some v \<Rightarrow> text_ok 32 v | None \<Rightarrow> True) | _ \<Rightarrow> True)
      | Streamed ev \<Rightarrow>
          (case ev of VFill c x _ _ \<Rightarrow> text_ok 36 c \<and> text_ok 40 x | VCancelConfirmed c \<Rightarrow> text_ok 36 c
           | VMark i _ \<Rightarrow> text_ok 16 i | VBalance a _ \<Rightarrow> text_ok 8 a)
      | PositionsReported ps \<Rightarrow> list_all (\<lambda>p. case p of Some p \<Rightarrow> text_ok 16 (vp_instrument p) | None \<Rightarrow> True) ps
      | Halt n \<Rightarrow> text_ok 96 n
      | Resume n \<Rightarrow> text_ok 96 n
      | Decide _ i _ _ _ n \<Rightarrow> text_ok 16 i \<and> text_ok 96 n
      | _ \<Rightarrow> True)"

lemma book_order_id_ok:
  assumes "sound e" "o' \<in> set (book_orders (en_book e))"
  shows "text_ok 36 (oc_client_order_id (od_core o'))"
proof -
  have inv: "book_inv (en_book e)" using assms(1) by (rule sound_book_inv)
  obtain c where "hm_get (bk_orders (en_book e)) c = Some o'" using book_orders_mem [OF inv] assms(2) by blast
  moreover from this have "oc_client_order_id (od_core o') = c"
    using inv by (auto simp: book_inv_def hm_get_def dest: map_of_SomeD)
  ultimately show ?thesis using sound_texts [OF assms(1)] by (auto simp: book_texts_def)
qed

lemma live_orders_subset: "o' \<in> set (live_orders_on b i) \<Longrightarrow> o' \<in> set (book_orders b)"
  by (auto simp: live_orders_on_def live_orders_def)

lemma refusal_ok:
  assumes "sound e" "evaluate (en_book e) i l h = Refuse r"
  shows "text_ok 96 (refusal_note r)"
proof (rule refusal_note_ok)
  have names: "o' \<in> set (live_orders_on (en_book e) k) \<Longrightarrow> text_ok 36 (oc_client_order_id (od_core o'))" for o' k
    using book_order_id_ok [OF assms(1)] live_orders_subset by blast
  show "text_ok 36 c" if "r = InstrumentLocked c" for c
    using that assms(2) names
    by (auto simp: evaluate_def evaluate_entry_def evaluate_exit_def locking_order_def find_Some_iff Let_def
        split: if_splits option.splits) (meson nth_mem)+
  show "text_ok 36 c" if "r = EntryAlreadyLive c" for c
    using that assms(2) names
    by (auto simp: evaluate_def evaluate_entry_def evaluate_exit_def locking_order_def find_Some_iff Let_def
        split: if_splits option.splits) (meson nth_mem)+
qed

lemma clamp_positive: "evaluate b i l h = Clamp q \<Longrightarrow> 0 < sint q"
  by (auto simp: evaluate_def evaluate_entry_def evaluate_exit_def Let_def e8_is_zero_iff sint_e8_max e8_zero_def
      split: if_splits option.splits) 

lemma replayable_authorise: "record_wf (IntentPersisted i) \<Longrightarrow> replayable (authorise i)"
  unfolding authorise_def
  by (intro replay_intros replayable_write replayable_event replayable_decide) auto

lemma replayable_place:
  assumes "record_wf (IntentPersisted i)"
  shows "replayable (on_place i)"
proof -
  have clamp: "0 < sint q \<Longrightarrow> record_wf (IntentPersisted (i\<lparr>in_qty := q\<rparr>))" for q
    using assms by (simp add: intent_wf_def)
  show ?thesis
    unfolding on_place_def Let_def
    by (rule replayable_read)
      (use assms clamp in \<open>auto simp: refuse_def intro!: replay_intros replayable_begin replayable_authorise
        replayable_decide refusal_ok dest: clamp_positive split: option.split verdict.split\<close>)
qed

lemma replayable_tick: "replayable (on_tick now)"
proof -
  have "replayable (retry_one c)" for c
    unfolding retry_one_def by (intro replay_intros replayable_modify) (simp split: option.split)
  then show ?thesis
    unfolding on_tick_def retry_due_reconciliations_def
    by (intro replayable_read) (auto intro!: replay_intros replayable_write_at replayable_read replayable_for)
qed

lemma replayable_submitted:
  "command_wf (Submitted c o') \<Longrightarrow> replayable (on_submitted c o')"
  unfolding on_submitted_def Let_def
  by (rule replayable_read)
    (auto simp: command_wf_def intro!: replay_intros replayable_event replayable_begin split: submit_outcome.splits)

lemma replayable_cancelled: "text_ok 36 c \<Longrightarrow> replayable (on_cancelled c o')"
  unfolding on_cancelled_def
  by (rule replayable_read) (auto intro!: replay_intros replayable_begin split: cancel_outcome.split)

lemma replayable_looked_up:
  "command_wf (LookedUp c o') \<Longrightarrow> replayable (on_looked_up c o')"
  unfolding on_looked_up_def Let_def forget_reconciliation_def
  by (rule replayable_read)
    (auto simp: command_wf_def defer_reconcile_def intro!: replay_intros replayable_event replayable_ensure
      replayable_difference replayable_modify split: lookup_outcome.splits option.split)

lemma replayable_streamed: "command_wf (Streamed ev) \<Longrightarrow> replayable (on_streamed ev)"
proof -
  have ap: "replayable (apply_streamed c ev cause)" if "text_ok 36 c" "event_wf ev" for c ev cause
    unfolding apply_streamed_def Let_def disown_def
    by (rule replayable_read)
      (use that in \<open>auto intro!: replay_intros replayable_bind replayable_event replayable_begin replayable_decide
        split: applied.split\<close>)
  then show "command_wf (Streamed ev) \<Longrightarrow> ?thesis"
    unfolding on_streamed_def
    by (auto simp: command_wf_def intro!: replay_intros replayable_read replayable_write ap split: venue_event.splits)
qed

lemma replayable_positions: "command_wf (PositionsReported ps) \<Longrightarrow> replayable (on_positions ps)"
  unfolding on_positions_def Let_def
  by (intro replayable_read replayable_seq replayable_modify replayable_for replayable_reported)
    (auto simp: command_wf_def filter_map_def List.map_filter_def list_all_iff)

lemma replayable_sweep: "replayable on_sweep"
  unfolding on_sweep_def sweep_one_def
  by (intro replay_intros replayable_read replayable_for)
    (auto simp: stale_orders_def live_orders_def intro!: replay_intros replayable_begin replayable_read book_order_id_ok)

lemma replayable_submit:
  assumes "command_wf command" "\<And>c t. command \<noteq> CancelOrder c t"
  shows "replayable (submit command)"
proof (cases command)
  case (PositionsReported ps)
  then show ?thesis using replayable_positions assms(1) by (simp add: submit_def)
next
  case (LookedUp c o')
  then show ?thesis using replayable_looked_up assms(1) by (simp add: submit_def)
next
  case (Submitted c o')
  then show ?thesis using replayable_submitted assms(1) by (simp add: submit_def)
next
  case (Streamed ev)
  then show ?thesis using replayable_streamed assms(1) by (simp add: submit_def)
next
  case (Place i)
  then show ?thesis using replayable_place assms(1) by (simp add: submit_def command_wf_def)
qed (use assms in \<open>auto simp: submit_def command_wf_def intro: replayable_tick replayable_cancelled replayable_sweep
      replayable_halt replayable_resume replayable_decide\<close>)

text \<open>A cancel of an order that can be cancelled, or that the book does not know.\<close>

lemma cancel_sound:
  assumes "sound e" "text_ok 36 c" "on_cancel c t e = (Inr x, e')"
    "\<And>o'. book_order (en_book e) c = Some o' \<Longrightarrow> is_ok (fst (write_event c t CancelRequested e))"
  shows "sound e'"
proof (cases "book_order (en_book e) c")
  case None
  then show ?thesis using assms(1,3) by (simp add: on_cancel_def op_defs)
next
  case (Some o')
  obtain y e1 where w: "write_event c t CancelRequested e = (Inr y, e1)"
    using assms(4) [OF Some] by (metis is_ok_iff prod.collapse)
  have "sound e1" using replayable_event [OF assms(2), of CancelRequested t] assms(1) w by (auto simp: replayable_def)
  then show ?thesis using Some w assms(3) by (auto simp: on_cancel_def op_read_def request_def op_modify_def sound_def)
qed

subsection \<open>Runs without a refused record\<close>

text \<open>
  A command that returned, and whose cancel, if it was one, was not swallowed: \<open>on_cancel\<close> returns normally
  after the book has refused its record.
\<close>

definition clean_step :: "command \<Rightarrow> engine \<Rightarrow> bool" where
  "clean_step command e \<longleftrightarrow> command_wf command \<and> is_ok (fst (submit command e)) \<and>
     (case command of
        CancelOrder c t \<Rightarrow> book_order (en_book e) c = None \<or> is_ok (fst (write_event c t CancelRequested e))
      | _ \<Rightarrow> True)"

fun clean_run :: "engine \<Rightarrow> action list \<Rightarrow> bool" where
  "clean_run e [] = True"
| "clean_run e (a # as) =
     ((case a of Do command \<Rightarrow> clean_step command e | Flush os \<Rightarrow> is_ok (fst (engine_flush os e))) \<and>
      clean_run (fst (act a e)) as)"

fun run_actions :: "engine \<Rightarrow> action list \<Rightarrow> engine" where
  "run_actions e [] = e"
| "run_actions e (a # as) = run_actions (fst (act a e)) as"

lemma clean_step_sound:
  assumes "sound e" "clean_step command e"
  shows "sound (snd (submit command e))"
proof -
  obtain x e' where s: "submit command e = (Inr x, e')"
    using assms(2) by (metis clean_step_def is_ok_iff prod.collapse)
  show ?thesis
  proof (cases "\<exists>c t. command = CancelOrder c t")
    case True
    then obtain c t where "command = CancelOrder c t" by blast
    then show ?thesis
      using cancel_sound [OF assms(1), of c t x e'] assms(2) s by (auto simp: clean_step_def command_wf_def submit_def)
  next
    case False
    then show ?thesis
      using replayable_submit [of command] assms s by (auto simp: clean_step_def replayable_def)
  qed
qed

lemma flush_sound:
  assumes "sound e" "engine_flush os e = (Inr rs, e')"
  shows "sound e'" "en_book e' = en_book e" "log_frames (en_journal e') = log_frames (en_journal e)"
    "pending_frames (en_journal e') = []"
proof -
  obtain r j where fl: "journal_flush os (en_journal e) = (r, j)" by fastforce
  then obtain s where r: "r = Inr s" "e' = e\<lparr>en_journal := j, en_uncommitted := []\<rparr>"
    using assms(2) by (cases r) (auto simp: engine_flush_eq)
  have ok: "journal_ok (en_journal e)" using assms(1) by (simp add: sound_def)
  note fo = flush_Inr_ok [OF ok fl [unfolded r(1)]]
  show lf: "log_frames (en_journal e') = log_frames (en_journal e)" "pending_frames (en_journal e') = []"
    using fo r by (simp_all add: log_frames_def)
  show "en_book e' = en_book e" using r by simp
  show "sound e'" using assms(1) fo r lf(1) by (simp add: sound_def)
qed

lemma clean_run_sound: "sound e \<Longrightarrow> clean_run e as \<Longrightarrow> sound (run_actions e as)"
proof (induction as arbitrary: e)
  case (Cons a as)
  have "sound (fst (act a e))"
  proof (cases a)
    case (Do command)
    then show ?thesis using clean_step_sound Cons.prems by (auto simp: act_def)
  next
    case (Flush os)
    then obtain rs e' where "engine_flush os e = (Inr rs, e')"
      using Cons.prems(2) by (auto simp: is_ok_iff) (metis prod.collapse)
    then show ?thesis using flush_sound(1) Cons.prems(1) Flush by (auto simp: act_def)
  qed
  then show ?case using Cons by simp
qed simp

subsection \<open>A write that goes through\<close>

lemma write_record_ok:
  assumes "sound e" "record_wf r"
    "\<And>h. is_ok (fst (book_apply h r (en_book e) :: (journal_error ledger_error + applied) \<times> book))"
  shows "\<exists>x e'. write_record r e = (Inr x, e') \<and> sound e' \<and> en_uncommitted e' = en_uncommitted e \<and>
    (\<exists>h. en_book e' = snd (book_apply h r (en_book e) :: (journal_error ledger_error + applied) \<times> book))"
proof -
  have ok: "journal_ok (en_journal e)" using assms(1) by (simp add: sound_def)
  let ?now = "bk_now (en_book e)"
  let ?h = "append_header (en_journal e) (Records.record_kind r) ?now (record_encode r)"
  obtain j' where eq: "write_at ?now r e = (map_err (\<lambda>x. Failed (ELedger x)) (fst (book_apply ?h r (en_book e))),
       e\<lparr>en_journal := j', en_book := snd (book_apply ?h r (en_book e) :: (journal_error ledger_error + applied) \<times> book)\<rparr>)"
    using write_at_eq [OF ok assms(2), of ?now] by metis
  obtain x where "fst (book_apply ?h r (en_book e) :: (journal_error ledger_error + applied) \<times> book) = Inr x"
    using assms(3) [of ?h] by (auto simp: is_ok_iff)
  then have w: "write_at ?now r e = (Inr x, e\<lparr>en_journal := j', en_book := snd (book_apply ?h r (en_book e) :: (journal_error ledger_error + applied) \<times> book)\<rparr>)"
    using eq by (simp add: map_err_def)
  show ?thesis
    using w write_sound [OF assms(1,2) w]
    by (intro exI [of _ x] exI [of _ "e\<lparr>en_journal := j', en_book := snd (book_apply ?h r (en_book e) :: (journal_error ledger_error + applied) \<times> book)\<rparr>"] conjI exI [of _ ?h])
      (simp_all add: write_record_def op_read_def)
qed

lemma decide_ok:
  assumes "sound e" "text_ok 16 i" "text_ok 96 n"
  shows "\<exists>e'. decide i a k t v n e = (Inr (), e') \<and> sound e' \<and> en_uncommitted e' = en_uncommitted e \<and>
    bk_orders (en_book e') = bk_orders (en_book e)"
proof -
  obtain x e' h where e': "write_record (Decision i a k t v n) e = (Inr x, e')" "sound e'" "en_uncommitted e' = en_uncommitted e"
    "en_book e' = snd (book_apply h (Decision i a k t v n) (en_book e) :: (journal_error ledger_error + applied) \<times> book)"
    using write_record_ok [OF assms(1), of "Decision i a k t v n"] assms(2,3)
    by (auto simp: book_apply_def apply_record_def op_defs)
  have "bk_orders (en_book e') = bk_orders (en_book e)"
    unfolding e'(4) by (cases k) (simp_all add: book_apply_def apply_record_def book_stamp_def op_defs)
  with e'(1-3) show ?thesis by (simp add: decide_def op_seq_def op_bind_def op_ok_def)
qed

lemma intent_applies: "is_ok (fst (book_apply h (IntentPersisted i) b :: (journal_error ledger_error + applied) \<times> book))"
  by (simp add: book_apply_def apply_record_def apply_intent_def op_defs)

lemma authorise_ok:
  assumes "sound e" "record_wf (IntentPersisted i)" "book_order (en_book e) (in_client_order_id i) = None"
  shows "\<exists>e'. authorise i e = (Inr (), e') \<and> sound e' \<and> en_uncommitted e' = en_uncommitted e @ [Submit i]"
proof -
  let ?c = "in_client_order_id i"
  obtain x e1 h where e1: "write_record (IntentPersisted i) e = (Inr x, e1)" "sound e1" "en_uncommitted e1 = en_uncommitted e"
    "en_book e1 = snd (book_apply h (IntentPersisted i) (en_book e) :: (journal_error ledger_error + applied) \<times> book)"
    using write_record_ok [OF assms(1,2) intent_applies] by blast
  have got: "hm_get (bk_orders (en_book e1)) ?c = Some (order_of_intent h i)"
    using assms(3) unfolding e1(4)
    by (simp add: book_apply_def apply_record_def apply_intent_def op_defs book_order_def book_stamp_def)
  have tr: "transition (od_core (order_of_intent h i)) SubmissionStarted =
      Inr ((od_core (order_of_intent h i))\<lparr>oc_state := Submitting\<rparr>)"
    by (simp add: transition_def Let_def order_of_intent_def created_def guard_def permits_def)
  let ?r = "event_record (en_book e1) ?c (in_trace_id i) SubmissionStarted"
  have "?r = OrderEvent ?c (in_trace_id i) Created Submitting True SubmissionStarted"
    using got tr by (simp add: event_record_def book_order_def Let_def order_of_intent_def created_def)
  then have "is_ok (fst (book_apply h' ?r (en_book e1) :: (journal_error ledger_error + applied) \<times> book))" for h'
    using got tr
    by (simp add: book_apply_def apply_record_def apply_order_event_def op_defs book_stamp_def is_known_fill_def
        book_record_fill_def book_store_order_def order_of_intent_def created_def Let_def)
  then obtain y e2 where e2: "write_event ?c (in_trace_id i) SubmissionStarted e1 = (Inr y, e2)" "sound e2"
    "en_uncommitted e2 = en_uncommitted e1"
    using write_record_ok [OF e1(2), of ?r] assms(2) event_record_wf by (auto simp: write_event_def op_read_def)
  let ?n = "note_new (wire_as_str side_table (in_side i) @ lit '' '' @ format_e8 (in_qty i) @ lit '' '' @ as_str (in_instrument i))"
  obtain e3 where e3: "decide (in_instrument i) (if opens_exposure i then Gateway else Protection)
      (if opens_exposure i then EntryPlaced else ExitPlaced) (in_trace_id i) (in_qty i) ?n e2 = (Inr (), e3)" "sound e3"
    "en_uncommitted e3 = en_uncommitted e2"
    using decide_ok [OF e2(2), of "in_instrument i" ?n] assms(2) by fastforce
  show ?thesis
    using e1(1,3) e2(1,3) e3
    by (simp add: authorise_def op_seq_def op_bind_def request_def op_modify_def sound_def)
qed

lemma sample_texts [simp]: "text_ok 36 (in_client_order_id sample_intent)" "text_ok 16 (in_instrument sample_intent)"
  by (simp_all add: sample_intent_def printable_inline)

lemma sample_record: "record_wf (IntentPersisted sample_intent)"
  by (simp add: sample_intent_wf)

lemma sample_sound: "sound sample_engine"
  using sample_journal_ok by (simp add: sound_def rebuilt_def rebuild_def log_frames_def)

lemma place_allowed:
  assumes "sound e" "record_wf (IntentPersisted i)" "book_order (en_book e) (in_client_order_id i) = None"
    "evaluate (en_book e) i ((cf_limits (en_config e))\<lparr>lm_position_confirmed := en_position_confirmed e\<rparr>) (en_halted e) = Allow"
  shows "\<exists>e'. submit (Place i) e = (Inr (), e') \<and> sound e' \<and> en_uncommitted e' = en_uncommitted e @ [Submit i]"
  using authorise_ok [OF assms(1-3)] assms(3,4) by (simp add: submit_def on_place_def op_read_def Let_def)

lemma sample_evaluate:
  "evaluate (en_book sample_engine) sample_intent ((cf_limits (en_config sample_engine))\<lparr>lm_position_confirmed :=
      en_position_confirmed sample_engine\<rparr>) (en_halted sample_engine) = Allow"
  by (simp add: sample_engine_def config_default_def evaluate_def evaluate_entry_def opens_exposure_def sample_intent_def
      authority_opens_exposure_def locking_order_def live_orders_on_def live_orders_def book_orders_def filter_map_def
      book_new_def List.map_filter_simps)

lemma sample_place:
  "\<exists>e'. submit (Place sample_intent) sample_engine = (Inr (), e') \<and> sound e' \<and> en_uncommitted e' = [Submit sample_intent]"
  using place_allowed [OF sample_sound sample_record _ sample_evaluate] by (simp add: book_order_def book_new_def)

definition sample_waiting :: engine where
  "sample_waiting = snd (write_record (IntentPersisted sample_intent) sample_engine)"

lemma sample_waiting_ok:
  "sound sample_waiting"
  "\<exists>h. book_order (en_book sample_waiting) (in_client_order_id sample_intent) = Some (order_of_intent h sample_intent)"
proof -
  obtain x e h where w: "write_record (IntentPersisted sample_intent) sample_engine = (Inr x, e)" "sound e"
    "en_book e = snd (book_apply h (IntentPersisted sample_intent) (en_book sample_engine) :: (journal_error ledger_error + applied) \<times> book)"
    using write_record_ok [OF sample_sound sample_record intent_applies] by blast
  then have e: "sample_waiting = e" by (simp add: sample_waiting_def)
  show "sound sample_waiting" using w e by simp
  show "\<exists>h. book_order (en_book sample_waiting) (in_client_order_id sample_intent) = Some (order_of_intent h sample_intent)"
    unfolding e w(3)
    by (intro exI [of _ h])
      (simp add: book_apply_def apply_record_def apply_intent_def op_defs book_order_def book_stamp_def book_new_def)
qed

lemma flush_hands_out:
  assumes "sound e" "os_works os"
  shows "\<exists>e'. engine_flush os e = (Inr (en_uncommitted e), e') \<and> sound e' \<and> en_book e' = en_book e \<and> en_uncommitted e' = []"
proof -
  have ok: "journal_ok (en_journal e)" using assms(1) by (simp add: sound_def)
  have os: "os_write os = None" "os_sync os" "os_create os" using assms(2) by (auto simp: os_works_def)
  obtain s j where "journal_flush os (en_journal e) = (Inr s, j)" using flush_ok(4) [OF ok os] by (metis prod.collapse)
  then have fl: "engine_flush os e = (Inr (en_uncommitted e), e\<lparr>en_journal := j, en_uncommitted := []\<rparr>)"
    by (simp add: engine_flush_eq)
  then show ?thesis using flush_sound [OF assms(1) fl] by simp
qed

lemma sample_os_works: "os_works sample_os"
  by (simp add: os_works_def sample_os_def)

text \<open>A log that holds an intent rebuilds to a book that knows the order.\<close>

lemma rebuild_loop_known:
  "rebuild_loop items b = (Inr b' :: journal_error ledger_error + book) \<Longrightarrow> known b \<subseteq> known b' \<and>
   (\<forall>h payload i. Inr (h, payload) \<in> set items \<longrightarrow> record_decode (fh_kind h) payload = Inr (IntentPersisted i) \<longrightarrow>
      in_client_order_id i \<in> known b')"
proof (induction items arbitrary: b)
  case (Cons item items)
  then obtain h payload where item: "item = Inr (h, payload)" by (cases item) auto
  with Cons.prems obtain r where dec: "record_decode (fh_kind h) payload = Inr r" by auto
  with Cons.prems item obtain x b1 where ap: "book_apply h r b = (Inr x :: journal_error ledger_error + applied, b1)"
    and rest: "rebuild_loop items b1 = Inr b'"
    by (auto split: prod.splits sum.splits)
  have "known b \<subseteq> known b1" using book_apply_known [of b h r] ap by simp
  moreover have "in_client_order_id i \<in> known b1" if "r = IntentPersisted i" for i
    using ap that unfolding book_apply_def op_seq_modify by (auto simp: apply_record_def apply_intent_def op_defs known_def split: if_splits)
  ultimately show ?case using Cons.IH [OF rest] dec item by auto
qed simp

lemma rebuilt_knows_logged:
  assumes "rebuilt fs = Inr b" "logged i fs" "record_wf (IntentPersisted i)"
  shows "in_client_order_id i \<in> known b"
proof -
  obtain h where "(h, record_encode (IntentPersisted i)) \<in> set fs" "fh_kind h = KIntentPersisted"
    using assms(2) by (auto simp: logged_def)
  then show ?thesis
    using rebuild_loop_known [OF assms(1) [unfolded rebuilt_def rebuild_def]] record_read_back [OF assms(3)] by force
qed

subsection \<open>Properties\<close>

text \<open>
  C8: a restart finds the account as the writer left it. From an engine whose book is what its log rebuilds to,
  after any run of well-formed commands and flushes in which nothing was refused, and a flush, the records on
  disk rebuild to exactly the live book.
\<close>

theorem restart_rebuilds_the_live_book:
  assumes "journal_ok (en_journal e0)"
    "rebuild (map Inr (durable_frames (en_journal e0) @ pending_frames (en_journal e0))) =
      (Inr (en_book e0) :: journal_error ledger_error + book)"
    "clean_run e0 as" "engine_flush os (run_actions e0 as) = (Inr rs, e)"
  shows "rebuild (map Inr (durable_frames (en_journal e))) = (Inr (en_book e) :: journal_error ledger_error + book)"
proof -
  have "sound (run_actions e0 as)"
    using assms(1-3) by (intro clean_run_sound) (simp_all add: sound_def rebuilt_def log_frames_def)
  from flush_sound [OF this assms(4)] show ?thesis by (simp add: sound_def rebuilt_def log_frames_def)
qed

theorem restart_rebuilds_the_live_book_witness:
  "\<exists>rs e. engine_flush sample_os (run_actions sample_engine [Do (Place sample_intent)]) = (Inr rs, e) \<and>
     rebuild (map Inr (durable_frames (en_journal e))) = (Inr (en_book e) :: journal_error ledger_error + book)"
proof -
  obtain e1 where e1: "submit (Place sample_intent) sample_engine = (Inr (), e1)" "sound e1" using sample_place by blast
  have clean: "clean_run sample_engine [Do (Place sample_intent)]"
    using e1(1) sample_record by (simp add: clean_step_def command_wf_def)
  have run: "run_actions sample_engine [Do (Place sample_intent)] = e1" using e1(1) by (simp add: act_def)
  obtain e where fl: "engine_flush sample_os e1 = (Inr (en_uncommitted e1), e)"
    using flush_hands_out [OF e1(2) sample_os_works] by blast
  have rb: "rebuild (map Inr (durable_frames (en_journal sample_engine) @ pending_frames (en_journal sample_engine))) =
      (Inr (en_book sample_engine) :: journal_error ledger_error + book)"
    using sample_sound by (simp add: sound_def rebuilt_def log_frames_def)
  show ?thesis
    using restart_rebuilds_the_live_book [OF _ rb clean, of sample_os] fl sample_journal_ok(1) unfolding run
    by (simp only: sample_engine_simps) blast
qed

text \<open>
  C19: an allowed order is submitted. When the log is sound, the order is new and the guards allow it, placing
  it returns, and the next flush of a working disk hands out its submission, last, with its intent durable.
\<close>

theorem allowed_order_is_submitted:
  assumes "journal_ok (en_journal e)"
    "rebuild (map Inr (durable_frames (en_journal e) @ pending_frames (en_journal e))) =
      (Inr (en_book e) :: journal_error ledger_error + book)"
    "record_wf (IntentPersisted i)" "book_order (en_book e) (in_client_order_id i) = None"
    "evaluate (en_book e) i ((cf_limits (en_config e))\<lparr>lm_position_confirmed := en_position_confirmed e\<rparr>) (en_halted e) = Allow"
    "os_works os"
  shows "\<exists>e1 e2. submit (Place i) e = (Inr (), e1) \<and> engine_flush os e1 = (Inr (en_uncommitted e @ [Submit i]), e2) \<and>
    (\<exists>f \<in> set (durable_frames (en_journal e2)). fh_kind (fst f) = KIntentPersisted \<and> snd f = record_encode (IntentPersisted i))"
proof -
  have "sound e" using assms(1,2) by (simp add: sound_def rebuilt_def log_frames_def)
  from place_allowed [OF this assms(3-5)] obtain e1 where
    e1: "submit (Place i) e = (Inr (), e1)" "sound e1" "en_uncommitted e1 = en_uncommitted e @ [Submit i]" by blast
  from flush_hands_out [OF e1(2) assms(6)] obtain e2 where fl: "engine_flush os e1 = (Inr (en_uncommitted e1), e2)" by blast
  from submit_outcome [of e "Place i"] have "placed i e e1" using e1(1,3) by (auto simp: calm_def placed_def)
  then have "logged i (pending_frames (en_journal e1))" using assms(1) by (simp add: placed_def)
  moreover have "durable_frames (en_journal e2) = durable_frames (en_journal e1) @ pending_frames (en_journal e1)"
    using fl flush_Inr_ok e1(2) by (auto simp: engine_flush_eq sound_def split: prod.splits sum.splits)
  ultimately show ?thesis using e1(1,3) fl by (auto simp: logged_def)
qed

theorem allowed_order_is_submitted_witness:
  "\<exists>e1 e2. submit (Place sample_intent) sample_engine = (Inr (), e1) \<and>
     engine_flush sample_os e1 = (Inr [Submit sample_intent], e2)"
proof -
  have "journal_ok (en_journal sample_engine)"
    "rebuild (map Inr (durable_frames (en_journal sample_engine) @ pending_frames (en_journal sample_engine))) =
      (Inr (en_book sample_engine) :: journal_error ledger_error + book)"
    using sample_sound by (simp_all add: sound_def rebuilt_def log_frames_def)
  from allowed_order_is_submitted [OF this sample_record _ sample_evaluate sample_os_works] show ?thesis
    by (auto simp: book_order_def book_new_def)
qed

text \<open>
  No order reaches the venue before the intent authorising it reaches the disk. Over any sequence of
  commands and flushes, failing ones included, every submission handed out was released by a flush and its
  intent is a record of the durable log.
\<close>

theorem no_order_before_its_intent:
  assumes "journal_ok (en_journal e0)" "en_uncommitted e0 = []" "executes e0 as e rs" "Submit i \<in> set rs"
  shows "\<exists>f \<in> set (durable_frames (en_journal e)).
    fh_kind (fst f) = KIntentPersisted \<and> snd f = record_encode (IntentPersisted i)"
proof -
  have "i \<in> set (submits rs)" using assms(4) by (induction rs) (auto simp: submits_def List.map_filter_simps split: venue_request.splits)
  then show ?thesis
    using executes_accounted [OF assms(3,1,2)] by (auto simp: accounted_def logged_def)
qed

theorem no_order_before_its_intent_witness:
  "\<exists>e rs. executes sample_engine [Do (Place sample_intent), Flush sample_os] e rs \<and> Submit sample_intent \<in> set rs \<and>
     (\<exists>f \<in> set (durable_frames (en_journal e)). snd f = record_encode (IntentPersisted sample_intent))"
proof -
  obtain e1 where e1: "submit (Place sample_intent) sample_engine = (Inr (), e1)" "sound e1"
    "en_uncommitted e1 = [Submit sample_intent]" using sample_place by blast
  obtain e where fl: "engine_flush sample_os e1 = (Inr [Submit sample_intent], e)"
    using flush_hands_out [OF e1(2) sample_os_works] e1(3) by auto
  have "executes sample_engine ([] @ [Do (Place sample_intent)]) e1 ([] @ [])"
    using e1(1) by (intro executes.more [OF executes.start]) (simp add: act_def)
  moreover have "act (Flush sample_os) e1 = (e, [Submit sample_intent])"
    unfolding act_def action.case fl by simp
  ultimately have run: "executes sample_engine ([Do (Place sample_intent)] @ [Flush sample_os]) e ([] @ [Submit sample_intent])"
    using executes.more [of sample_engine "[Do (Place sample_intent)]" e1 "[]"] by simp
  have "\<exists>f \<in> set (durable_frames (en_journal e)). snd f = record_encode (IntentPersisted sample_intent)"
    using no_order_before_its_intent [OF _ _ run, of sample_intent] sample_journal_ok(1) by (simp del: record_encode.simps) blast
  then show ?thesis using run by (intro exI [of _ e] exI [of _ "[Submit sample_intent]"]) simp
qed

subsection \<open>Records the book refuses\<close>

text \<open>A lifecycle event that is refused outright is in the log, and the log no longer rebuilds.\<close>

lemma refused_event_breaks_the_log:
  assumes "sound e" "book_order (en_book e) c = Some o'" "event_wf ev" "\<not> is_known_fill (en_book e) ev"
    "transition (od_core o') ev = Inl err" "\<not> needs_reconciliation err"
  shows "\<exists>e'. write_event c t ev e = (Inl (Failed (ELedger (Transition c err))), e') \<and>
    journal_ok (en_journal e') \<and> rebuilt (log_frames (en_journal e')) = Inl (Transition c err)"
proof -
  let ?r = "event_record (en_book e) c t ev"
  have r: "?r = OrderEvent c t (oc_state (od_core o')) (oc_state (od_core o')) False ev"
    using assms(2,5) by (simp add: event_record_def Let_def)
  have wf: "record_wf ?r" using event_record_wf order_texts [OF assms(1,2)] assms(3) by blast
  have ap: "fst (book_apply h ?r (en_book e) :: (journal_error ledger_error + applied) \<times> book) = Inl (Transition c err)" for h
    using assms(2,4,5,6) unfolding r
    by (simp add: book_apply_def apply_record_def apply_order_event_def op_defs book_order_def book_stamp_def is_known_fill_def
        split: order_event.splits)
  obtain x e' where w: "write_at (bk_now (en_book e)) ?r e = (x, e')" by fastforce
  have "journal_ok (en_journal e)" using assms(1) by (simp add: sound_def)
  from write_at_eq [OF this wf, of "bk_now (en_book e)"] obtain j' h where
    "write_at (bk_now (en_book e)) ?r e = (map_err (\<lambda>x. Failed (ELedger x)) (fst (book_apply h ?r (en_book e))),
       e\<lparr>en_journal := j', en_book := snd (book_apply h ?r (en_book e) :: (journal_error ledger_error + applied) \<times> book)\<rparr>)"
    by blast
  then have x: "x = Inl (Failed (ELedger (Transition c err)))" using w ap by simp
  from write_refused [OF assms(1) wf, of "bk_now (en_book e)"] w x show ?thesis
    by (auto simp: write_event_def write_record_def op_read_def)
qed

text \<open>
  Cancelling an order that is not cancellable is reported as done and breaks the next restart. For an
  order of the book that is neither working nor partly filled, a cancel command returns normally; yet its
  record is in the log, and once it is flushed the log no longer rebuilds into a book.
\<close>

theorem swallowed_cancel_breaks_restart:
  assumes "journal_ok (en_journal e)"
    "rebuild (map Inr (durable_frames (en_journal e) @ pending_frames (en_journal e))) =
      (Inr (en_book e) :: journal_error ledger_error + book)"
    "book_order (en_book e) c = Some o'" "oc_state (od_core o') \<notin> {Working, Partial}" "os_works os"
  shows "\<exists>e1 rs e2. submit (CancelOrder c t) e = (Inr (), e1) \<and> engine_flush os e1 = (Inr rs, e2) \<and>
    rebuild (map Inr (durable_frames (en_journal e2))) =
      (Inl (Transition c (Illegal (oc_state (od_core o')) KCancelRequested (Some CancelPending))) :: journal_error ledger_error + book)"
proof -
  let ?err = "Illegal (oc_state (od_core o')) KCancelRequested (Some CancelPending)"
  have s: "sound e" using assms(1,2) by (simp add: sound_def rebuilt_def log_frames_def)
  have tr: "transition (od_core o') CancelRequested = Inl ?err" using assms(4) by (simp add: transition_def Let_def)
  obtain e1 where e1: "write_event c t CancelRequested e = (Inl (Failed (ELedger (Transition c ?err))), e1)"
    "journal_ok (en_journal e1)" "rebuilt (log_frames (en_journal e1)) = Inl (Transition c ?err)"
    using refused_event_breaks_the_log [OF s assms(3) _ _ tr, of t] by (auto simp: is_known_fill_def needs_reconciliation_def)
  have sub: "submit (CancelOrder c t) e = (Inr (), e1)"
    using assms(3) e1(1)
    by (simp add: submit_def on_cancel_def op_read_def swallow_def ledger_is_integrity_violation_def transition_is_integrity_violation_def)
  have os: "os_write os = None" "os_sync os" "os_create os" using assms(5) by (auto simp: os_works_def)
  obtain x j where fl: "journal_flush os (en_journal e1) = (Inr x, j)" using flush_ok(4) [OF e1(2) os] by (metis prod.collapse)
  have "durable_frames j = log_frames (en_journal e1)" using flush_Inr_ok [OF e1(2) fl] by (simp add: log_frames_def)
  then show ?thesis using sub fl e1(3) by (auto simp: engine_flush_eq rebuilt_def)
qed

theorem swallowed_cancel_breaks_restart_witness:
  "\<exists>e1 rs e2 x. submit (CancelOrder (in_client_order_id sample_intent) 1) sample_waiting = (Inr (), e1) \<and>
     engine_flush sample_os e1 = (Inr rs, e2) \<and>
     rebuild (map Inr (durable_frames (en_journal e2))) = (Inl x :: journal_error ledger_error + book)"
proof -
  obtain h where o': "book_order (en_book sample_waiting) (in_client_order_id sample_intent) = Some (order_of_intent h sample_intent)"
    using sample_waiting_ok(2) by blast
  have "oc_state (od_core (order_of_intent h sample_intent)) \<notin> {Working, Partial}"
    by (simp add: order_of_intent_def created_def)
  then show ?thesis
    using swallowed_cancel_breaks_restart [OF _ _ o' _ sample_os_works, of 1] sample_waiting_ok(1)
    by (auto simp: sound_def rebuilt_def log_frames_def)
qed

end
