(* ===== verification/Process.thy ===== *)
theory Process
  imports Replay
begin

text \<open>
  The threads of the process (\<open>sentineld/src/runtime.rs\<close>): the writer, the venue worker and the ticker, and the
  two channels between them. Each thread's loop body is a function; \<open>moves\<close> interleaves them, with the sends of
  anything else that holds the runtime (the control socket) and the request to stop. A batch of the writer is a
  run of the commands queued when it starts, and what the operating system answers to its flush is arbitrary.
  The venue is any record of the trait's calls over any state, so nothing is assumed of what it answers.

  The process is built to abort on a panic, so a panicking handler ends every thread. A channel whose receiver
  is gone drops what is sent to it.

  Shown here: in every interleaving the requests the venue worker performs are an initial run of what one
  writer's flushes released; so no client order id is submitted to the venue twice, and the intent of every
  submission the venue sees is durable before it sees it.
\<close>

subsection \<open>The threads\<close>

text \<open>
  The venue worker: one request performed, and the answer as commands. A call that could not be made is silence; a
  call that panics gives nothing at all.
\<close>

definition call :: "('v, 'a) venue_op \<Rightarrow> ('a \<Rightarrow> command) \<Rightarrow> 'v \<Rightarrow> command list option \<times> 'v" where
  "call m answer v =
     (case m v of
        (Inl CallPanicked, v') \<Rightarrow> (None, v')
      | (Inl (CallFailed _), v') \<Rightarrow> (Some [], v')
      | (Inr outcome, v') \<Rightarrow> (Some [answer outcome], v'))"

definition perform :: "'v venue \<Rightarrow> venue_request \<Rightarrow> 'v \<Rightarrow> command list option \<times> 'v" where
  "perform ops r =
     (case r of
        Submit intent \<Rightarrow> call (vn_submit ops intent) (Submitted (in_client_order_id intent))
      | Cancel c venue_order_id \<Rightarrow> call (vn_cancel ops c venue_order_id) (Cancelled c)
      | Lookup c \<Rightarrow> call (vn_lookup ops c) (LookedUp c)
      | Positions \<Rightarrow> call (vn_positions ops) positions_reported)"

definition forward_events :: "'v venue \<Rightarrow> 'v \<Rightarrow> command list \<times> 'v" where
  "forward_events ops v = (let (events, v') = vn_drain_events ops v in (map Streamed events, v'))"

text \<open>The ticker: one round after its sleep, with the time since the last sweep.\<close>

definition ticker_round :: "nat \<Rightarrow> nat \<Rightarrow> nanos \<Rightarrow> nat \<Rightarrow> command list \<times> nat" where
  "ticker_round tick_interval sweep_interval now since_sweep =
     (let since = since_sweep + tick_interval
      in if since \<ge> sweep_interval then ([Tick now, SweepStale], 0) else ([Tick now], since))"

text \<open>
  The writer: a batch of commands, then one flush. A failure that is not fatal is passed over; a fatal one, or a
  failed flush, ends the thread.
\<close>

fun submit_batch :: "command list \<Rightarrow> engine \<Rightarrow> failure option \<times> engine" where
  "submit_batch [] e = (None, e)"
| "submit_batch (command # batch) e =
     (case submit command e of
        (Inr _, e') \<Rightarrow> submit_batch batch e'
      | (Inl Panicked, e') \<Rightarrow> (Some Panicked, e')
      | (Inl (Failed x), e') \<Rightarrow> if engine_is_fatal x then (Some (Failed x), e') else submit_batch batch e')"

definition writer_round :: "os \<Rightarrow> command list \<Rightarrow> engine \<Rightarrow> failure option \<times> venue_request list \<times> engine" where
  "writer_round os batch e =
     (case submit_batch batch e of
        (Some f, e') \<Rightarrow> (Some f, [], e')
      | (None, e') \<Rightarrow>
          (case engine_flush os e' of
             (Inl f, e'') \<Rightarrow> (Some f, [], e'') | (Inr requests, e'') \<Rightarrow> (None, requests, e'')))"

text \<open>On the way out: what is queued is submitted whatever it returns, and one last flush releases nothing.\<close>

fun submit_rest :: "command list \<Rightarrow> engine \<Rightarrow> failure option \<times> engine" where
  "submit_rest [] e = (None, e)"
| "submit_rest (command # rest) e =
     (case submit command e of (Inl Panicked, e') \<Rightarrow> (Some Panicked, e') | (_, e') \<Rightarrow> submit_rest rest e')"

definition writer_drain :: "os \<Rightarrow> command list \<Rightarrow> engine \<Rightarrow> failure option \<times> engine" where
  "writer_drain os rest e =
     (case submit_rest rest e of
        (Some f, e') \<Rightarrow> (Some f, e') | (None, e') \<Rightarrow> (None, snd (engine_flush os e')))"

subsection \<open>The process\<close>

text \<open>\<open>pr_performed\<close> is the history of the requests the venue worker has taken to the venue.\<close>

record 'v process =
  pr_engine :: engine
  pr_venue :: 'v
  pr_commands :: "command list"
  pr_requests :: "venue_request list"
  pr_since_sweep :: nat
  pr_running :: bool
  pr_writer :: bool
  pr_aborted :: bool
  pr_performed :: "venue_request list"

definition start :: "engine \<Rightarrow> 'v \<Rightarrow> nat \<Rightarrow> 'v process" where
  "start e v sweep_interval =
     \<lparr>pr_engine = e, pr_venue = v, pr_commands = [], pr_requests = [], pr_since_sweep = sweep_interval,
      pr_running = True, pr_writer = True, pr_aborted = False, pr_performed = []\<rparr>"

text \<open>A send to the writer, which is lost when the writer is gone.\<close>

definition send :: "command list \<Rightarrow> 'v process \<Rightarrow> 'v process" where
  "send cs p = (if pr_writer p then p\<lparr>pr_commands := pr_commands p @ cs\<rparr> else p)"

definition writer_stops :: "failure \<Rightarrow> 'v process \<Rightarrow> 'v process" where
  "writer_stops f p =
     p\<lparr>pr_running := False, pr_writer := False, pr_commands := [], pr_aborted := (f = Panicked)\<rparr>"

text \<open>
  A thread reads the stop flag between its rounds only, so a round may still run to its end after the flag has
  fallen; the steps allow every round while its thread can be alive. \<open>hang_up\<close> is the writer finding the venue
  worker gone in the middle of handing its requests over; \<open>meanwhile\<close> is whatever a thread of the venue's own (a
  stream that pushes events) makes of the venue's state.
\<close>

inductive moves :: "'v venue \<Rightarrow> nat \<Rightarrow> nat \<Rightarrow> 'v process \<Rightarrow> 'v process \<Rightarrow> bool" for ops tick sweep where
  commit: "\<not> pr_aborted p \<Longrightarrow> pr_writer p \<Longrightarrow> pr_commands p = batch @ later \<Longrightarrow> batch \<noteq> [] \<Longrightarrow>
    writer_round os batch (pr_engine p) = (None, requests, e') \<Longrightarrow>
    moves ops tick sweep p (p\<lparr>pr_engine := e', pr_commands := later, pr_requests := pr_requests p @ requests\<rparr>)"
| commit_stops: "\<not> pr_aborted p \<Longrightarrow> pr_writer p \<Longrightarrow> pr_commands p = batch @ later \<Longrightarrow> batch \<noteq> [] \<Longrightarrow>
    writer_round os batch (pr_engine p) = (Some f, requests, e') \<Longrightarrow>
    moves ops tick sweep p (writer_stops f (p\<lparr>pr_engine := e'\<rparr>))"
| hang_up: "\<not> pr_aborted p \<Longrightarrow> pr_writer p \<Longrightarrow> \<not> pr_running p \<Longrightarrow> pr_commands p = batch @ later \<Longrightarrow> batch \<noteq> [] \<Longrightarrow>
    writer_round os batch (pr_engine p) = (None, sent @ lost, e') \<Longrightarrow>
    moves ops tick sweep p
      (p\<lparr>pr_engine := e', pr_commands := [], pr_requests := pr_requests p @ sent, pr_writer := False\<rparr>)"
| leave: "\<not> pr_aborted p \<Longrightarrow> pr_writer p \<Longrightarrow> \<not> pr_running p \<Longrightarrow>
    writer_drain os (pr_commands p) (pr_engine p) = (f, e') \<Longrightarrow>
    moves ops tick sweep p
      (p\<lparr>pr_engine := e', pr_commands := [], pr_writer := False, pr_aborted := (f = Some Panicked)\<rparr>)"
| answer: "\<not> pr_aborted p \<Longrightarrow> pr_requests p = r # later \<Longrightarrow> perform ops r (pr_venue p) = (Some answers, v') \<Longrightarrow>
    moves ops tick sweep p
      (send answers (p\<lparr>pr_venue := v', pr_requests := later, pr_performed := pr_performed p @ [r]\<rparr>))"
| answer_panics: "\<not> pr_aborted p \<Longrightarrow> pr_requests p = r # later \<Longrightarrow> perform ops r (pr_venue p) = (None, v') \<Longrightarrow>
    moves ops tick sweep p
      (p\<lparr>pr_venue := v', pr_requests := later, pr_performed := pr_performed p @ [r], pr_aborted := True\<rparr>)"
| stream: "\<not> pr_aborted p \<Longrightarrow> forward_events ops (pr_venue p) = (events, v') \<Longrightarrow>
    moves ops tick sweep p (send events (p\<lparr>pr_venue := v'\<rparr>))"
| tick: "\<not> pr_aborted p \<Longrightarrow> ticker_round tick sweep now (pr_since_sweep p) = (ticks, since) \<Longrightarrow>
    moves ops tick sweep p (send ticks (p\<lparr>pr_since_sweep := since\<rparr>))"
| meanwhile: "\<not> pr_aborted p \<Longrightarrow> moves ops tick sweep p (p\<lparr>pr_venue := v'\<rparr>)"
| outside: "\<not> pr_aborted p \<Longrightarrow> moves ops tick sweep p (send [command] p)"
| stop: "\<not> pr_aborted p \<Longrightarrow> moves ops tick sweep p (p\<lparr>pr_running := False\<rparr>)"

inductive reaches :: "'v venue \<Rightarrow> nat \<Rightarrow> nat \<Rightarrow> 'v process \<Rightarrow> 'v process \<Rightarrow> bool" for ops tick sweep p0 where
  here: "reaches ops tick sweep p0 p0"
| step: "reaches ops tick sweep p0 p \<Longrightarrow> moves ops tick sweep p p' \<Longrightarrow> reaches ops tick sweep p0 p'"

subsection \<open>The writer's run\<close>

lemma executes_do: "executes e0 as e rs \<Longrightarrow> executes e0 (as @ [Do c]) (snd (submit c e)) rs"
  using executes.more [of e0 as e rs "Do c"] by (simp add: act_def)

lemma executes_flush:
  "executes e0 as e rs \<Longrightarrow> engine_flush os e = (r, e') \<Longrightarrow>
   executes e0 (as @ [Flush os]) e' (rs @ (case r of Inl _ \<Rightarrow> [] | Inr new \<Rightarrow> new))"
  using executes.more [of e0 as e rs "Flush os"] by (cases r) (simp_all add: act_def)

lemma executes_batch:
  "executes e0 as e rs \<Longrightarrow> submit_batch batch e = (f, e') \<Longrightarrow> \<exists>as'. executes e0 as' e' rs"
proof (induction batch arbitrary: as e)
  case (Cons c batch)
  obtain r e1 where s: "submit c e = (r, e1)" by fastforce
  have run: "executes e0 (as @ [Do c]) e1 rs" using executes_do [OF Cons.prems(1), of c] s by simp
  show ?case
    using Cons.IH [OF run] run Cons.prems(2) s by (auto split: sum.splits failure.splits if_splits)
qed auto

lemma executes_rest:
  "executes e0 as e rs \<Longrightarrow> submit_rest rest e = (f, e') \<Longrightarrow> \<exists>as'. executes e0 as' e' rs"
proof (induction rest arbitrary: as e)
  case (Cons c rest)
  obtain r e1 where s: "submit c e = (r, e1)" by fastforce
  have run: "executes e0 (as @ [Do c]) e1 rs" using executes_do [OF Cons.prems(1), of c] s by simp
  show ?case
    using Cons.IH [OF run] run Cons.prems(2) s by (auto split: sum.splits failure.splits)
qed auto

lemma executes_round:
  assumes "executes e0 as e rs" "writer_round os batch e = (f, requests, e')"
  shows "\<exists>as'. executes e0 as' e' (rs @ requests)"
proof -
  obtain g e1 where b: "submit_batch batch e = (g, e1)" by fastforce
  obtain as1 where run: "executes e0 as1 e1 rs" using executes_batch [OF assms(1) b] by blast
  show ?thesis
  proof (cases g)
    case (Some x)
    then show ?thesis using assms(2) b run by (auto simp: writer_round_def)
  next
    case None
    obtain r e2 where fl: "engine_flush os e1 = (r, e2)" by fastforce
    show ?thesis
      using executes_flush [OF run fl] assms(2) b None fl by (cases r) (auto simp: writer_round_def)
  qed
qed

lemma executes_drain:
  assumes "executes e0 as e rs" "writer_drain os rest e = (f, e')"
  shows "\<exists>as' lost. executes e0 as' e' (rs @ lost)"
proof -
  obtain g e1 where b: "submit_rest rest e = (g, e1)" by fastforce
  obtain as1 where run: "executes e0 as1 e1 rs" using executes_rest [OF assms(1) b] by blast
  obtain r e2 where fl: "engine_flush os e1 = (r, e2)" by fastforce
  show ?thesis
  proof (cases g)
    case (Some x)
    then have "executes e0 as1 e' (rs @ [])" using run assms(2) b by (simp add: writer_drain_def)
    then show ?thesis by blast
  next
    case None
    then show ?thesis using executes_flush [OF run fl] assms(2) b fl by (auto simp: writer_drain_def)
  qed
qed

text \<open>What the venue worker has performed and still holds is what the writer released, up to what was lost at the end.\<close>

definition one_writer :: "engine \<Rightarrow> 'v process \<Rightarrow> bool" where
  "one_writer e0 p \<longleftrightarrow> (\<exists>as lost. executes e0 as (pr_engine p) (pr_performed p @ pr_requests p @ lost) \<and>
     (pr_writer p \<longrightarrow> lost = []))"

lemma send_fields [simp]:
  "pr_engine (send cs p) = pr_engine p" "pr_performed (send cs p) = pr_performed p"
  "pr_requests (send cs p) = pr_requests p" "pr_writer (send cs p) = pr_writer p"
  by (simp_all add: send_def)

lemma one_writer_moves:
  assumes "one_writer e0 p" "moves ops tick sweep p p'"
  shows "one_writer e0 p'"
  using assms(2,1)
proof (induction rule: moves.induct)
  case (commit p batch later os requests e')
  then obtain as where run: "executes e0 as (pr_engine p) (pr_performed p @ pr_requests p)" by (auto simp: one_writer_def)
  from executes_round [OF run commit.hyps(5)] show ?case using commit.hyps(2) by (auto simp: one_writer_def)
next
  case (commit_stops p batch later os f requests e')
  then obtain as where run: "executes e0 as (pr_engine p) (pr_performed p @ pr_requests p)" by (auto simp: one_writer_def)
  from executes_round [OF run commit_stops.hyps(5)] show ?case by (auto simp: one_writer_def writer_stops_def)
next
  case (hang_up p batch later os sent lost e')
  then obtain as where run: "executes e0 as (pr_engine p) (pr_performed p @ pr_requests p)" by (auto simp: one_writer_def)
  from executes_round [OF run hang_up.hyps(6)] show ?case by (auto simp: one_writer_def)
next
  case (leave p os f e')
  then obtain as where run: "executes e0 as (pr_engine p) (pr_performed p @ pr_requests p)" by (auto simp: one_writer_def)
  from executes_drain [OF run leave.hyps(4)] show ?case by (auto simp: one_writer_def)
qed (auto simp: one_writer_def)

lemma one_writer_reaches: "reaches ops tick sweep (start e0 v sweep) p \<Longrightarrow> one_writer e0 p"
proof (induction rule: reaches.induct)
  case here
  show ?case using executes.start [of e0] by (auto simp: one_writer_def start_def)
next
  case (step p p')
  then show ?case using one_writer_moves by blast
qed

subsection \<open>Properties\<close>

text \<open>
  C1: the venue never sees an order twice, nor an order that is not on disk. However the writer, the venue worker,
  the ticker, the control socket and a stop are interleaved, whatever the venue answers and however the disk
  behaves, the submissions the venue worker has performed carry pairwise different client order ids, and the
  intent of each is a record of the durable log.
\<close>

theorem venue_sees_each_order_once:
  assumes "journal_ok (en_journal e0)" "en_uncommitted e0 = []" "reaches ops tick sweep (start e0 v sweep) p"
  shows "distinct (map in_client_order_id (submits (pr_performed p))) \<and>
    (\<forall>i \<in> set (submits (pr_performed p)). \<exists>f \<in> set (durable_frames (en_journal (pr_engine p))).
      fh_kind (fst f) = KIntentPersisted \<and> snd f = record_encode (IntentPersisted i))"
proof -
  obtain as lost where run: "executes e0 as (pr_engine p) (pr_performed p @ pr_requests p @ lost)"
    using one_writer_reaches [OF assms(3)] by (auto simp: one_writer_def)
  from executes_accounted [OF run assms(1,2)] show ?thesis
    by (auto simp: accounted_def logged_def)
qed

text \<open>A run: an order comes in from outside, is written and flushed, and is taken to the simulated venue.\<close>

lemma sample_run:
  "\<exists>p. reaches sim_venue_ops 1 2 (start sample_engine sim_new 2) p \<and> pr_performed p = [Submit sample_intent]"
proof -
  let ?p0 = "start sample_engine sim_new 2" and ?ops = "sim_venue_ops"
  obtain e1 where e1: "submit (Place sample_intent) sample_engine = (Inr (), e1)" "sound e1"
    "en_uncommitted e1 = [Submit sample_intent]" using sample_place by blast
  obtain e2 where "engine_flush sample_os e1 = (Inr [Submit sample_intent], e2)"
    using flush_hands_out [OF e1(2) sample_os_works] e1(3) by auto
  then have round: "writer_round sample_os [Place sample_intent] sample_engine = (None, [Submit sample_intent], e2)"
    using e1(1) by (simp add: writer_round_def)
  obtain answers v' where perf: "perform ?ops (Submit sample_intent) sim_new = (Some answers, v')"
    by (auto simp: perform_def call_def sim_venue_ops_def sim_submit_def sim_new_def take_fault_def hm_contains_def sim_accept_def
        next_venue_id_def Let_def)
  let ?p1 = "send [Place sample_intent] ?p0"
  let ?p2 = "?p1\<lparr>pr_engine := e2, pr_commands := [], pr_requests := [Submit sample_intent]\<rparr>"
  let ?p3 = "send answers (?p2\<lparr>pr_venue := v', pr_requests := [], pr_performed := [Submit sample_intent]\<rparr>)"
  have "moves ?ops 1 2 ?p0 ?p1" by (rule moves.outside) (simp add: start_def)
  moreover have "moves ?ops 1 2 ?p1 ?p2"
    using moves.commit [of ?p1 "[Place sample_intent]" "[]" sample_os "[Submit sample_intent]" e2 ?ops 1 2] round
    by (simp add: send_def start_def)
  moreover have "moves ?ops 1 2 ?p2 ?p3"
    using moves.answer [of ?p2 "Submit sample_intent" "[]" ?ops answers v' 1 2] perf by (simp add: send_def start_def)
  ultimately have "reaches ?ops 1 2 ?p0 ?p3" by (meson reaches.here reaches.step)
  then show ?thesis by (intro exI [of _ ?p3]) simp
qed

theorem venue_sees_each_order_once_witness:
  "\<exists>p. reaches sim_venue_ops 1 2 (start sample_engine sim_new 2) p \<and> pr_performed p = [Submit sample_intent] \<and>
    (\<exists>f \<in> set (durable_frames (en_journal (pr_engine p))). snd f = record_encode (IntentPersisted sample_intent))"
proof -
  obtain p where p: "reaches sim_venue_ops 1 2 (start sample_engine sim_new 2) p" "pr_performed p = [Submit sample_intent]"
    using sample_run by blast
  then show ?thesis
    using venue_sees_each_order_once [OF _ _ p(1)] sample_journal_ok(1) by (intro exI [of _ p]) auto
qed

end
