(* ===== verification/SimVenue.thy ===== *)
theory SimVenue
  imports Process
begin

text \<open>
  What the venue worker may conclude from a venue's answers, as a contract, and the simulated venue as a venue
  that keeps it.

  Shown here: once a venue that keeps the contract has acknowledged an order, no later lookup ever calls it
  absent, whatever else is asked of it or happens at it in between.
\<close>

subsection \<open>The contract\<close>

lemma perform_state:
  "snd (perform ops r v) =
     (case r of Submit i \<Rightarrow> snd (vn_submit ops i v) | Cancel c w \<Rightarrow> snd (vn_cancel ops c w v)
      | Lookup c \<Rightarrow> snd (vn_lookup ops c v) | Positions \<Rightarrow> snd (vn_positions ops v))"
  by (cases r) (simp_all add: perform_def call_def split: prod.splits sum.splits call_failure.splits)

text \<open>
  \<open>holds c v\<close>: the venue knows an order under the client order id \<open>c\<close>. Everything else that happens at a venue
  (matching, another session, an operator) is the relation \<open>happens\<close>.
\<close>

locale order_keeper =
  fixes ops :: "'v venue" and holds :: "client_order_id \<Rightarrow> 'v \<Rightarrow> bool" and happens :: "'v \<Rightarrow> 'v \<Rightarrow> bool"
  assumes acked: "vn_submit ops i v = (Inr (Acked x), v') \<Longrightarrow> holds (in_client_order_id i) v'"
    and submit_keeps: "holds c v \<Longrightarrow> holds c (snd (vn_submit ops i v))"
    and cancel_keeps: "holds c v \<Longrightarrow> holds c (snd (vn_cancel ops d w v))"
    and lookup_keeps: "holds c v \<Longrightarrow> holds c (snd (vn_lookup ops d v))"
    and positions_keeps: "holds c v \<Longrightarrow> holds c (snd (vn_positions ops v))"
    and drain_keeps: "holds c v \<Longrightarrow> holds c (snd (vn_drain_events ops v))"
    and happens_keeps: "happens v v' \<Longrightarrow> holds c v \<Longrightarrow> holds c v'"
    and absent: "vn_lookup ops c v = (Inr LookupAbsent, v') \<Longrightarrow> \<not> holds c v"
begin

lemma perform_keeps: "holds c v \<Longrightarrow> holds c (snd (perform ops r v))"
  by (simp add: perform_state submit_keeps cancel_keeps lookup_keeps positions_keeps split: venue_request.split)

lemma perform_acked:
  "fst (perform ops r v) = Some [Submitted c (Acked x)] \<Longrightarrow> holds c (snd (perform ops r v))"
  by (cases r) (auto simp: perform_def call_def positions_reported_def split: prod.splits sum.splits call_failure.splits dest: acked)

lemma held_is_not_absent: "holds c v \<Longrightarrow> fst (perform ops r v) \<noteq> Some [LookedUp c LookupAbsent]"
  by (cases r) (auto simp: perform_def call_def positions_reported_def split: prod.splits sum.splits call_failure.splits dest: absent)

end

text \<open>The life of a venue after some point: requests performed, events drained, and what happens at it.\<close>

inductive evolves :: "'v venue \<Rightarrow> ('v \<Rightarrow> 'v \<Rightarrow> bool) \<Rightarrow> 'v \<Rightarrow> 'v \<Rightarrow> bool" for ops happens v0 where
  same: "evolves ops happens v0 v0"
| asked: "evolves ops happens v0 v \<Longrightarrow> evolves ops happens v0 (snd (perform ops r v))"
| drained: "evolves ops happens v0 v \<Longrightarrow> evolves ops happens v0 (snd (vn_drain_events ops v))"
| happened: "evolves ops happens v0 v \<Longrightarrow> happens v v' \<Longrightarrow> evolves ops happens v0 v'"

context order_keeper begin

lemma evolves_keeps: "evolves ops happens v0 v \<Longrightarrow> holds c v0 \<Longrightarrow> holds c v"
  by (induction rule: evolves.induct) (auto intro: perform_keeps drain_keeps happens_keeps)

lemma acknowledged_is_never_absent:
  assumes "fst (perform ops r v0) = Some [Submitted c (Acked x)]" "evolves ops happens (snd (perform ops r v0)) v"
  shows "fst (perform ops q v) \<noteq> Some [LookedUp c LookupAbsent]"
  using held_is_not_absent [OF evolves_keeps [OF assms(2) perform_acked [OF assms(1)]]] .

end

subsection \<open>The simulated venue keeps it\<close>

text \<open>What a test may do to the simulated venue between calls.\<close>

inductive sim_happens :: "sim_venue \<Rightarrow> sim_venue \<Rightarrow> bool" where
  fault: "sim_happens v (sim_script c f v)"
| fill: "sim_fill c q p v = Some v' \<Longrightarrow> sim_happens v v'"
| fill_twice: "sim_fill_twice c q p v = Some v' \<Longrightarrow> sim_happens v v'"
| cancel: "sim_happens v (cancel_unsolicited c v)"
| mark: "sim_happens v (sim_mark i p v)"
| balance: "sim_happens v (sim_balance a m v)"
| force: "sim_happens v (force_positions ps v)"

lemma sim_fill_knows: "sim_fill c q p v = Some v' \<Longrightarrow> sim_knows v d \<Longrightarrow> sim_knows v' d"
  by (auto simp: sim_fill_def next_exec_id_def Let_def sim_knows_def hm_contains_def split: option.splits)

interpretation sim: order_keeper sim_venue_ops "\<lambda>c v. sim_knows v c" sim_happens
proof
  show "sim_knows v' c" if "sim_happens v v'" "sim_knows v c" for v v' c
    using that
  proof (induction rule: sim_happens.induct)
    case (fill_twice d q p v v')
    then show ?case
      by (auto simp: sim_fill_twice_def sim_knows_def dest!: sim_fill_knows [of _ _ _ _ _ c] split: option.splits if_splits)
  next
    case (fill d q p v v')
    then show ?case by (rule sim_fill_knows)
  qed (auto simp: sim_script_def cancel_unsolicited_def sim_mark_def sim_balance_def force_positions_def sim_knows_def
      hm_contains_def split: option.splits)
qed (auto simp: sim_venue_ops_def sim_submit_def sim_cancel_def sim_lookup_def sim_positions_def sim_drain_events_def
    take_fault_def sim_accept_def next_venue_id_def sim_knows_def hm_contains_def Let_def
    split: option.splits fault.splits prod.splits if_splits)

subsection \<open>Properties\<close>



end
