(* ===== verification/Json.thy ===== *)
theory Json
  imports Strings
begin

text \<open>
  JSON values as the process and the exchange adapter see them. The values are those of \<open>serde_json::Value\<close>;
  its numbers are opaque, a type parameter, and what the sources ask of the crate (reading a text, printing a
  number, reading a number as an integer) is the record \<open>json_lib\<close>, a parameter of every definition that uses it.
  An object is an association list in which the first binding of a name is the one \<open>get\<close> finds.
\<close>

datatype 'n json =
    JNull | JBool bool | JNumber 'n | JString str | JArray "'n json list" | JObject "(str \<times> 'n json) list"

record 'n json_lib =
  jl_from_str :: "str \<Rightarrow> str + 'n json"
  jl_to_string :: "'n \<Rightarrow> str"
  jl_as_i64 :: "'n \<Rightarrow> i64 option"
  jl_as_u64 :: "'n \<Rightarrow> u64 option"

definition json_get :: "str \<Rightarrow> 'n json \<Rightarrow> 'n json option" where
  "json_get name v = (case v of JObject members \<Rightarrow> map_of members name | _ \<Rightarrow> None)"

definition json_str :: "'n json \<Rightarrow> str option" where
  "json_str v = (case v of JString s \<Rightarrow> Some s | _ \<Rightarrow> None)"

definition json_array :: "'n json \<Rightarrow> 'n json list option" where
  "json_array v = (case v of JArray vs \<Rightarrow> Some vs | _ \<Rightarrow> None)"

definition json_i64 :: "'n json_lib \<Rightarrow> 'n json \<Rightarrow> i64 option" where
  "json_i64 lib v = (case v of JNumber n \<Rightarrow> jl_as_i64 lib n | _ \<Rightarrow> None)"

definition json_u64 :: "'n json_lib \<Rightarrow> 'n json \<Rightarrow> u64 option" where
  "json_u64 lib v = (case v of JNumber n \<Rightarrow> jl_as_u64 lib n | _ \<Rightarrow> None)"

text \<open>\<open>get(name).and_then(Value::as_str)\<close> and \<open>get(name).unwrap_or(&Value::Null)\<close>.\<close>

definition json_text :: "str \<Rightarrow> 'n json \<Rightarrow> str option" where
  "json_text name v = Option.bind (json_get name v) json_str"

definition json_field :: "str \<Rightarrow> 'n json \<Rightarrow> 'n json" where
  "json_field name v = (case json_get name v of Some f \<Rightarrow> f | None \<Rightarrow> JNull)"

lemma json_get_simps [simp]:
  "json_get name (JObject members) = map_of members name" "json_str (JString s) = Some s"
  by (simp_all add: json_get_def json_str_def)

end
