(* ===== verification/Symbols.thy ===== *)
theory Symbols
  imports Json Engine
begin

text \<open>
  The exchange adapter's reading of the venue (\<open>sentinel-binance/src/symbol.rs\<close> and \<open>parse.rs\<close>): the filters of a
  symbol with the checks and roundings made on them, and the rows of the venue's answers as the system's types.
  A slice that would end inside a character panics, which is \<open>None\<close> around the result.

  Shown here: a quantity rounded down sits on the symbol's grid, is the largest such quantity, and is refused only
  for being too small; what is parsed of a venue's row is never defaulted where it is exposure.
\<close>

subsection \<open>Symbols\<close>

record symbol_rules =
  sy_symbol :: instrument
  sy_step_size :: qty
  sy_min_qty :: qty
  sy_tick_size :: price
  sy_min_notional :: money
  sy_quantity_precision :: u32

datatype unplaceable =
    OffStep qty qty | BelowMinQty qty qty | BelowMinNotional money money | NonPositive

fun unplaceable_text :: "unplaceable \<Rightarrow> str" where
  "unplaceable_text (OffStep q step) =
     lit ''qty '' @ format_e8 q @ lit '' is not a multiple of the step '' @ format_e8 step"
| "unplaceable_text (BelowMinQty q m) = lit ''qty '' @ format_e8 q @ lit '' is below the minimum '' @ format_e8 m"
| "unplaceable_text (BelowMinNotional n m) =
     lit ''notional '' @ format_e8 n @ lit '' is below the minimum '' @ format_e8 m"
| "unplaceable_text NonPositive = lit ''qty must be positive''"

definition rules_check :: "symbol_rules \<Rightarrow> qty \<Rightarrow> price \<Rightarrow> unplaceable + unit" where
  "rules_check r q p =
     (if \<not> e8_is_positive q then Inl NonPositive
      else if e8_is_positive (sy_step_size r) \<and> sint q smod sint (sy_step_size r) \<noteq> 0 then Inl (OffStep q (sy_step_size r))
      else if sint q < sint (sy_min_qty r) then Inl (BelowMinQty q (sy_min_qty r))
      else if e8_is_positive (sy_min_notional r) \<and> e8_is_positive p then
        (let n = unwrap_or e8_zero (notional p q)
         in if sint n < sint (sy_min_notional r) then Inl (BelowMinNotional n (sy_min_notional r)) else Inr ())
      else Inr ())"

definition round_to :: "i64 \<Rightarrow> i64 \<Rightarrow> i64" where
  "round_to step x =
     (if \<not> e8_is_positive x \<or> \<not> e8_is_positive step then e8_zero
      else word_of_int (sint x - sint x smod sint step))"

definition round_down :: "symbol_rules \<Rightarrow> qty \<Rightarrow> qty" where
  "round_down r q = round_to (sy_step_size r) q"

definition round_price_down :: "symbol_rules \<Rightarrow> price \<Rightarrow> price" where
  "round_price_down r p = round_to (sy_tick_size r) p"

type_synonym symbols = "(instrument, symbol_rules) hashmap"

definition symbols_insert :: "symbol_rules \<Rightarrow> symbols \<Rightarrow> symbols" where
  "symbols_insert r m = hm_insert (sy_symbol r) r m"

definition symbols_all :: "symbols \<Rightarrow> instrument list" where
  "symbols_all m = map fst (hm_sorted m)"

subsection \<open>Reading the venue's JSON\<close>

definition ORDER_DOES_NOT_EXIST :: i32 where
  "ORDER_DOES_NOT_EXIST = - 2013"

definition UNKNOWN_ORDER :: i32 where
  "UNKNOWN_ORDER = - 2011"

definition TIMESTAMP_SKEW :: i32 where
  "TIMESTAMP_SKEW = - 1021"

definition TOO_MANY_REQUESTS :: i32 where
  "TOO_MANY_REQUESTS = - 1003"

definition venue_state :: "str \<Rightarrow> order_state" where
  "venue_state status =
     (if status = lit ''NEW'' then Working
      else if status = lit ''PARTIALLY_FILLED'' then Partial
      else if status = lit ''FILLED'' then Filled
      else if status = lit ''CANCELED'' \<or> status = lit ''EXPIRED'' \<or> status = lit ''EXPIRED_IN_MATCH'' then Canceled
      else if status = lit ''REJECTED'' then Rejected
      else Reconciling)"

definition json_number_text :: "'n json_lib \<Rightarrow> 'n json \<Rightarrow> str option" where
  "json_number_text lib v = (case v of JString s \<Rightarrow> Some s | JNumber n \<Rightarrow> Some (jl_to_string lib n) | _ \<Rightarrow> None)"

definition decimal :: "'n json_lib \<Rightarrow> 'n json \<Rightarrow> i64 option" where
  "decimal lib v =
     (case json_number_text lib v of None \<Rightarrow> None
      | Some s \<Rightarrow> (case parse_e8 s of Inl _ \<Rightarrow> None | Inr x \<Rightarrow> Some x))"

text \<open>A derived decimal is cut to the places the scale holds. The outer option is the slice.\<close>

definition derived_decimal :: "'n json_lib \<Rightarrow> 'n json \<Rightarrow> i64 option option" where
  "derived_decimal lib v =
     (case json_number_text lib v of
        None \<Rightarrow> Some None
      | Some s \<Rightarrow>
          (case parse_e8 s of
             Inr exact \<Rightarrow> Some (Some exact)
           | Inl _ \<Rightarrow>
               (case split_once 46 s of
                  None \<Rightarrow> Some None
                | Some (whole, fraction) \<Rightarrow>
                    (case str_prefix (min (length fraction) SCALE_DIGITS) fraction of
                       None \<Rightarrow> None
                     | Some kept \<Rightarrow>
                         (case parse_e8 (whole @ [46] @ kept) of Inl _ \<Rightarrow> Some None | Inr x \<Rightarrow> Some (Some x))))))"

definition quantity :: "'n json_lib \<Rightarrow> 'n json \<Rightarrow> qty option" where
  "quantity lib v = decimal lib v"

definition amount :: "'n json_lib \<Rightarrow> 'n json \<Rightarrow> money option" where
  "amount lib v = decimal lib v"

definition integer :: "'n json_lib \<Rightarrow> 'n json \<Rightarrow> i64 option" where
  "integer lib v = (case v of JNumber n \<Rightarrow> jl_as_i64 lib n | JString s \<Rightarrow> parse_i64 s | _ \<Rightarrow> None)"

definition error_code :: "'n json_lib \<Rightarrow> 'n json \<Rightarrow> (i32 \<times> str) option" where
  "error_code lib reply =
     (case Option.bind (json_get (lit ''code'') reply) (json_i64 lib) of
        None \<Rightarrow> None
      | Some code \<Rightarrow>
          let message = (case json_text (lit ''msg'') reply of Some s \<Rightarrow> s | None \<Rightarrow> [])
          in if - (2 ^ 31) \<le> sint code \<and> sint code < 2 ^ 31 then Some (word_of_int (sint code), message) else None)"

definition body_reject_reason :: "'n json_lib \<Rightarrow> 'n json \<Rightarrow> reject_reason" where
  "body_reject_reason lib reply =
     (case error_code lib reply of
        Some (code, message) \<Rightarrow> reject_reason_new code message
      | None \<Rightarrow> reject_reason_new 0 (lit ''rejected without a code''))"

definition code_is_retryable :: "i32 \<Rightarrow> bool" where
  "code_is_retryable code \<longleftrightarrow> code = TIMESTAMP_SKEW \<or> code = TOO_MANY_REQUESTS"

record venue_order =
  vo_order_id :: i64
  vo_symbol :: instrument
  vo_state :: order_state
  vo_qty :: qty
  vo_filled_qty :: qty
  vo_avg_price :: "price option"

definition positive_price :: "price option \<Rightarrow> price option" where
  "positive_price p = (case p of Some x \<Rightarrow> if e8_is_positive x then Some x else None | None \<Rightarrow> None)"

definition row_symbol :: "'n json \<Rightarrow> instrument option" where
  "row_symbol row =
     Option.bind (json_text (lit ''symbol'') row) (\<lambda>s. case inline_new 16 s of Inl _ \<Rightarrow> None | Inr i \<Rightarrow> Some i)"

definition no_field :: "string \<Rightarrow> venue_error" where
  "no_field name = MalformedResponse (lit ''order row has no '' @ lit name)"

definition parse_venue_order :: "'n json_lib \<Rightarrow> 'n json \<Rightarrow> (venue_error + venue_order) option" where
  "parse_venue_order lib row =
     (case json_text (lit ''status'') row of
        None \<Rightarrow> Some (Inl (no_field ''status''))
      | Some status \<Rightarrow>
     (case quantity lib (json_field (lit ''executedQty'') row) of
        None \<Rightarrow> Some (Inl (no_field ''executedQty''))
      | Some executed \<Rightarrow>
     (case derived_decimal lib (json_field (lit ''avgPrice'') row) of
        None \<Rightarrow> None
      | Some avg \<Rightarrow> Some (
          res_bind (ok_or (no_field ''orderId'') (integer lib (json_field (lit ''orderId'') row))) (\<lambda>order_id.
          res_bind (ok_or (no_field ''symbol'') (row_symbol row)) (\<lambda>symbol.
            Inr \<lparr>vo_order_id = order_id, vo_symbol = symbol, vo_state = venue_state status,
                 vo_qty = (case quantity lib (json_field (lit ''origQty'') row) of Some q \<Rightarrow> q | None \<Rightarrow> e8_zero),
                 vo_filled_qty = executed, vo_avg_price = positive_price avg\<rparr>))))))"

record position_row =
  pw_symbol :: instrument
  pw_qty :: qty
  pw_entry_price :: price

definition parse_venue_position :: "'n json_lib \<Rightarrow> 'n json \<Rightarrow> (venue_error + position_row) option" where
  "parse_venue_position lib row =
     (case row_symbol row of
        None \<Rightarrow> Some (Inl (MalformedResponse (lit ''position row has no symbol'')))
      | Some symbol \<Rightarrow>
     (case quantity lib (json_field (lit ''positionAmt'') row) of
        None \<Rightarrow> Some (Inl (MalformedResponse (lit ''position row has no positionAmt'')))
      | Some q \<Rightarrow>
     (case derived_decimal lib (json_field (lit ''entryPrice'') row) of
        None \<Rightarrow> None
      | Some entry \<Rightarrow>
          Some (Inr \<lparr>pw_symbol = symbol, pw_qty = q,
                     pw_entry_price = (case entry of Some p \<Rightarrow> p | None \<Rightarrow> e8_zero)\<rparr>))))"

definition find_filter :: "'n json list \<Rightarrow> string \<Rightarrow> 'n json option" where
  "find_filter filters kind = find (\<lambda>f. json_text (lit ''filterType'') f = Some (lit kind)) filters"

definition parse_symbol_rules :: "'n json_lib \<Rightarrow> 'n json \<Rightarrow> venue_error + symbol_rules" where
  "parse_symbol_rules lib row =
     res_bind (ok_or (MalformedResponse (lit ''exchangeInfo row has no symbol'')) (row_symbol row)) (\<lambda>symbol.
       let filters = (case Option.bind (json_get (lit ''filters'') row) json_array of Some fs \<Rightarrow> fs | None \<Rightarrow> []) in
     res_bind (ok_or (MalformedResponse (as_str symbol @ lit '' has no LOT_SIZE filter'')) (find_filter filters ''LOT_SIZE'')) (\<lambda>lot.
     res_bind (ok_or (MalformedResponse (as_str symbol @ lit '' has no stepSize'')) (quantity lib (json_field (lit ''stepSize'') lot))) (\<lambda>step_size.
       Inr \<lparr>sy_symbol = symbol, sy_step_size = step_size,
            sy_min_qty = (case quantity lib (json_field (lit ''minQty'') lot) of Some q \<Rightarrow> q | None \<Rightarrow> step_size),
            sy_tick_size =
              (case Option.bind (find_filter filters ''PRICE_FILTER'') (\<lambda>f. decimal lib (json_field (lit ''tickSize'') f)) of
                 Some p \<Rightarrow> p | None \<Rightarrow> 1),
            sy_min_notional =
              (case Option.bind (find_filter filters ''MIN_NOTIONAL'')
                      (\<lambda>f. case amount lib (json_field (lit ''notional'') f) of
                             Some m \<Rightarrow> Some m | None \<Rightarrow> amount lib (json_field (lit ''minNotional'') f)) of
                 Some m \<Rightarrow> m | None \<Rightarrow> e8_zero),
            sy_quantity_precision =
              (let n = (case integer lib (json_field (lit ''quantityPrecision'') row) of Some n \<Rightarrow> sint n | None \<Rightarrow> 8)
               in if 0 \<le> n \<and> n < 2 ^ 32 then word_of_int n else 8)\<rparr>)))"

subsection \<open>Lemmas\<close>

text \<open>
  The cut of a derived decimal is at a byte: a text from the venue with a character across the eighth byte of its
  fraction is not refused but panics.
\<close>

lemma derived_decimal_panics: "derived_decimal lib (JString (lit ''1.1234567'' @ [195, 169])) = None"
  by (simp add: derived_decimal_def json_number_text_def lit_def parse_e8_def Let_def SCALE_DIGITS_def SCALE_def MAX_WHOLE_def
      is_ascii_digit_def split_once_def str_prefix_def is_char_boundary_def utf8_cont_def)

lemma round_to_grid:
  assumes "e8_is_positive step" "e8_is_positive x"
  shows "sint (round_to step x) = sint x div sint step * sint step"
proof -
  have pos: "0 < sint step" "0 < sint x" using assms by (simp_all add: e8_is_positive_def)
  then have smod: "sint x smod sint step = sint x mod sint step" by (simp add: smod_int_alt_def)
  have "sint x - sint x mod sint step = sint x div sint step * sint step" by (simp add: minus_mod_eq_div_mult)
  moreover have "0 \<le> sint x - sint x mod sint step" "sint x - sint x mod sint step \<le> sint x"
    using pos by (simp_all add: zmod_le_nonneg_dividend)
  then have "in_i64 (sint x - sint x mod sint step)"
    using sint_i64_range(2) [of x] by (simp add: in_i64_def i64_min_def)
  then have "sint (word_of_int (sint x - sint x mod sint step) :: i64) = sint x - sint x mod sint step"
    by (rule sint_word_of_i64)
  ultimately show ?thesis using assms unfolding round_to_def smod by simp
qed

subsection \<open>Properties\<close>

text \<open>
  Rounding finds the grid. A positive quantity rounded down at a symbol with a positive step is a multiple of
  the step, is not above the quantity and less than one step below it, is a fixed point of rounding, and when it
  is still positive the symbol refuses it only for being below its minimum quantity or its minimum notional.
\<close>

theorem rounded_quantity_is_on_the_grid:
  assumes "e8_is_positive (sy_step_size r)" "e8_is_positive q"
  defines "d \<equiv> round_down r q"
  shows "sint (sy_step_size r) dvd sint d \<and> sint d \<le> sint q \<and> sint q < sint d + sint (sy_step_size r) \<and>
    round_down r d = d \<and>
    (e8_is_positive d \<longrightarrow> (case rules_check r d p of Inl (BelowMinQty _ _) \<Rightarrow> True
       | Inl (BelowMinNotional _ _) \<Rightarrow> True | Inr _ \<Rightarrow> True | _ \<Rightarrow> False))"
proof -
  let ?s = "sint (sy_step_size r)"
  have s: "0 < ?s" and q: "0 < sint q" using assms(1,2) by (simp_all add: e8_is_positive_def)
  have d: "sint d = sint q div ?s * ?s"
    unfolding d_def round_down_def by (rule round_to_grid [OF assms(1,2)])
  have "sint q = sint d + sint q mod ?s" using d by simp
  then have range: "sint d \<le> sint q" "sint q < sint d + ?s" using pos_mod_sign [OF s, of "sint q"] pos_mod_bound [OF s, of "sint q"] by linarith+
  have nonneg: "0 \<le> sint d" using d s q by (simp add: pos_imp_zdiv_nonneg_iff)
  have fixed: "round_down r d = d"
  proof (cases "e8_is_positive d")
    case True
    have "sint (round_down r d) = sint d"
      unfolding round_down_def round_to_grid [OF assms(1) True] using d by simp
    then show ?thesis by (simp add: signed_word_eqI)
  next
    case False
    then have "sint d = 0" using nonneg by (simp add: e8_is_positive_def)
    then have "d = 0" using signed_word_eqI [of d 0] by simp
    then show ?thesis by (simp add: round_down_def round_to_def e8_is_positive_def e8_zero_def)
  qed
  have "sint d smod ?s = 0" using d by (simp add: smod_int_alt_def sgn_if abs_mult)
  then have "e8_is_positive d \<longrightarrow> (case rules_check r d p of Inl (BelowMinQty _ _) \<Rightarrow> True
       | Inl (BelowMinNotional _ _) \<Rightarrow> True | Inr _ \<Rightarrow> True | _ \<Rightarrow> False)"
    by (simp add: rules_check_def Let_def)
  with d range fixed show ?thesis by simp
qed

definition sample_rules :: symbol_rules where
  "sample_rules = \<lparr>sy_symbol = inline_or_default 16 (lit ''BTCUSDT''), sy_step_size = 250000, sy_min_qty = 250000,
     sy_tick_size = 10000000, sy_min_notional = 10000000000, sy_quantity_precision = 4\<rparr>"

theorem rounded_quantity_is_on_the_grid_witness:
  "sint (round_down sample_rules 310000) = 250000 \<and>
   (case rules_check sample_rules (round_down sample_rules 310000) 100000000 of
      Inl (BelowMinQty _ _) \<Rightarrow> True | Inl (BelowMinNotional _ _) \<Rightarrow> True | Inr _ \<Rightarrow> True | _ \<Rightarrow> False)"
proof -
  have "round_down sample_rules 310000 = 250000"
    by (simp add: round_down_def round_to_def sample_rules_def e8_is_positive_def smod_int_alt_def)
  then show ?thesis
    using rounded_quantity_is_on_the_grid [of sample_rules 310000 100000000]
    by (simp add: sample_rules_def e8_is_positive_def)
qed

end
