(* ===== verification/Signing.thy ===== *)
theory Signing
  imports Json
begin

text \<open>
  Request signing and the venue's clock (\<open>sentinel-binance/src/signing.rs\<close>). HMAC-SHA256 is a parameter; that
  its output is bytes is all that is used of it. The clock offset is the value of the atomic, and the
  subtraction that sets it panics on overflow (\<open>None\<close>).

  Shown here: what the venue reads from a signed query is exactly the parameters that were pushed, whatever bytes
  their values hold, then the timestamp and the window, then the signature of the bytes before it; and an offset
  synced over a round trip is off by at most half of it.
\<close>

subsection \<open>The query string\<close>

definition RECV_WINDOW_MS :: nat where
  "RECV_WINDOW_MS = 5000"

definition hex_digit :: "u8 \<Rightarrow> u8" where
  "hex_digit nibble = (if nibble \<le> 9 then 48 + nibble else 65 + (nibble - 10))"

definition is_unreserved :: "u8 \<Rightarrow> bool" where
  "is_unreserved b \<longleftrightarrow>
     48 \<le> b \<and> b \<le> 57 \<or> 65 \<le> b \<and> b \<le> 90 \<or> 97 \<le> b \<and> b \<le> 122 \<or> b = 45 \<or> b = 95 \<or> b = 46 \<or> b = 126"

definition encode_byte :: "u8 \<Rightarrow> str" where
  "encode_byte b = (if is_unreserved b then [b] else [37, hex_digit (b div 16), hex_digit (b mod 16)])"

definition encode_into :: "str \<Rightarrow> str \<Rightarrow> str" where
  "encode_into out val = foldl (\<lambda>out b. out @ encode_byte b) out val"

definition push :: "str \<Rightarrow> str \<Rightarrow> str \<Rightarrow> str" where
  "push key val query = encode_into ((if query \<noteq> [] then query @ [38] else query) @ key @ [61]) val"

definition push_opt :: "str \<Rightarrow> str option \<Rightarrow> str \<Rightarrow> str" where
  "push_opt key val query = (case val of Some v \<Rightarrow> push key v query | None \<Rightarrow> query)"

definition hex_lower :: "u8 \<Rightarrow> u8" where
  "hex_lower nibble = (if nibble \<le> 9 then 48 + nibble else 97 + (nibble - 10))"

definition sign_text :: "(str \<Rightarrow> str \<Rightarrow> u8 list) \<Rightarrow> str \<Rightarrow> str \<Rightarrow> str" where
  "sign_text hmac secret message = concat (map (\<lambda>b. [hex_lower (b div 16), hex_lower (b mod 16)]) (hmac secret message))"

definition query_sign :: "(str \<Rightarrow> str \<Rightarrow> u8 list) \<Rightarrow> str \<Rightarrow> u64 \<Rightarrow> str \<Rightarrow> str" where
  "query_sign hmac secret timestamp_ms query =
     (let payload = push (lit ''recvWindow'') (dec RECV_WINDOW_MS) (push (lit ''timestamp'') (dec (unat timestamp_ms)) query)
      in payload @ lit ''&signature='' @ sign_text hmac secret payload)"

subsection \<open>The venue's clock\<close>

definition sync_round_trip :: "u64 \<Rightarrow> u64 \<Rightarrow> u64 \<Rightarrow> i64 option" where
  "sync_round_trip server_time_ms sent_ms received_ms =
     (let round_trip = saturating_sub_u64 received_ms sent_ms;
          half = round_trip div 2;
          midpoint = saturating_add_u64 sent_ms half
      in checked_sub_i64 server_time_ms midpoint)"

definition clock_sync :: "u64 \<Rightarrow> u64 \<Rightarrow> i64 option" where
  "clock_sync server_time_ms local_time_ms = sync_round_trip server_time_ms local_time_ms local_time_ms"

definition venue_time_ms :: "i64 \<Rightarrow> u64 \<Rightarrow> u64" where
  "venue_time_ms offset local_time_ms =
     (let t = saturating_add_i64 local_time_ms offset in if sint t < 0 then 0 else t)"

definition format_decimal :: "i64 \<Rightarrow> str" where
  "format_decimal x = format_e8 x"

subsection \<open>What a server reads from a query\<close>

fun unhex :: "u8 \<Rightarrow> u8" where
  "unhex d = (if d \<le> 57 then d - 48 else d - 55)"

fun percent_decode :: "str \<Rightarrow> str" where
  "percent_decode (b # c # d # rest) =
     (if b = 37 then (unhex c * 16 + unhex d) # percent_decode rest else b # percent_decode (c # d # rest))"
| "percent_decode bs = bs"

definition query_pair :: "str \<Rightarrow> str \<times> str" where
  "query_pair p = (case split_once 61 p of Some (k, v) \<Rightarrow> (k, percent_decode v) | None \<Rightarrow> (p, []))"

definition query_pairs :: "str \<Rightarrow> (str \<times> str) list" where
  "query_pairs q = (if q = [] then [] else map query_pair (split_char 38 q))"

subsection \<open>Lemmas\<close>

lemma encode_into_eq: "encode_into out val = out @ concat (map encode_byte val)"
  by (induction val arbitrary: out) (simp_all add: encode_into_def)

lemma nibbles: "(b :: u8) div 16 \<le> 15" "b mod 16 \<le> 15" "b div 16 * 16 + b mod 16 = b"
  by (simp_all add: word_le_nat_alt unat_div unat_mod, simp_all add: div_mult_mod_eq)
    (use unsigned_less [of b, where ?'a = nat] in simp)

lemma small_cases: "(n :: u8) \<le> 15 \<Longrightarrow> n \<in> {0,1,2,3,4,5,6,7,8,9,10,11,12,13,14,15}"
proof -
  assume "n \<le> 15"
  then have "unat n \<le> 15" by (simp add: word_le_nat_alt)
  then have "unat n \<in> {0,1,2,3,4,5,6,7,8,9,10,11,12,13,14,15}" by (simp, presburger)
  then show ?thesis by (auto simp: word_unat_eq_iff)
qed

lemma hex_digit_props:
  assumes "n \<le> 15"
  shows "unhex (hex_digit n) = n" "hex_digit n \<noteq> 37" "hex_digit n \<noteq> 38" "hex_digit n \<noteq> 61"
    "is_unreserved (hex_lower n)"
  using small_cases [OF assms] by (auto simp: hex_digit_def hex_lower_def is_unreserved_def)

lemma reserved: "is_unreserved b \<Longrightarrow> b \<noteq> 37 \<and> b \<noteq> 38 \<and> b \<noteq> 61"
  by (auto simp: is_unreserved_def)

lemma encode_byte_set: "c \<in> set (encode_byte b) \<Longrightarrow> c \<noteq> 38 \<and> c \<noteq> 61"
  using hex_digit_props [OF nibbles(1) [of b]] hex_digit_props [OF nibbles(2) [of b]] reserved [of b]
  by (auto simp: encode_byte_def split: if_splits)

lemma percent_decode_plain: "b \<noteq> 37 \<Longrightarrow> percent_decode (b # bs) = b # percent_decode bs"
  by (cases bs; cases "tl bs") auto

lemma percent_roundtrip: "percent_decode (concat (map encode_byte val)) = val"
proof (induction val)
  case (Cons b val)
  show ?case
  proof (cases "is_unreserved b")
    case True
    then show ?thesis using Cons reserved [of b] by (simp add: encode_byte_def percent_decode_plain)
  next
    case False
    then show ?thesis
      using Cons hex_digit_props(1) [OF nibbles(1) [of b]] hex_digit_props(1) [OF nibbles(2) [of b]] nibbles(3) [of b]
      by (simp add: encode_byte_def del: unhex.simps)
  qed
qed simp

lemma split_char_none: "c \<notin> set b \<Longrightarrow> split_char c b = [b]"
  by (induction b) auto

lemma split_char_snoc: "c \<notin> set b \<Longrightarrow> split_char c (a @ c # b) = split_char c a @ [b]"
proof (induction a)
  case (Cons x a)
  then show ?case using split_char_join [of c a] by (cases "split_char c a") auto
qed (simp add: split_char_none)

lemma split_once_eq: "c \<notin> set k \<Longrightarrow> split_once c (k @ c # v) = Some (k, v)"
  by (simp add: split_once_def dropWhile_append takeWhile_append)

definition plain_key :: "str \<Rightarrow> bool" where
  "plain_key k \<longleftrightarrow> 38 \<notin> set k \<and> 61 \<notin> set k"

lemma push_pairs:
  assumes "plain_key k"
  shows "query_pairs (push k v q) = query_pairs q @ [(k, v)]" "push k v q \<noteq> []"
proof -
  let ?p = "k @ 61 # concat (map encode_byte v)"
  have p: "38 \<notin> set ?p" using assms encode_byte_set by (fastforce simp: plain_key_def)
  have pair: "query_pair ?p = (k, v)"
    using assms by (simp add: query_pair_def split_once_eq plain_key_def percent_roundtrip)
  have eq: "push k v q = (if q = [] then ?p else q @ 38 # ?p)" by (simp add: push_def encode_into_eq)
  then show "push k v q \<noteq> []" by simp
  show "query_pairs (push k v q) = query_pairs q @ [(k, v)]"
    unfolding eq using split_char_none [OF p] split_char_snoc [OF p, of q] pair by (simp add: query_pairs_def)
qed

lemma sign_text_plain: "c \<in> set (sign_text hmac secret m) \<Longrightarrow> is_unreserved c"
  using hex_digit_props(5) nibbles by (auto simp: sign_text_def)

lemma percent_decode_unreserved: "\<forall>c \<in> set s. is_unreserved c \<Longrightarrow> percent_decode s = s"
  by (induction s) (auto simp: percent_decode_plain dest: reserved)

lemma foldl_push_pairs:
  "list_all (\<lambda>(k, _). plain_key k) kvs \<Longrightarrow> query_pairs (foldl (\<lambda>q (k, v). push k v q) q kvs) = query_pairs q @ kvs"
  by (induction kvs arbitrary: q) (auto simp: push_pairs)

subsection \<open>Properties\<close>

text \<open>
  C34: the venue reads what was signed, and nothing else. Pushing any parameters and signing gives a string that
  splits back, at \<open>&\<close> and \<open>=\<close> and through percent decoding, into exactly those parameters in their order (a value
  that holds \<open>&\<close>, \<open>=\<close>, \<open>%\<close> or any other byte does not become another parameter), then the timestamp, the
  receive window and the signature; and the signature is that of the very bytes that precede it.
\<close>

theorem signed_query_reads_back:
  assumes "list_all (\<lambda>(k, _). plain_key k) kvs"
  defines "q \<equiv> foldl (\<lambda>q (k, v). push k v q) [] kvs"
  shows "\<exists>payload. query_sign hmac secret ts q = payload @ lit ''&signature='' @ sign_text hmac secret payload \<and>
    query_pairs (query_sign hmac secret ts q) =
      kvs @ [(lit ''timestamp'', dec (unat ts)), (lit ''recvWindow'', dec RECV_WINDOW_MS),
             (lit ''signature'', sign_text hmac secret payload)]"
proof -
  let ?t = "lit ''timestamp'' " and ?r = "lit ''recvWindow'' " and ?g = "lit ''signature'' "
  define payload where "payload = push ?r (dec RECV_WINDOW_MS) (push ?t (dec (unat ts)) q)"
  let ?sig = "sign_text hmac secret payload"
  have keys: "plain_key ?t" "plain_key ?r" "plain_key ?g" by (simp_all add: plain_key_def lit_def)
  have pp: "query_pairs payload = kvs @ [(?t, dec (unat ts)), (?r, dec RECV_WINDOW_MS)]" "payload \<noteq> []"
    unfolding payload_def using foldl_push_pairs [OF assms(1), of "[]"]
    by (simp_all add: push_pairs keys q_def query_pairs_def [of "[]"])
  have plain: "38 \<notin> set ?sig" "\<forall>c \<in> set ?sig. is_unreserved c" using sign_text_plain reserved by blast+
  have tail: "lit ''&signature='' = 38 # lit ''signature'' @ [61]" by (simp add: lit_def)
  have eq: "query_sign hmac secret ts q = payload @ 38 # (?g @ 61 # ?sig)"
    by (simp add: query_sign_def payload_def Let_def tail)
  have "query_pair (?g @ 61 # ?sig) = (?g, ?sig)"
    using keys(3) percent_decode_unreserved [OF plain(2)]
    by (simp add: query_pair_def split_once_eq [of 61 ?g] plain_key_def)
  moreover have "38 \<notin> set (?g @ 61 # ?sig)" using plain(1) keys(3) by (simp add: plain_key_def)
  ultimately have "query_pairs (query_sign hmac secret ts q) = query_pairs payload @ [(?g, ?sig)]"
    unfolding eq using split_char_snoc [of 38 "?g @ 61 # ?sig" payload] pp(2) by (simp add: query_pairs_def)
  then show ?thesis using pp(1) eq by (intro exI [of _ payload]) (simp add: tail)
qed

theorem signed_query_reads_back_witness:
  "query_pairs (query_sign (\<lambda>_ _. [171]) (lit ''s'') 7 (push (lit ''symbol'') (lit ''A&b=1'') [])) =
     [(lit ''symbol'', lit ''A&b=1''), (lit ''timestamp'', dec 7), (lit ''recvWindow'', dec RECV_WINDOW_MS),
      (lit ''signature'', lit ''ab'')]"
proof -
  have "list_all (\<lambda>(k, _). plain_key k) [(lit ''symbol'', lit ''A&b=1'')]" by (simp add: plain_key_def lit_def)
  moreover have "sign_text (\<lambda>_ _. [171]) (lit ''s'') payload = lit ''ab''" for payload
    by (simp add: sign_text_def hex_lower_def lit_def)
  ultimately show ?thesis
    using signed_query_reads_back [of "[(lit ''symbol'', lit ''A&b=1'')]" "\<lambda>_ _. [171]" "lit ''s''" 7] by auto
qed

text \<open>
  C38: a synced clock is off by at most half the round trip. When the venue's clock runs \<open>\<delta>\<close> milliseconds ahead of
  ours, and its answer was stamped at some moment between sending the request and reading the reply, then the
  offset taken from the exchange differs from \<open>\<delta>\<close> by no more than half the round trip (rounded up), and so does the
  time that is put on every request from the time the venue's clock shows, as long as both are epoch times.
\<close>

theorem synced_clock_error:
  assumes "sent \<le> at'" "at' \<le> received" "uint received < 2 ^ 62" "uint server = uint at' + \<delta>" "uint server < 2 ^ 62"
    "sync_round_trip server sent received = Some offset" "uint now < 2 ^ 62" "0 \<le> sint offset + uint now"
  shows "\<bar>sint offset - \<delta>\<bar> \<le> (uint received - uint sent + 1) div 2 \<and>
    \<bar>uint (venue_time_ms offset now) - (uint now + \<delta>)\<bar> \<le> (uint received - uint sent + 1) div 2"
proof -
  have ord: "uint sent \<le> uint at'" "uint at' \<le> uint received" using assms(1,2) by (simp_all add: word_le_def)
  have s62: "sint x = uint x" if "uint x < 2 ^ 62" for x :: u64
  proof -
    have "- (2 ^ 63) \<le> uint x" by (rule order.trans [of _ 0]) simp_all
    then show ?thesis using that unfolding sint_uint by (intro signed_take_bit_int_eq_self) simp_all
  qed
  have u: "uint t = sint t" if "0 \<le> sint t" for t :: i64
    using that sint_lt [of t] by (simp add: uint_sint take_bit_int_eq_self)
  define half where "half = saturating_sub_u64 received sent div 2"
  have half: "uint half = (uint received - uint sent) div 2"
  proof -
    have "sent \<le> received" using assms(1,2) by (rule order.trans)
    moreover from this have "uint (received - sent) = uint received - uint sent"
      by (rule uint_minus_simple_alt [THEN iffD1])
    ultimately show ?thesis by (simp add: half_def saturating_sub_u64_def uint_div)
  qed
  define mid where "mid = saturating_add_u64 sent half"
  have "uint sent + uint half < 2 ^ 62" using half ord assms(3) by simp
  moreover from this have "uint (sent + half) = uint sent + uint half" using uint_add_lem [of sent half] by simp
  ultimately have mid: "uint mid = uint sent + (uint received - uint sent) div 2" "uint mid < 2 ^ 62"
    using half by (simp_all add: mid_def saturating_add_u64_def)
  have "checked_sub_i64 server mid = Some offset"
    using assms(6) by (simp add: sync_round_trip_def Let_def half_def mid_def)
  then have off: "sint offset = uint server - uint mid"
    using s62 [OF assms(5)] s62 [OF mid(2)] by (simp add: checked_sub_i64_Some)
  have "\<bar>uint at' - uint mid\<bar> \<le> (uint received - uint sent + 1) div 2" using ord mid(1) by linarith
  then have err: "\<bar>sint offset - \<delta>\<bar> \<le> (uint received - uint sent + 1) div 2" using off assms(4) by simp
  have "uint now + sint offset < 2 ^ 63"
  proof -
    have "0 \<le> uint mid" by simp
    moreover have "(2 :: int) ^ 62 + 2 ^ 62 = 2 ^ 63" by simp
    ultimately show ?thesis using off assms(5,7) by linarith
  qed
  then have "sint (saturating_add_i64 now offset) = uint now + sint offset"
    using s62 [OF assms(7)] assms(8)
    by (simp add: saturating_add_i64_def sint_sat_i64 i64_min_def i64_max_def)
  then have "uint (venue_time_ms offset now) = uint now + sint offset"
    using assms(8) u [of "saturating_add_i64 now offset"] by (simp add: venue_time_ms_def Let_def)
  then show ?thesis using err by simp
qed

theorem synced_clock_error_witness:
  "\<bar>sint (the (sync_round_trip 1000 200 300)) - (750 :: int)\<bar> \<le> 50 \<and>
   \<bar>uint (venue_time_ms (the (sync_round_trip 1000 200 300)) 400) - 1150\<bar> \<le> (50 :: int)"
proof -
  have "sync_round_trip 1000 200 300 = Some 750"
    by (simp add: sync_round_trip_def saturating_sub_u64_def saturating_add_u64_def checked_sub_i64_def to_i64_def
        in_i64_def i64_min_def i64_max_def)
  then show ?thesis using synced_clock_error [of 200 250 300 1000 750 750 400] by simp
qed

end
