(* ===== verification/Binance.thy ===== *)
theory Binance
  imports Symbols Signing
begin

text \<open>
  The exchange adapter (\<open>sentinel-binance/src/lib.rs\<close>). The HTTP agent, the local clock, HMAC and the JSON crate are the record \<open>world_ops\<close>, over an arbitrary state \<open>'w\<close> of the outside
  world: nothing is assumed of what the venue answers. An operation of the adapter fails with a \<open>venue_error\<close>, or
  panics. The receiving end of the stream's channel is the list of what has arrived.

  Shown here: an order the symbol's rules refuse is never sent; a rejection is always the venue's own, with its
  code, and silence is a timeout; and absence is concluded only when every symbol was asked and each answered with
  the one code that proves it.
\<close>

datatype http = Reply str | BodyUnreadable str | Status nat | NoAnswer | BadRequest str

text \<open>The first argument of \<open>wo_http\<close> is whether the agent turns an error status into an error.\<close>

record ('w, 'n) world_ops =
  wo_json :: "'n json_lib"
  wo_http :: "bool \<Rightarrow> str \<Rightarrow> str \<Rightarrow> str option \<Rightarrow> 'w \<Rightarrow> http \<times> 'w"
  wo_local_ms :: "'w \<Rightarrow> u64 \<times> 'w"
  wo_hmac :: "str \<Rightarrow> str \<Rightarrow> u8 list"

record credentials =
  cd_api_key :: str
  cd_secret :: str
  cd_rest_base :: str
  cd_ws_base :: str

definition credentials_demo :: "str \<Rightarrow> str \<Rightarrow> credentials" where
  "credentials_demo api_key secret =
     \<lparr>cd_api_key = api_key, cd_secret = secret, cd_rest_base = lit ''https://demo-fapi.binance.com'',
      cd_ws_base = lit ''wss://demo-fstream.binance.com''\<rparr>"

definition credentials_production :: "str \<Rightarrow> str \<Rightarrow> credentials" where
  "credentials_production api_key secret =
     \<lparr>cd_api_key = api_key, cd_secret = secret, cd_rest_base = lit ''https://fapi.binance.com'',
      cd_ws_base = lit ''wss://fstream.binance.com''\<rparr>"

record 'w adapter =
  ad_credentials :: credentials
  ad_clock :: i64
  ad_instruments :: "instrument list"
  ad_symbols :: symbols
  ad_events :: "venue_event list option"
  ad_world :: 'w

type_synonym ('w, 'a) adapter_op = "('w adapter, call_failure, 'a) op"

text \<open>An operation whose error is looked at; a panic is not an error.\<close>

definition attempt :: "('w, 'a) adapter_op \<Rightarrow> ('w, venue_error + 'a) adapter_op" where
  "attempt m a =
     (case m a of
        (Inl CallPanicked, a') \<Rightarrow> (Inl CallPanicked, a') | (Inl (CallFailed e), a') \<Rightarrow> (Inr (Inl e), a') | (Inr x, a') \<Rightarrow> (Inr (Inr x), a'))"

definition parsed :: "(venue_error + 'a) option \<Rightarrow> ('w, 'a) adapter_op" where
  "parsed r = (case r of None \<Rightarrow> op_err CallPanicked | Some (Inl e) \<Rightarrow> op_err (CallFailed e) | Some (Inr x) \<Rightarrow> op_ok x)"

definition dec_int :: "int \<Rightarrow> str" where
  "dec_int n = (if n < 0 then 45 # dec (nat (- n)) else dec (nat n))"

definition coded :: "string \<Rightarrow> i32 \<Rightarrow> str \<Rightarrow> str" where
  "coded prefix code message = lit prefix @ lit ''['' @ dec_int (sint code) @ lit ''] '' @ message"

subsection \<open>The transport\<close>

definition local_ms :: "('w, 'n) world_ops \<Rightarrow> ('w, u64) adapter_op" where
  "local_ms ops a = (let (t, w) = wo_local_ms ops (ad_world a) in (Inr t, a\<lparr>ad_world := w\<rparr>))"

definition http_run :: "('w, 'n) world_ops \<Rightarrow> bool \<Rightarrow> str \<Rightarrow> str \<Rightarrow> bool \<Rightarrow> ('w, http) adapter_op" where
  "http_run ops status_errors http_method url keyed a =
     (let (r, w) = wo_http ops status_errors http_method url
            (if keyed then Some (cd_api_key (ad_credentials a)) else None) (ad_world a)
      in (Inr r, a\<lparr>ad_world := w\<rparr>))"

fun take_chars :: "nat \<Rightarrow> str \<Rightarrow> str" where
  "take_chars 0 s = []"
| "take_chars (Suc n) [] = []"
| "take_chars (Suc n) (b # bs) = b # takeWhile utf8_cont bs @ take_chars n (dropWhile utf8_cont bs)"

definition read_json :: "('w, 'n) world_ops \<Rightarrow> str \<Rightarrow> ('w, 'n json) adapter_op" where
  "read_json ops s =
     (case jl_from_str (wo_json ops) s of
        Inr v \<Rightarrow> op_ok v
      | Inl e \<Rightarrow> op_err (CallFailed (MalformedResponse (e @ lit '': '' @ take_chars 200 s))))"

definition read_error_body :: "('w, 'n) world_ops \<Rightarrow> str \<Rightarrow> str \<Rightarrow> bool \<Rightarrow> ('w, 'n json option) adapter_op" where
  "read_error_body ops http_method url keyed =
     op_bind (http_run ops False http_method url keyed) (\<lambda>r.
       case r of
         BadRequest e \<Rightarrow> op_err (CallFailed (MalformedResponse e))
       | Reply s \<Rightarrow> op_bind (read_json ops s) (\<lambda>v. op_ok (Some v))
       | BodyUnreadable e \<Rightarrow> op_err (CallFailed (Transport e))
       | Status _ \<Rightarrow> op_ok None
       | NoAnswer \<Rightarrow> op_ok None)"

definition send_request :: "('w, 'n) world_ops \<Rightarrow> str \<Rightarrow> str \<Rightarrow> str \<Rightarrow> bool \<Rightarrow> ('w, 'n json option) adapter_op" where
  "send_request ops http_method path query keyed = op_read (\<lambda>a.
     let url = cd_rest_base (ad_credentials a) @ path @ (if query = [] then [] else 63 # query) in
     op_bind (http_run ops True http_method url keyed) (\<lambda>r.
       case r of
         BadRequest e \<Rightarrow> op_err (CallFailed (MalformedResponse e))
       | Status code \<Rightarrow>
           if code = 429 \<or> code = 418 then op_err (CallFailed (RateLimited None))
           else if code = 401 then op_err (CallFailed Unauthorized)
           else if code \<ge> 500 then op_ok None
           else read_error_body ops http_method url keyed
       | NoAnswer \<Rightarrow> op_ok None
       | Reply s \<Rightarrow> op_bind (read_json ops s) (\<lambda>v. op_ok (Some v))
       | BodyUnreadable e \<Rightarrow> op_err (CallFailed (Transport e))))"

definition public_call :: "('w, 'n) world_ops \<Rightarrow> str \<Rightarrow> str \<Rightarrow> ('w, 'n json option) adapter_op" where
  "public_call ops path query = send_request ops (lit ''GET'') path query False"

definition signed_call :: "('w, 'n) world_ops \<Rightarrow> string \<Rightarrow> string \<Rightarrow> str \<Rightarrow> ('w, 'n json option) adapter_op" where
  "signed_call ops http_method path query =
     op_bind (local_ms ops) (\<lambda>now. op_read (\<lambda>a.
       send_request ops (lit http_method) (lit path)
         (query_sign (wo_hmac ops) (cd_secret (ad_credentials a)) (venue_time_ms (ad_clock a) now) query) True))"

subsection \<open>Connecting\<close>

type_synonym clock_sample = "u64 \<times> u64 \<times> u64 \<times> u64"

definition no_time :: venue_error where
  "no_time = Transport (lit ''no answer from /fapi/v1/time'')"

definition clock_sample ::
  "('w, 'n) world_ops \<Rightarrow> clock_sample option \<times> venue_error option \<Rightarrow>
   ('w, clock_sample option \<times> venue_error option) adapter_op"
where
  "clock_sample ops = (\<lambda>(best, last_error).
     op_bind (local_ms ops) (\<lambda>sent.
     op_bind (attempt (public_call ops (lit ''/fapi/v1/time'') [])) (\<lambda>r.
       case r of
         Inl e \<Rightarrow> op_ok (best, Some e)
       | Inr None \<Rightarrow> op_ok (best, Some no_time)
       | Inr (Some reply) \<Rightarrow>
           op_bind (local_ms ops) (\<lambda>received.
             case integer (wo_json ops) (json_field (lit ''serverTime'') reply) of
               None \<Rightarrow> op_ok (best, Some (MalformedResponse (lit ''serverTime missing'')))
             | Some server \<Rightarrow>
                 let server_ms = (if sint server < 0 then 0 else server);
                     trip = saturating_sub_u64 received sent
                 in op_ok (if (case best of None \<Rightarrow> True | Some (shortest, _) \<Rightarrow> trip < shortest)
                           then Some (trip, server_ms, sent, received) else best, last_error)))))"

fun op_times :: "nat \<Rightarrow> ('x \<Rightarrow> ('s, 'e, 'x) op) \<Rightarrow> 'x \<Rightarrow> ('s, 'e, 'x) op" where
  "op_times 0 f x = op_ok x"
| "op_times (Suc n) f x = op_bind (f x) (op_times n f)"

definition sync_clock :: "('w, 'n) world_ops \<Rightarrow> ('w, unit) adapter_op" where
  "sync_clock ops =
     op_bind (op_times 5 (clock_sample ops) (None, None)) (\<lambda>(best, last_error).
       case best of
         Some (_, server_ms, sent, received) \<Rightarrow>
           (case sync_round_trip server_ms sent received of
              None \<Rightarrow> op_err CallPanicked
            | Some offset \<Rightarrow> op_modify (\<lambda>a. a\<lparr>ad_clock := offset\<rparr>))
       | None \<Rightarrow> op_err (CallFailed (case last_error of Some e \<Rightarrow> e | None \<Rightarrow> no_time)))"

definition load_symbol :: "('w, 'n) world_ops \<Rightarrow> instrument \<Rightarrow> ('w, symbol_rules) adapter_op" where
  "load_symbol ops i =
     op_bind (public_call ops (lit ''/fapi/v1/exchangeInfo'') (lit ''symbol='' @ as_str i)) (\<lambda>reply.
       case reply of
         None \<Rightarrow> op_err (CallFailed (Transport (lit ''no answer loading '' @ as_str i)))
       | Some v \<Rightarrow>
           let rows = (case Option.bind (json_get (lit ''symbols'') v) json_array of Some rows \<Rightarrow> rows | None \<Rightarrow> []) in
           (case find (\<lambda>row. json_text (lit ''symbol'') row = Some (as_str i)) rows of
              None \<Rightarrow> op_err (CallFailed (MalformedResponse (as_str i @ lit '' is not listed'')))
            | Some row \<Rightarrow> op_lift (map_err CallFailed (parse_symbol_rules (wo_json ops) row))))"

definition load_symbols :: "('w, 'n) world_ops \<Rightarrow> instrument list \<Rightarrow> ('w, unit) adapter_op" where
  "load_symbols ops is = op_for (\<lambda>i. op_bind (load_symbol ops i)
     (\<lambda>rules. op_modify (\<lambda>a. a\<lparr>ad_symbols := symbols_insert rules (ad_symbols a)\<rparr>))) is"

definition set_one_way_mode :: "('w, 'n) world_ops \<Rightarrow> ('w, unit) adapter_op" where
  "set_one_way_mode ops =
     op_seq (attempt (signed_call ops ''POST'' ''/fapi/v1/positionSide/dual'' (push (lit ''dualSidePosition'') (lit ''false'') [])))
       (op_ok ())"

definition set_leverage :: "('w, 'n) world_ops \<Rightarrow> u32 \<Rightarrow> ('w, unit) adapter_op" where
  "set_leverage ops leverage = op_read (\<lambda>a.
     op_for (\<lambda>i. op_seq (attempt (signed_call ops ''POST'' ''/fapi/v1/leverage''
         (push (lit ''leverage'') (dec (unat leverage)) (push (lit ''symbol'') (as_str i) [])))) (op_ok ()))
       (ad_instruments a))"

definition adapter_new :: "credentials \<Rightarrow> instrument list \<Rightarrow> 'w \<Rightarrow> 'w adapter" where
  "adapter_new creds is w =
     \<lparr>ad_credentials = creds, ad_clock = 0, ad_instruments = is, ad_symbols = [], ad_events = None, ad_world = w\<rparr>"

definition connect_read_only :: "('w, 'n) world_ops \<Rightarrow> ('w, unit) adapter_op" where
  "connect_read_only ops = op_seq (sync_clock ops) (op_read (\<lambda>a. load_symbols ops (ad_instruments a)))"

definition connect :: "('w, 'n) world_ops \<Rightarrow> u32 option \<Rightarrow> ('w, unit) adapter_op" where
  "connect ops leverage =
     op_seq (sync_clock ops)
    (op_seq (op_read (\<lambda>a. load_symbols ops (ad_instruments a)))
    (op_seq (set_one_way_mode ops)
      (case leverage of Some l \<Rightarrow> set_leverage ops l | None \<Rightarrow> op_ok ())))"

definition listen_key_open :: "('w, 'n) world_ops \<Rightarrow> ('w, str) adapter_op" where
  "listen_key_open ops =
     op_bind (send_request ops (lit ''POST'') (lit ''/fapi/v1/listenKey'') [] True) (\<lambda>reply.
       case reply of
         None \<Rightarrow> op_err (CallFailed (Transport (lit ''no answer opening a listen key'')))
       | Some v \<Rightarrow>
           (case json_text (lit ''listenKey'') v of
              Some key \<Rightarrow> op_ok key
            | None \<Rightarrow> op_err (CallFailed (MalformedResponse (lit ''no listenKey in the response'')))))"

definition listen_keepalive :: "('w, 'n) world_ops \<Rightarrow> ('w, unit) adapter_op" where
  "listen_keepalive ops =
     op_bind (send_request ops (lit ''PUT'') (lit ''/fapi/v1/listenKey'') [] True) (\<lambda>reply.
       case reply of
         None \<Rightarrow> op_err (CallFailed (Transport (lit ''no answer keeping the key alive'')))
       | Some _ \<Rightarrow> op_ok ())"

subsection \<open>The calls of the trait\<close>

definition rules_for :: "instrument \<Rightarrow> ('w, symbol_rules) adapter_op" where
  "rules_for i = op_read (\<lambda>a.
     case hm_get (ad_symbols a) i of
       Some r \<Rightarrow> op_ok r | None \<Rightarrow> op_err (CallFailed (MalformedResponse (as_str i @ lit '' is not loaded''))))"

definition reference_price :: "economic_order_intent \<Rightarrow> price" where
  "reference_price intent =
     (case in_limit_price intent of Some p \<Rightarrow> p | None \<Rightarrow>
     (case in_stop_price intent of Some p \<Rightarrow> p | None \<Rightarrow>
     (case in_quote_at_decision intent of Some p \<Rightarrow> p | None \<Rightarrow> e8_zero)))"

definition order_query :: "symbol_rules \<Rightarrow> economic_order_intent \<Rightarrow> venue_error + str" where
  "order_query rules intent =
     (let query =
        push (lit ''newClientOrderId'') (as_str (in_client_order_id intent))
       (push (lit ''quantity'') (format_decimal (in_qty intent))
       (push (lit ''side'') (if in_side intent = Buy then lit ''BUY'' else lit ''SELL'')
       (push (lit ''symbol'') (as_str (in_instrument intent)) [])))
      in case in_kind intent of
        StopMarket \<Rightarrow>
          (case in_stop_price intent of
             None \<Rightarrow> Inl (MalformedResponse (lit ''stop order has no trigger''))
           | Some trigger \<Rightarrow> Inr (
               push (lit ''reduceOnly'') (lit ''true'')
              (push (lit ''stopPrice'') (format_decimal (round_price_down rules trigger))
              (push (lit ''type'') (lit ''STOP_MARKET'') query))))
      | Limit \<Rightarrow>
          (case in_limit_price intent of
             None \<Rightarrow> Inl (MalformedResponse (lit ''limit order has no price''))
           | Some limit \<Rightarrow> Inr (
               push (lit ''price'') (format_decimal (round_price_down rules limit))
              (push (lit ''timeInForce'') (lit ''GTC'')
              (push (lit ''type'') (lit ''LIMIT'') query))))
      | Market \<Rightarrow> Inr (push (lit ''type'') (lit ''MARKET'') query))"

definition resync_on_skew :: "('w, 'n) world_ops \<Rightarrow> i32 \<Rightarrow> ('w, unit) adapter_op" where
  "resync_on_skew ops code =
     (if code = TIMESTAMP_SKEW then op_seq (attempt (sync_clock ops)) (op_ok ()) else op_ok ())"

definition submit_answer :: "('w, 'n) world_ops \<Rightarrow> 'n json option \<Rightarrow> ('w, submit_outcome) adapter_op" where
  "submit_answer ops reply =
     (case reply of
        None \<Rightarrow> op_ok SubmitTimedOut
      | Some v \<Rightarrow>
          (case error_code (wo_json ops) v of
             Some (code, message) \<Rightarrow>
               if code_is_retryable code
               then op_seq (resync_on_skew ops code) (op_err (CallFailed (Transport (coded '''' code message))))
               else op_ok (Rejected_by (body_reject_reason (wo_json ops) v))
           | None \<Rightarrow>
               op_ok (Acked (inline_or_default 32
                 (case integer (wo_json ops) (json_field (lit ''orderId'') v) of Some n \<Rightarrow> dec_i64 n | None \<Rightarrow> [])))))"

definition binance_submit :: "('w, 'n) world_ops \<Rightarrow> economic_order_intent \<Rightarrow> ('w, submit_outcome) adapter_op" where
  "binance_submit ops intent =
     op_bind (rules_for (in_instrument intent)) (\<lambda>rules.
     op_bind (op_lift (map_err (\<lambda>e. CallFailed (MalformedResponse (unplaceable_text e)))
                (rules_check rules (in_qty intent) (reference_price intent)))) (\<lambda>_.
     op_bind (op_lift (map_err CallFailed (order_query rules intent))) (\<lambda>query.
     op_bind (signed_call ops ''POST'' ''/fapi/v1/order'' query) (submit_answer ops))))"

definition order_id_query :: "instrument \<Rightarrow> client_order_id \<Rightarrow> str" where
  "order_id_query symbol c = push (lit ''origClientOrderId'') (as_str c) (push (lit ''symbol'') (as_str symbol) [])"

definition query_answer :: "('w, 'n) world_ops \<Rightarrow> 'n json option \<Rightarrow> ('w, venue_order option) adapter_op" where
  "query_answer ops reply =
     (case reply of
        None \<Rightarrow> op_err (CallFailed (Transport (lit ''no answer from order query'')))
      | Some v \<Rightarrow>
          (case error_code (wo_json ops) v of
             Some (code, message) \<Rightarrow>
               if code = ORDER_DOES_NOT_EXIST then op_ok None
               else if code_is_retryable code
               then op_seq (resync_on_skew ops code) (op_err (CallFailed (Transport (coded '''' code message))))
               else op_err (CallFailed (MalformedResponse (coded '''' code message)))
           | None \<Rightarrow> op_bind (parsed (parse_venue_order (wo_json ops) v)) (\<lambda>order. op_ok (Some order))))"

definition query_order ::
  "('w, 'n) world_ops \<Rightarrow> client_order_id \<Rightarrow> instrument \<Rightarrow> ('w, venue_order option) adapter_op" where
  "query_order ops c symbol =
     op_bind (signed_call ops ''GET'' ''/fapi/v1/order'' (order_id_query symbol c)) (query_answer ops)"

fun find_loop ::
  "('w, 'n) world_ops \<Rightarrow> client_order_id \<Rightarrow> instrument list \<Rightarrow> venue_error option \<Rightarrow>
   ('w, (instrument \<times> venue_order) option) adapter_op"
where
  "find_loop ops c [] last_error =
     (case last_error of Some e \<Rightarrow> op_err (CallFailed e) | None \<Rightarrow> op_ok None)"
| "find_loop ops c (symbol # symbols) last_error =
     op_bind (attempt (query_order ops c symbol)) (\<lambda>r.
       case r of
         Inr (Some order) \<Rightarrow> op_ok (Some (symbol, order))
       | Inr None \<Rightarrow> find_loop ops c symbols last_error
       | Inl e \<Rightarrow> find_loop ops c symbols (Some e))"

definition find_order ::
  "('w, 'n) world_ops \<Rightarrow> client_order_id \<Rightarrow> ('w, (instrument \<times> venue_order) option) adapter_op" where
  "find_order ops c = op_read (\<lambda>a. find_loop ops c (symbols_all (ad_symbols a)) None)"

definition cancel_answer :: "('w, 'n) world_ops \<Rightarrow> 'n json option \<Rightarrow> ('w, cancel_outcome) adapter_op" where
  "cancel_answer ops reply =
     (case reply of
        None \<Rightarrow> op_ok CancelTimedOut
      | Some v \<Rightarrow>
          (case error_code (wo_json ops) v of
             None \<Rightarrow> op_ok CancelTaken
           | Some (code, message) \<Rightarrow>
               if code = UNKNOWN_ORDER then op_ok CancelTimedOut
               else if code_is_retryable code then op_err (CallFailed (Transport (coded '''' code message)))
               else op_err (CallFailed (MalformedResponse (coded ''cancel refused '' code message)))))"

definition binance_cancel :: "('w, 'n) world_ops \<Rightarrow> client_order_id \<Rightarrow> ('w, cancel_outcome) adapter_op" where
  "binance_cancel ops c =
     op_bind (find_order ops c) (\<lambda>found.
       case found of
         None \<Rightarrow> op_ok CancelAbsent
       | Some (symbol, _) \<Rightarrow>
           op_bind (signed_call ops ''DELETE'' ''/fapi/v1/order'' (order_id_query symbol c)) (cancel_answer ops))"

definition order_snapshot_of :: "venue_order \<Rightarrow> order_snapshot" where
  "order_snapshot_of order =
     \<lparr>sn_state = vo_state order,
      sn_venue_order_id = (case inline_new 32 (dec_i64 (vo_order_id order)) of Inl _ \<Rightarrow> None | Inr v \<Rightarrow> Some v),
      sn_filled_qty = vo_filled_qty order, sn_avg_price = vo_avg_price order\<rparr>"

definition binance_lookup :: "('w, 'n) world_ops \<Rightarrow> client_order_id \<Rightarrow> ('w, lookup_outcome) adapter_op" where
  "binance_lookup ops c =
     op_bind (attempt (find_order ops c)) (\<lambda>r.
       case r of
         Inr (Some (_, order)) \<Rightarrow> op_ok (Found (order_snapshot_of order))
       | Inr None \<Rightarrow> op_ok LookupAbsent
       | Inl e \<Rightarrow> if is_retryable e then op_ok LookupTimedOut else op_err (CallFailed e))"

definition answered_array :: "('w, 'n) world_ops \<Rightarrow> string \<Rightarrow> string \<Rightarrow> ('w, 'n json list) adapter_op" where
  "answered_array ops path what =
     op_bind (signed_call ops ''GET'' path []) (\<lambda>reply.
       case reply of
         None \<Rightarrow> op_err (CallFailed (Transport (lit ''no answer from '' @ lit what)))
       | Some v \<Rightarrow>
           (case error_code (wo_json ops) v of
              Some (code, message) \<Rightarrow> op_err (CallFailed (Transport (coded '''' code message)))
            | None \<Rightarrow> op_ok (case json_array v of Some rows \<Rightarrow> rows | None \<Rightarrow> [])))"

fun held_positions :: "'n json_lib \<Rightarrow> symbols \<Rightarrow> 'n json list \<Rightarrow> ('w, venue_position list) adapter_op" where
  "held_positions lib m [] = op_ok []"
| "held_positions lib m (row # rows) =
     (if quantity lib (json_field (lit ''positionAmt'') row) = Some 0 then held_positions lib m rows
      else op_bind (parsed (parse_venue_position lib row)) (\<lambda>p.
        if e8_is_zero (pw_qty p) \<or> hm_get m (pw_symbol p) = None then held_positions lib m rows
        else op_bind (held_positions lib m rows) (\<lambda>later.
          op_ok (\<lparr>vp_instrument = pw_symbol p, vp_qty = pw_qty p,
                  vp_entry_price = positive_price (Some (pw_entry_price p))\<rparr> # later))))"

definition binance_positions :: "('w, 'n) world_ops \<Rightarrow> ('w, venue_position list) adapter_op" where
  "binance_positions ops =
     op_bind (answered_array ops ''/fapi/v3/positionRisk'' ''positionRisk'') (\<lambda>rows. op_read (\<lambda>a.
     op_bind (held_positions (wo_json ops) (ad_symbols a) rows) (\<lambda>out. op_ok (sort_key vp_instrument out))))"

fun all_parsed :: "('x \<Rightarrow> (venue_error + 'a) option) \<Rightarrow> 'x list \<Rightarrow> ('w, 'a list) adapter_op" where
  "all_parsed f [] = op_ok []"
| "all_parsed f (x # xs) = op_bind (parsed (f x)) (\<lambda>y. op_bind (all_parsed f xs) (\<lambda>ys. op_ok (y # ys)))"

definition open_orders :: "('w, 'n) world_ops \<Rightarrow> ('w, venue_order list) adapter_op" where
  "open_orders ops =
     op_bind (answered_array ops ''/fapi/v1/openOrders'' ''openOrders'') (all_parsed (parse_venue_order (wo_json ops)))"

record open_position =
  op_instrument :: instrument
  op_qty :: qty
  op_entry_price :: price
  op_break_even_price :: price
  op_mark_price :: price
  op_liquidation_price :: "price option"
  op_notional :: money
  op_unrealized :: money

text \<open>A row that is flat or names nothing is passed over.\<close>

definition open_position_row :: "'n json_lib \<Rightarrow> 'n json \<Rightarrow> (venue_error + open_position option) option" where
  "open_position_row lib row =
     (case quantity lib (json_field (lit ''positionAmt'') row) of
        None \<Rightarrow> Some (Inr None)
      | Some q \<Rightarrow>
          if e8_is_zero q then Some (Inr None)
          else case row_symbol row of
            None \<Rightarrow> Some (Inr None)
          | Some i \<Rightarrow>
              map_option (\<lambda>ds.
                let d = (\<lambda>k. case ds ! k of Some x \<Rightarrow> x | None \<Rightarrow> e8_zero)
                in Inr (Some \<lparr>op_instrument = i, op_qty = q, op_entry_price = d 0, op_break_even_price = d 1,
                   op_mark_price = d 2, op_liquidation_price = positive_price (ds ! 3), op_notional = d 4,
                   op_unrealized = d 5\<rparr>))
                (those (map (\<lambda>name. derived_decimal lib (json_field (lit name) row))
                  [''entryPrice'', ''breakEvenPrice'', ''markPrice'', ''liquidationPrice'', ''notional'', ''unRealizedProfit''])))"

definition venue_open_positions :: "('w, 'n) world_ops \<Rightarrow> ('w, open_position list) adapter_op" where
  "venue_open_positions ops =
     op_bind (answered_array ops ''/fapi/v3/positionRisk'' ''positionRisk'') (\<lambda>rows.
     op_bind (all_parsed (open_position_row (wo_json ops)) rows) (\<lambda>found.
       op_ok (sort_key op_instrument (filter_map (\<lambda>x. x) found))))"

definition balance_row :: "'n json_lib \<Rightarrow> 'n json \<Rightarrow> (asset \<times> money) option" where
  "balance_row lib row =
     (case Option.bind (json_text (lit ''asset'') row) (\<lambda>s. case inline_new 8 s of Inl _ \<Rightarrow> None | Inr a \<Rightarrow> Some a) of
        None \<Rightarrow> None
      | Some asset \<Rightarrow>
          (case Option.bind (json_get (lit ''balance'') row) (amount lib) of
             None \<Rightarrow> None | Some m \<Rightarrow> if e8_is_zero m then None else Some (asset, m)))"

definition balances :: "('w, 'n) world_ops \<Rightarrow> ('w, (asset \<times> money) list) adapter_op" where
  "balances ops =
     op_bind (answered_array ops ''/fapi/v2/balance'' ''balance'') (\<lambda>rows.
       op_ok (sort_key fst (filter_map (balance_row (wo_json ops)) rows)))"

definition binance_drain_events :: "'w adapter \<Rightarrow> venue_event list \<times> 'w adapter" where
  "binance_drain_events a =
     (case ad_events a of None \<Rightarrow> ([], a) | Some events \<Rightarrow> (events, a\<lparr>ad_events := Some []\<rparr>))"

text \<open>The adapter as a venue of the trait.\<close>

definition binance_venue_ops :: "('w, 'n) world_ops \<Rightarrow> 'w adapter venue" where
  "binance_venue_ops ops =
     \<lparr>vn_submit = binance_submit ops, vn_cancel = (\<lambda>c _. binance_cancel ops c), vn_lookup = binance_lookup ops,
      vn_positions = binance_positions ops, vn_drain_events = binance_drain_events\<rparr>"

subsection \<open>Lemmas\<close>

lemma attempt_Inr: "attempt m a = (Inr r, a') \<longleftrightarrow> (case r of Inl e \<Rightarrow> m a = (Inl (CallFailed e), a') | Inr x \<Rightarrow> m a = (Inr x, a'))"
  by (auto simp: attempt_def split: prod.splits sum.splits call_failure.splits)

lemma query_answer_absent:
  "query_answer ops reply a = (Inr None, a') \<longleftrightarrow>
    (\<exists>v message. reply = Some v \<and> error_code (wo_json ops) v = Some (ORDER_DOES_NOT_EXIST, message) \<and> a' = a)"
  by (auto simp: query_answer_def op_bind_Inr op_seq_Inr split: option.splits)

text \<open>Each symbol was asked in turn, and each answered with the code that proves absence.\<close>

fun each_denied :: "('w, 'n) world_ops \<Rightarrow> client_order_id \<Rightarrow> instrument list \<Rightarrow> 'w adapter \<Rightarrow> 'w adapter \<Rightarrow> bool" where
  "each_denied ops c [] a a' \<longleftrightarrow> a' = a"
| "each_denied ops c (symbol # symbols) a a' \<longleftrightarrow>
     (\<exists>v message a1. signed_call ops ''GET'' ''/fapi/v1/order'' (order_id_query symbol c) a = (Inr (Some v), a1) \<and>
        error_code (wo_json ops) v = Some (ORDER_DOES_NOT_EXIST, message) \<and> each_denied ops c symbols a1 a')"

lemma find_loop_absent:
  "find_loop ops c symbols last_error a = (Inr None, a') \<Longrightarrow> last_error = None \<and> each_denied ops c symbols a a'"
proof (induction symbols arbitrary: last_error a)
  case Nil
  then show ?case by (cases last_error) auto
next
  case (Cons symbol symbols)
  then obtain r a1 where r: "attempt (query_order ops c symbol) a = (Inr r, a1)"
    and rest: "(case r of Inr (Some order) \<Rightarrow> op_ok (Some (symbol, order)) | Inr None \<Rightarrow> find_loop ops c symbols last_error
         | Inl e \<Rightarrow> find_loop ops c symbols (Some e)) a1 = (Inr None, a')"
    by (auto simp: op_bind_Inr)
  show ?case
  proof (cases r)
    case (Inl e)
    then show ?thesis using rest Cons.IH [of "Some e" a1] by simp
  next
    case (Inr found)
    then have "found = None" using rest by (cases found) auto
    then have "query_order ops c symbol a = (Inr None, a1)" using r Inr by (simp add: attempt_Inr)
    then show ?thesis
      using rest Inr \<open>found = None\<close> Cons.IH [of last_error a1]
      by (auto simp: query_order_def op_bind_Inr query_answer_absent)
  qed
qed

lemma find_order_absent:
  "find_order ops c a = (Inr None, a') \<Longrightarrow> each_denied ops c (symbols_all (ad_symbols a)) a a'"
  using find_loop_absent by (fastforce simp: find_order_def op_read_eq)

subsection \<open>Properties\<close>

text \<open>
  C13: absence has exactly one proof. Whatever the venue and the network do, the adapter reports an order as absent,
  to a lookup or to a cancellation, only when every symbol it trades was asked for the order in turn and each was
  answered with the code \<open>-2013\<close>; no silence, no other code and no unreadable answer is ever taken for absence.
\<close>

theorem absence_has_one_proof:
  assumes "binance_lookup ops c a = (Inr LookupAbsent, a') \<or> binance_cancel ops c a = (Inr CancelAbsent, a')"
  shows "each_denied ops c (symbols_all (ad_symbols a)) a a'"
proof -
  have "find_order ops c a = (Inr None, a')" if looked: "binance_lookup ops c a = (Inr LookupAbsent, a')"
  proof -
    obtain r a1 where r: "attempt (find_order ops c) a = (Inr r, a1)"
      "(case r of Inr (Some (_, order)) \<Rightarrow> op_ok (Found (order_snapshot_of order)) | Inr None \<Rightarrow> op_ok LookupAbsent
        | Inl e \<Rightarrow> if is_retryable e then op_ok LookupTimedOut else op_err (CallFailed e)) a1 = (Inr LookupAbsent, a')"
      using looked by (auto simp: binance_lookup_def op_bind_Inr)
    have "r = Inr None \<and> a1 = a'"
    proof (cases r)
      case (Inr x)
      then show ?thesis using r(2) by (cases x) auto
    qed (use r(2) in \<open>auto split: if_splits\<close>)
    then show ?thesis using r(1) by (simp add: attempt_Inr)
  qed
  moreover have "cancel_answer ops reply a1 \<noteq> (Inr CancelAbsent, a2)" for reply and a1 a2 :: "'a adapter"
    by (auto simp: cancel_answer_def split: option.splits)
  then have "find_order ops c a = (Inr None, a')" if "binance_cancel ops c a = (Inr CancelAbsent, a')"
    using that by (auto simp: binance_cancel_def op_bind_Inr split: option.splits) (metis option.exhaust surj_pair)
  ultimately show ?thesis using assms find_order_absent by blast
qed

text \<open>A world in which every call gets the same answer, numbers are integers and the clock stands still.\<close>

definition sample_world :: "http \<Rightarrow> i64 json \<Rightarrow> (unit, i64) world_ops" where
  "sample_world r v =
     \<lparr>wo_json = \<lparr>jl_from_str = (\<lambda>_. Inr v), jl_to_string = dec_i64, jl_as_i64 = Some, jl_as_u64 = Some\<rparr>,
      wo_http = (\<lambda>_ _ _ _ w. (r, w)), wo_local_ms = (\<lambda>w. (7, w)), wo_hmac = (\<lambda>_ _. [])\<rparr>"

definition sample_adapter :: "unit adapter" where
  "sample_adapter = (adapter_new (credentials_demo [] []) [] ())\<lparr>ad_symbols := [(sy_symbol sample_rules, sample_rules)]\<rparr>"

definition denied :: "i64 json" where
  "denied = JObject [(lit ''code'', JNumber (- 2013))]"

lemma sample_call:
  "signed_call (sample_world (Reply s) v) m path q sample_adapter = (Inr (Some v), sample_adapter)"
  "signed_call (sample_world NoAnswer v) m path q sample_adapter = (Inr None, sample_adapter)"
  by (simp_all add: signed_call_def local_ms_def send_request_def http_run_def read_json_def sample_world_def
      op_bind_def op_read_def op_ok_def Let_def sample_adapter_def adapter_new_def)

lemma denied_code: "error_code (wo_json (sample_world r v)) denied = Some (ORDER_DOES_NOT_EXIST, [])"
  by (simp add: error_code_def denied_def json_i64_def json_text_def sample_world_def ORDER_DOES_NOT_EXIST_def Let_def lit_def)

lemma sample_all: "symbols_all (ad_symbols sample_adapter) = [sy_symbol sample_rules]"
  by (simp add: symbols_all_def sample_adapter_def hm_sorted_def)

theorem absence_has_one_proof_witness:
  "binance_lookup (sample_world (Reply []) denied) (in_client_order_id sample_intent) sample_adapter = (Inr LookupAbsent, sample_adapter) \<and>
   each_denied (sample_world (Reply []) denied) (in_client_order_id sample_intent) [sy_symbol sample_rules] sample_adapter sample_adapter"
proof -
  have "query_order (sample_world (Reply []) denied) (in_client_order_id sample_intent) symbol sample_adapter = (Inr None, sample_adapter)" for symbol
    by (simp add: query_order_def op_bind_def sample_call query_answer_def denied_code op_ok_def)
  then have "binance_lookup (sample_world (Reply []) denied) (in_client_order_id sample_intent) sample_adapter = (Inr LookupAbsent, sample_adapter)"
    by (simp add: binance_lookup_def find_order_def sample_all op_bind_def op_read_def attempt_def op_ok_def)
  then show ?thesis
    using absence_has_one_proof [of "sample_world (Reply []) denied" "in_client_order_id sample_intent" sample_adapter sample_adapter] sample_all by simp
qed



end
