(* ===== verification/Userstream.thy ===== *)
theory Userstream
  imports Binance "HOL-Library.Sublist"
begin

text \<open>
  The user stream of the exchange adapter (\<open>sentinel-binance/src/stream.rs\<close>): the decoding of its frames, one
  connection, and the loop that reconnects. A connection is the sequence of its turns: what the stop flag was,
  whether the listen key was due for renewal, what the socket delivered, and whether the receiver of the events was
  still there. The thread's calls go through the same transport as the adapter's. \<open>str::to_lowercase\<close> is a parameter.

  Shown here: what reaches the adapter is, connection by connection, an initial run of the events of the frames
  received, in order; the pauses between connections double up to the cap; and the loop ends only when it was asked
  to stop or nobody is left to receive.
\<close>

subsection \<open>Frames\<close>

definition order_update_events :: "'n json_lib \<Rightarrow> client_order_id \<Rightarrow> 'n json \<Rightarrow> venue_event list" where
  "order_update_events lib c order =
     (let x = json_text (lit ''x'') order in
      if x = Some (lit ''TRADE'') then
        (case Option.bind (Option.bind (json_get (lit ''t'') order) (integer lib))
                (\<lambda>n. case inline_new 40 (dec_i64 n) of Inl _ \<Rightarrow> None | Inr e \<Rightarrow> Some e) of
           None \<Rightarrow> []
         | Some exec_id \<Rightarrow>
             (case (Option.bind (json_get (lit ''l'') order) (quantity lib), Option.bind (json_get (lit ''L'') order) (decimal lib)) of
                (Some q, Some p) \<Rightarrow> [VFill c exec_id q p] | _ \<Rightarrow> []))
      else if x = Some (lit ''CANCELED'') \<or> x = Some (lit ''EXPIRED'') then [VCancelConfirmed c]
      else [])"

definition decode_order_update :: "'n json_lib \<Rightarrow> 'n json \<Rightarrow> venue_event list" where
  "decode_order_update lib frame =
     (case json_get (lit ''o'') frame of
        None \<Rightarrow> []
      | Some order \<Rightarrow>
          (case Option.bind (json_text (lit ''c'') order) (\<lambda>s. case inline_new 36 s of Inl _ \<Rightarrow> None | Inr c \<Rightarrow> Some c) of
             None \<Rightarrow> [] | Some c \<Rightarrow> order_update_events lib c order))"

definition balance_event :: "'n json_lib \<Rightarrow> 'n json \<Rightarrow> venue_event option" where
  "balance_event lib entry =
     (case Option.bind (json_text (lit ''a'') entry) (\<lambda>s. case inline_new 8 s of Inl _ \<Rightarrow> None | Inr a \<Rightarrow> Some a) of
        None \<Rightarrow> None
      | Some asset \<Rightarrow>
          (case Option.bind (json_get (lit ''wb'') entry) (amount lib) of None \<Rightarrow> None | Some m \<Rightarrow> Some (VBalance asset m)))"

definition decode_account_update :: "'n json_lib \<Rightarrow> 'n json \<Rightarrow> venue_event list" where
  "decode_account_update lib frame =
     (case Option.bind (Option.bind (json_get (lit ''a'') frame) (json_get (lit ''B''))) json_array of
        None \<Rightarrow> [] | Some entries \<Rightarrow> filter_map (balance_event lib) entries)"

definition decode_mark :: "'n json_lib \<Rightarrow> 'n json \<Rightarrow> venue_event option" where
  "decode_mark lib frame =
     (case Option.bind (json_text (lit ''s'') frame) (\<lambda>s. case inline_new 16 s of Inl _ \<Rightarrow> None | Inr i \<Rightarrow> Some i) of
        None \<Rightarrow> None
      | Some i \<Rightarrow>
          (case Option.bind (json_get (lit ''p'') frame) (decimal lib) of None \<Rightarrow> None | Some p \<Rightarrow> Some (VMark i p)))"

definition decode_frame :: "'n json_lib \<Rightarrow> 'n json \<Rightarrow> venue_event list" where
  "decode_frame lib frame =
     (let e = json_text (lit ''e'') frame in
      if e = Some (lit ''ORDER_TRADE_UPDATE'') then decode_order_update lib frame
      else if e = Some (lit ''ACCOUNT_UPDATE'') then decode_account_update lib frame
      else if e = Some (lit ''markPriceUpdate'') then (case decode_mark lib frame of None \<Rightarrow> [] | Some ev \<Rightarrow> [ev])
      else [])"

subsection \<open>One connection\<close>

definition combined_stream_url :: "(str \<Rightarrow> str) \<Rightarrow> str \<Rightarrow> str \<Rightarrow> instrument list \<Rightarrow> str" where
  "combined_stream_url to_lowercase ws_base listen_key is =
     ws_base @ lit ''/stream?streams='' @ listen_key @
     concat (map (\<lambda>i. lit ''/'' @ to_lowercase (as_str i) @ lit ''@markPrice@1s'') is)"

datatype message = MText str | MPing | MClose | MOther | MReadFailed str | MPongFailed str

text \<open>The events of one message, or why the connection ends with it. A text that is no JSON is passed over.\<close>

definition message_events :: "'n json_lib \<Rightarrow> message \<Rightarrow> venue_error + venue_event list" where
  "message_events lib m =
     (case m of
        MReadFailed e \<Rightarrow> Inl (Transport (lit ''read: '' @ e))
      | MPongFailed e \<Rightarrow> Inl (Transport (lit ''pong: '' @ e))
      | MClose \<Rightarrow> Inl (Transport (lit ''venue closed the stream''))
      | MPing \<Rightarrow> Inr []
      | MOther \<Rightarrow> Inr []
      | MText s \<Rightarrow>
          (case jl_from_str lib s of
             Inl _ \<Rightarrow> Inr []
           | Inr frame \<Rightarrow>
               let payload = (case json_get (lit ''data'') frame of Some p \<Rightarrow> p | None \<Rightarrow> frame) in
               if json_text (lit ''e'') payload = Some (lit ''listenKeyExpired'')
               then Inl (Transport (lit ''listen key expired''))
               else Inr (decode_frame lib payload)))"

text \<open>\<open>tn_receiver\<close>: the receiver is there, or goes away after that many more events.\<close>

record socket_turn =
  tn_running :: bool
  tn_keepalive :: bool
  tn_message :: message
  tn_receiver :: "nat option"

datatype stream_end = SocketOpen | StreamDone | Ended venue_error

definition send_events :: "nat option \<Rightarrow> venue_event list \<Rightarrow> venue_event list \<times> bool" where
  "send_events receiver events =
     (case receiver of
        None \<Rightarrow> (events, True)
      | Some n \<Rightarrow> if n < length events then (take n events, False) else (events, True))"

fun read_turns :: "('w, 'n) world_ops \<Rightarrow> socket_turn list \<Rightarrow> ('w, venue_event list \<times> stream_end) adapter_op" where
  "read_turns ops [] = op_ok ([], SocketOpen)"
| "read_turns ops (turn # turns) =
     (if \<not> tn_running turn then op_ok ([], StreamDone)
      else op_bind (if tn_keepalive turn then attempt (listen_keepalive ops) else op_ok (Inr ())) (\<lambda>kept.
        case kept of
          Inl e \<Rightarrow> op_ok ([], Ended e)
        | Inr _ \<Rightarrow>
            (case message_events (wo_json ops) (tn_message turn) of
               Inl e \<Rightarrow> op_ok ([], Ended e)
             | Inr events \<Rightarrow>
                 let (sent, there) = send_events (tn_receiver turn) events in
                 if \<not> there then op_ok (sent, StreamDone)
                 else op_bind (read_turns ops turns) (\<lambda>(later, fin). op_ok (sent @ later, fin)))))"

text \<open>\<open>connected url\<close>: why the socket could not be opened there, if it could not.\<close>

definition read_once ::
  "('w, 'n) world_ops \<Rightarrow> (str \<Rightarrow> str) \<Rightarrow> (str \<Rightarrow> str option) \<Rightarrow> socket_turn list \<Rightarrow>
   ('w, venue_event list \<times> stream_end) adapter_op"
where
  "read_once ops to_lowercase connected turns =
     op_bind (attempt (listen_key_open ops)) (\<lambda>opened.
       case opened of
         Inl e \<Rightarrow> op_ok ([], Ended e)
       | Inr listen_key \<Rightarrow> op_read (\<lambda>a.
           case connected (combined_stream_url to_lowercase (cd_ws_base (ad_credentials a)) listen_key (ad_instruments a)) of
             Some e \<Rightarrow> op_ok ([], Ended (Transport (lit ''connect: '' @ e)))
           | None \<Rightarrow> read_turns ops turns))"

subsection \<open>Reconnecting\<close>

text \<open>In milliseconds.\<close>

definition RECONNECT_BACKOFF :: nat where
  "RECONNECT_BACKOFF = 500"

definition RECONNECT_BACKOFF_CAP :: nat where
  "RECONNECT_BACKOFF_CAP = 30000"

definition reconnect_backoff :: "nat \<Rightarrow> nat" where
  "reconnect_backoff backoff = min (backoff * 2) RECONNECT_BACKOFF_CAP"

record connection =
  cn_running :: bool
  cn_connected :: "str \<Rightarrow> str option"
  cn_turns :: "socket_turn list"

text \<open>The events sent, the pauses slept, and whether the loop has ended (or the connections given have run out).\<close>

fun run_from ::
  "('w, 'n) world_ops \<Rightarrow> (str \<Rightarrow> str) \<Rightarrow> nat \<Rightarrow> connection list \<Rightarrow>
   ('w, venue_event list \<times> nat list \<times> bool) adapter_op"
where
  "run_from ops to_lowercase backoff [] = op_ok ([], [], False)"
| "run_from ops to_lowercase backoff (c # cs) =
     (if \<not> cn_running c then op_ok ([], [], True)
      else op_bind (read_once ops to_lowercase (cn_connected c) (cn_turns c)) (\<lambda>(events, fin).
        case fin of
          StreamDone \<Rightarrow> op_ok (events, [], True)
        | SocketOpen \<Rightarrow> op_ok (events, [], False)
        | Ended _ \<Rightarrow>
            op_bind (run_from ops to_lowercase (reconnect_backoff backoff) cs) (\<lambda>(later, pauses, done').
              op_ok (events @ later, backoff # pauses, done'))))"

definition stream_run ::
  "('w, 'n) world_ops \<Rightarrow> (str \<Rightarrow> str) \<Rightarrow> connection list \<Rightarrow> ('w, venue_event list \<times> nat list \<times> bool) adapter_op" where
  "stream_run ops to_lowercase = run_from ops to_lowercase RECONNECT_BACKOFF"

text \<open>Starting the thread; what it sends from then on waits in the adapter's channel.\<close>

definition start_stream :: "str option \<Rightarrow> ('w, unit) adapter_op" where
  "start_stream thread_error =
     (case thread_error of
        Some e \<Rightarrow> op_err (CallFailed (Transport (lit ''stream thread: '' @ e)))
      | None \<Rightarrow> op_modify (\<lambda>a. a\<lparr>ad_events := Some []\<rparr>))"

subsection \<open>Lemmas\<close>

text \<open>All the events of a connection's messages, up to the one that ends it.\<close>

fun frame_events :: "'n json_lib \<Rightarrow> socket_turn list \<Rightarrow> venue_event list" where
  "frame_events lib [] = []"
| "frame_events lib (turn # turns) =
     (case message_events lib (tn_message turn) of Inl _ \<Rightarrow> [] | Inr events \<Rightarrow> events @ frame_events lib turns)"

definition may_end :: "connection \<Rightarrow> bool" where
  "may_end c \<longleftrightarrow> \<not> cn_running c \<or> list_ex (\<lambda>turn. \<not> tn_running turn \<or> tn_receiver turn \<noteq> None) (cn_turns c)"

lemma send_events_prefix: "send_events r events = (sent, there) \<Longrightarrow> prefix sent events \<and> (there \<longrightarrow> sent = events) \<and> (\<not> there \<longrightarrow> r \<noteq> None)"
  by (auto simp: send_events_def take_is_prefix split: option.splits if_splits)

lemma read_turns_events:
  "read_turns ops turns a = (Inr (events, fin), a') \<Longrightarrow>
   prefix events (frame_events (wo_json ops) turns) \<and>
   (fin = StreamDone \<longrightarrow> list_ex (\<lambda>turn. \<not> tn_running turn \<or> tn_receiver turn \<noteq> None) turns)"
proof (induction turns arbitrary: a events)
  case (Cons turn turns)
  show ?case
  proof (cases "tn_running turn")
    case False
    then show ?thesis using Cons.prems by auto
  next
    case True
    then obtain kept :: "venue_error + unit" and a1 where kept: "(case kept of Inl e \<Rightarrow> op_ok ([], Ended e)
        | Inr _ \<Rightarrow> (case message_events (wo_json ops) (tn_message turn) of
             Inl e \<Rightarrow> op_ok ([], Ended e)
           | Inr events \<Rightarrow>
               let (sent, there) = send_events (tn_receiver turn) events in
               if \<not> there then op_ok (sent, StreamDone)
               else op_bind (read_turns ops turns) (\<lambda>(later, fin). op_ok (sent @ later, fin)))) a1 = (Inr (events, fin), a')"
      using Cons.prems by (simp add: op_bind_Inr) blast
    show ?thesis
    proof (cases "message_events (wo_json ops) (tn_message turn)")
      case (Inl e)
      then show ?thesis using kept by (cases kept) auto
    next
      case (Inr es)
      obtain sent there where se: "send_events (tn_receiver turn) es = (sent, there)" by fastforce
      note sp = send_events_prefix [OF se]
      show ?thesis
        using kept Inr se sp Cons.IH by (cases kept; cases there) (auto simp: op_bind_Inr prefix_append)
    qed
  qed
qed simp

text \<open>A loop that has ended was asked to, or lost its receiver; its pauses start at the backoff given and double.\<close>

lemma read_once_turns:
  assumes "read_once ops to_lowercase connected turns a = (Inr (events, fin), a')"
  shows "(\<exists>u. read_turns ops turns u = (Inr (events, fin), a')) \<or> (events = [] \<and> (\<exists>e. fin = Ended e))"
proof -
  obtain opened u where "(case opened of
         Inl e \<Rightarrow> op_ok ([], Ended e)
       | Inr listen_key \<Rightarrow> op_read (\<lambda>a.
           case connected (combined_stream_url to_lowercase (cd_ws_base (ad_credentials a)) listen_key (ad_instruments a)) of
             Some e \<Rightarrow> op_ok ([], Ended (Transport (lit ''connect: '' @ e)))
           | None \<Rightarrow> read_turns ops turns)) u = (Inr (events, fin), a')"
    using assms by (simp add: read_once_def op_bind_Inr) blast
  then show ?thesis by (cases opened) (auto simp: op_read_def split: option.splits)
qed

lemma read_once_events:
  assumes "read_once ops to_lowercase connected turns a = (Inr (events, fin), a')"
  shows "prefix events (frame_events (wo_json ops) turns)"
    and "fin = StreamDone \<Longrightarrow> list_ex (\<lambda>turn. \<not> tn_running turn \<or> tn_receiver turn \<noteq> None) turns"
  using read_once_turns [OF assms] by (auto dest: read_turns_events)

fun delivers :: "'n json_lib \<Rightarrow> connection list \<Rightarrow> venue_event list \<Rightarrow> bool" where
  "delivers lib [] events \<longleftrightarrow> events = []"
| "delivers lib (c # cs) events \<longleftrightarrow>
     (\<exists>n \<le> length events. prefix (take n events) (frame_events lib (cn_turns c)) \<and> delivers lib cs (drop n events))"

lemma delivers_Nil: "delivers lib cs []"
  by (induction cs) auto

lemma delivers_append:
  "prefix events (frame_events lib (cn_turns c)) \<Longrightarrow> delivers lib cs later \<Longrightarrow> delivers lib (c # cs) (events @ later)"
  by (auto intro!: exI [of _ "length events"])

lemma run_from_events:
  "run_from ops to_lowercase backoff cs a = (Inr (events, pauses, ended), a') \<Longrightarrow>
   delivers (wo_json ops) cs events \<and> (ended \<longrightarrow> list_ex may_end cs) \<and>
   (\<forall>k < length pauses. pauses ! k = (reconnect_backoff ^^ k) backoff)"
proof (induction cs arbitrary: backoff a events pauses)
  case (Cons c cs)
  show ?case
  proof (cases "cn_running c")
    case False
    then show ?thesis using Cons.prems delivers_Nil [of _ "c # cs"] by (auto simp: may_end_def)
  next
    case True
    then obtain es fin a1 where
      once: "read_once ops to_lowercase (cn_connected c) (cn_turns c) a = (Inr (es, fin), a1)"
      and rest: "(case fin of StreamDone \<Rightarrow> op_ok (es, [], True) | SocketOpen \<Rightarrow> op_ok (es, [], False)
        | Ended _ \<Rightarrow> op_bind (run_from ops to_lowercase (reconnect_backoff backoff) cs)
            (\<lambda>(later, pauses, done'). op_ok (es @ later, backoff # pauses, done'))) a1 = (Inr (events, pauses, ended), a')"
      using Cons.prems by (simp add: op_bind_Inr) blast
    note facts = read_once_events [OF once]
    show ?thesis
    proof (cases fin)
      case (Ended e)
      with rest obtain later ps where
        "run_from ops to_lowercase (reconnect_backoff backoff) cs a1 = (Inr (later, ps, ended), a')"
        and shape: "events = es @ later" "pauses = backoff # ps"
        by (auto simp: op_bind_Inr)
      from Cons.IH [OF this(1)] show ?thesis
        using facts(1) shape
        by (auto simp: delivers_append less_Suc_eq_0_disj simp del: delivers.simps funpow.simps
              simp flip: funpow_Suc_right simp: funpow_swap1 funpow.simps(2))
    qed (use rest facts delivers_append [OF facts(1) delivers_Nil] in \<open>auto simp: may_end_def\<close>)
  qed
qed simp

lemma backoff_closed_form: "(reconnect_backoff ^^ k) RECONNECT_BACKOFF = min (500 * 2 ^ k) 30000"
proof (induction k)
  case (Suc k)
  then show ?case by (auto simp: reconnect_backoff_def RECONNECT_BACKOFF_CAP_def min_def)
qed (simp add: RECONNECT_BACKOFF_def)

text \<open>A socket on which nothing interferes: not stopped, no renewal due, the receiver there throughout.\<close>

definition undisturbed :: "socket_turn list \<Rightarrow> bool" where
  "undisturbed = list_all (\<lambda>turn. tn_running turn \<and> \<not> tn_keepalive turn \<and> tn_receiver turn = None)"

lemma read_turns_undisturbed:
  "undisturbed turns \<Longrightarrow> \<exists>fin. read_turns ops turns a = (Inr (frame_events (wo_json ops) turns, fin), a) \<and> fin \<noteq> StreamDone"
  by (induction turns) (auto simp: undisturbed_def send_events_def op_bind_def op_ok_def split: sum.splits)


definition sample_frame :: "i64 json" where
  "sample_frame = JObject [(lit ''listenKey'', JString (lit ''k'')), (lit ''e'', JString (lit ''ORDER_TRADE_UPDATE'')),
     (lit ''o'', JObject [(lit ''c'', JString (lit ''c'')), (lit ''x'', JString (lit ''CANCELED''))])]"

definition sample_turns :: "socket_turn list" where
  "sample_turns = map (\<lambda>m. \<lparr>tn_running = True, tn_keepalive = False, tn_message = m, tn_receiver = None\<rparr>) [MText [], MPing, MText [], MClose]"

definition sample_connections :: "connection list" where
  "sample_connections =
     [\<lparr>cn_running = True, cn_connected = (\<lambda>_. None), cn_turns = sample_turns\<rparr>,
      \<lparr>cn_running = False, cn_connected = (\<lambda>_. None), cn_turns = []\<rparr>]"

definition sample_id :: client_order_id where
  "sample_id = (case inline_new 36 (lit ''c'') of Inr c \<Rightarrow> c)"

lemma sample_id: "inline_new 36 (lit ''c'') = Inr sample_id"
  by (simp add: sample_id_def inline_new_def lit_def Let_def)

lemma sample_frame_texts:
  "json_text (lit ''listenKey'') sample_frame = Some (lit ''k'')" "json_text (lit ''e'') sample_frame = Some (lit ''ORDER_TRADE_UPDATE'')"
  "json_get (lit ''data'') sample_frame = None" "lit ''ORDER_TRADE_UPDATE'' \<noteq> lit ''listenKeyExpired''"
  "decode_frame (wo_json (sample_world (Reply []) sample_frame)) sample_frame = [VCancelConfirmed sample_id]"
  by code_simp+

lemma sample_messages:
  "message_events (wo_json (sample_world (Reply []) sample_frame)) (MText []) = Inr [VCancelConfirmed sample_id]"
  "message_events lib MPing = Inr []"
  "message_events lib MClose = Inl (Transport (lit ''venue closed the stream''))"
  using sample_frame_texts
  by (simp_all add: message_events_def) (simp add: sample_world_def)


end
