(* ===== verification/Config.thy ===== *)
theory Config
  imports Strings Engine
begin

text \<open>
  The configuration of the process (\<open>sentineld/src/config.rs\<close>) and the engine configuration made from it
  (\<open>engine_config\<close> of \<open>sentineld/src/runtime.rs\<close>). The environment is a function from names to what
  \<open>std::env::var\<close> returns; a duration is its number of nanoseconds. An unusable variable carries the check that
  refused it, where the code holds its rendered text.

  Shown here: a configuration can lose real money only when the environment names a venue and says
  \<open>production\<close> in as many words; a configuration that is accepted names at least one instrument; and what is
  printed at boot does not depend on the keys.
\<close>

type_synonym environment = "str \<Rightarrow> str option"

datatype venue_config = Simulator | Binance str str bool "u32 option"

record process_config =
  pc_journal_dir :: str
  pc_instruments :: "instrument list"
  pc_venue :: venue_config
  pc_max_position :: "qty option"
  pc_tick_interval :: nat
  pc_sweep_interval :: nat
  pc_stale_after :: nat
  pc_tick_write_after :: nat

datatype invalid_cause = BadSymbol str too_long | BadLeverage str | BadQuantity parse_error | NotSeconds

datatype config_error = ConfigMissing string | ConfigInvalid string invalid_cause

definition millis :: "nat \<Rightarrow> nat" where
  "millis n = n * 1000000"

definition seconds :: "nat \<Rightarrow> nat" where
  "seconds n = n * 1000000000"

definition env_or :: "environment \<Rightarrow> string \<Rightarrow> string \<Rightarrow> str option" where
  "env_or env name alternative =
     (case env (lit name) of Some s \<Rightarrow> Some s | None \<Rightarrow> env (lit alternative))"

definition parse_leverage :: "environment \<Rightarrow> config_error + u32 option" where
  "parse_leverage env =
     (case env (lit ''SENTINEL_LEVERAGE'') of
        None \<Rightarrow> Inr None
      | Some s \<Rightarrow>
          (case parse_u32 s of
             Some v \<Rightarrow> if 1 \<le> v \<and> v \<le> 125 then Inr (Some v)
                       else Inl (ConfigInvalid ''SENTINEL_LEVERAGE'' (BadLeverage s))
           | None \<Rightarrow> Inl (ConfigInvalid ''SENTINEL_LEVERAGE'' (BadLeverage s))))"

fun parse_instruments :: "str list \<Rightarrow> config_error + instrument list" where
  "parse_instruments [] = Inr []"
| "parse_instruments (symbol # symbols) =
     res_bind (map_err (\<lambda>e. ConfigInvalid ''SENTINEL_INSTRUMENTS'' (BadSymbol symbol e)) (inline_new 16 symbol))
       (\<lambda>i. res_bind (parse_instruments symbols) (\<lambda>is. Inr (i # is)))"

definition symbol_list :: "environment \<Rightarrow> str list" where
  "symbol_list env =
     filter (\<lambda>s. s \<noteq> []) (map trim (split_char 44
       (case env_or env ''SENTINEL_INSTRUMENTS'' ''SENTINEL_SYMBOLS'' of Some s \<Rightarrow> s | None \<Rightarrow> lit ''BTCUSDT'')))"

definition env_venue :: "environment \<Rightarrow> config_error + venue_config" where
  "env_venue env =
     (if env (lit ''SENTINEL_VENUE'') = Some (lit ''binance'') \<or> env (lit ''SENTINEL_VENUE'') = Some (lit ''futures'')
      then
        res_bind (ok_or (ConfigMissing ''BINANCE_FUTURES_KEY'') (env_or env ''BINANCE_FUTURES_KEY'' ''BINANCE_API_KEY'')) (\<lambda>key.
        res_bind (ok_or (ConfigMissing ''BINANCE_FUTURES_SECRET'') (env_or env ''BINANCE_FUTURES_SECRET'' ''BINANCE_API_SECRET'')) (\<lambda>secret.
        res_bind (parse_leverage env) (\<lambda>leverage.
          Inr (Binance key secret (env (lit ''SENTINEL_BINANCE_ENV'') \<noteq> Some (lit ''production'')) leverage))))
      else Inr Simulator)"

definition from_env :: "environment \<Rightarrow> config_error + process_config" where
  "from_env env =
     (let journal_dir = (case env (lit ''SENTINEL_JOURNAL'') of Some s \<Rightarrow> s | None \<Rightarrow> lit ''/data/journal'') in
      res_bind (parse_instruments (symbol_list env)) (\<lambda>instruments.
      if instruments = [] then Inl (ConfigMissing ''SENTINEL_INSTRUMENTS'')
      else
      res_bind (env_venue env) (\<lambda>venue.
      res_bind (case env (lit ''SENTINEL_MAX_POSITION'') of
                  None \<Rightarrow> Inr None
                | Some s \<Rightarrow> map_err (\<lambda>e. ConfigInvalid ''SENTINEL_MAX_POSITION'' (BadQuantity e))
                    (res_bind (parse_e8 s) (\<lambda>q. Inr (Some q)))) (\<lambda>max_position.
      res_bind (case env (lit ''SENTINEL_TICK_WRITE_AFTER'') of
                  None \<Rightarrow> Inr (seconds 5)
                | Some s \<Rightarrow> (case parse_u64 s of
                    Some n \<Rightarrow> Inr (seconds (unat n))
                  | None \<Rightarrow> Inl (ConfigInvalid ''SENTINEL_TICK_WRITE_AFTER'' NotSeconds))) (\<lambda>tick_write_after.
        Inr \<lparr>pc_journal_dir = journal_dir, pc_instruments = instruments, pc_venue = venue,
             pc_max_position = max_position, pc_tick_interval = millis 250, pc_sweep_interval = seconds 30,
             pc_stale_after = seconds 120, pc_tick_write_after = tick_write_after\<rparr>)))))"

definition is_live_money :: "process_config \<Rightarrow> bool" where
  "is_live_money c = (case pc_venue c of Binance _ _ demo _ \<Rightarrow> \<not> demo | Simulator \<Rightarrow> False)"

definition config_describe :: "process_config \<Rightarrow> str" where
  "config_describe c =
     (case pc_venue c of Simulator \<Rightarrow> lit ''simulator''
      | Binance _ _ demo _ \<Rightarrow> if demo then lit ''binance futures demo'' else lit ''binance futures PRODUCTION'') @
     lit '', '' @ join (lit '','') (map as_str (pc_instruments c)) @ lit '', journal '' @ pc_journal_dir c"

text \<open>\<open>u64::try_from(d.as_nanos()).unwrap_or(u64::MAX)\<close>.\<close>

definition nanos_u64 :: "nat \<Rightarrow> u64" where
  "nanos_u64 d = (if d < 2 ^ 64 then of_nat d else - 1)"

definition engine_config :: "process_config \<Rightarrow> config" where
  "engine_config c =
     config_default\<lparr>cf_limits := \<lparr>lm_max_position = pc_max_position c, lm_position_confirmed = False\<rparr>,
       cf_stale_after_nanos := nanos_u64 (pc_stale_after c),
       cf_tick_write_after_nanos := nanos_u64 (pc_tick_write_after c)\<rparr>"

subsection \<open>Properties\<close>

lemma from_env_Inr:
  assumes "from_env env = Inr c"
  shows "env_venue env = Inr (pc_venue c)" "parse_instruments (symbol_list env) = Inr (pc_instruments c)"
    "pc_instruments c \<noteq> []" "pc_stale_after c = seconds 120"
  using assms by (auto simp: from_env_def Let_def split: if_splits)

lemma env_venue_live:
  "env_venue env = Inr v \<Longrightarrow> (\<exists>k s l. v = Binance k s False l) \<longleftrightarrow>
     env (lit ''SENTINEL_VENUE'') \<in> {Some (lit ''binance''), Some (lit ''futures'')} \<and>
     env (lit ''SENTINEL_BINANCE_ENV'') = Some (lit ''production'')"
  by (auto simp: env_venue_def split: if_splits)

text \<open>
  C31: real money is opted into twice, in as many words. A configuration read from the environment can place
  orders that lose money if and only if the environment names a venue and sets the venue's environment to the
  exact word \<open>production\<close>; and however it was read it names at least one instrument, the boot line shows neither
  key nor secret (it is the same for any other pair), and the engine starts with no confirmed position.
\<close>

theorem live_money_is_asked_for_twice:
  assumes "from_env env = Inr c"
  shows "(is_live_money c \<longleftrightarrow>
      env (lit ''SENTINEL_VENUE'') \<in> {Some (lit ''binance''), Some (lit ''futures'')} \<and>
      env (lit ''SENTINEL_BINANCE_ENV'') = Some (lit ''production'')) \<and>
    pc_instruments c \<noteq> [] \<and>
    (\<forall>k s d l k' s'. pc_venue c = Binance k s d l \<longrightarrow>
      config_describe (c\<lparr>pc_venue := Binance k' s' d l\<rparr>) = config_describe c) \<and>
    \<not> lm_position_confirmed (cf_limits (engine_config c))"
proof -
  have "is_live_money c \<longleftrightarrow> (\<exists>k s l. pc_venue c = Binance k s False l)"
    by (auto simp: is_live_money_def split: venue_config.split)
  then show ?thesis
    using env_venue_live [OF from_env_Inr(1) [OF assms]] from_env_Inr(3) [OF assms]
    by (simp add: config_describe_def engine_config_def)
qed

definition sample_env :: environment where
  "sample_env = map_of [(lit ''SENTINEL_VENUE'', lit ''futures''), (lit ''BINANCE_API_KEY'', lit ''k''),
     (lit ''BINANCE_API_SECRET'', lit ''s''), (lit ''SENTINEL_BINANCE_ENV'', lit ''Production''),
     (lit ''SENTINEL_SYMBOLS'', lit '' BTCUSDT, ,ETHUSDT'')]"

theorem live_money_is_asked_for_twice_witness:
  "\<exists>c. from_env sample_env = Inr c \<and> \<not> is_live_money c \<and> map as_str (pc_instruments c) = [lit ''BTCUSDT'', lit ''ETHUSDT'']"
proof -
  let ?is = "[inline_or_default 16 (lit ''BTCUSDT''), inline_or_default 16 (lit ''ETHUSDT'')]"
  have ins: "parse_instruments (symbol_list sample_env) = Inr ?is" by code_simp
  moreover have "env_venue sample_env = Inr (Binance (lit ''k'') (lit ''s'') True None)" by code_simp
  moreover have "sample_env (lit ''SENTINEL_MAX_POSITION'') = None" "sample_env (lit ''SENTINEL_TICK_WRITE_AFTER'') = None"
    by code_simp+
  ultimately obtain c where c: "from_env sample_env = Inr c" by (simp add: from_env_def Let_def)
  have "sample_env (lit ''SENTINEL_BINANCE_ENV'') \<noteq> Some (lit ''production'')" by code_simp
  then have "\<not> is_live_money c" using live_money_is_asked_for_twice [OF c] by blast
  moreover have "pc_instruments c = ?is" using from_env_Inr(2) [OF c] ins by simp
  moreover have "map as_str ?is = [lit ''BTCUSDT'', lit ''ETHUSDT'']" by code_simp
  ultimately show ?thesis using c by auto
qed

end
