(* ===== verification/Control.thy ===== *)
theory Control
  imports Json Engine
begin

text \<open>
  The control socket (\<open>sentineld/src/control.rs\<close>): one line, one JSON object, one command; and the lines of one
  connection, each of which gets an answer. A refusal is the value that says which check refused, where the
  code holds its rendered text.

  Shown here: every command a line yields is one the rest of the system can rely on, nothing a placement needs is
  ever defaulted, a protective exit has to be asked for by name; and a limit or stop price that is there but
  cannot be read is dropped, so the line places a market order.
\<close>

datatype malformed =
    NotJson str | MissingField str | BadSide str | BadText too_long | BadIntent intent_error | BadValue parse_error
  | UnknownOp str

definition required :: "str \<Rightarrow> 'n json \<Rightarrow> malformed + str" where
  "required name v = (case json_text name v of Some s \<Rightarrow> Inr s | None \<Rightarrow> Inl (MissingField name))"

definition ok_of :: "'e + 'a \<Rightarrow> 'a option" where
  "ok_of r = (case r of Inl _ \<Rightarrow> None | Inr x \<Rightarrow> Some x)"

definition line_side :: "str \<Rightarrow> malformed + side" where
  "line_side s =
     (if s = lit ''buy'' \<or> s = lit ''BUY'' then Inr Buy
      else if s = lit ''sell'' \<or> s = lit ''SELL'' then Inr Sell else Inl (BadSide s))"

definition line_authority :: "str option \<Rightarrow> authority" where
  "line_authority t =
     (if t = Some (lit ''exit'') \<or> t = Some (lit ''protective_exit'') then ProtectiveExit else Entry)"

definition line_price :: "str \<Rightarrow> 'n json \<Rightarrow> price option" where
  "line_price name v = Option.bind (json_text name v) (\<lambda>s. ok_of (parse_e8 s))"

definition line_note :: "string \<Rightarrow> 'n json \<Rightarrow> note_text" where
  "line_note fallback v =
     note_new (case json_text (lit ''note'') v of Some s \<Rightarrow> s | None \<Rightarrow> lit fallback)"

definition parse_place :: "'n json_lib \<Rightarrow> 'n json \<Rightarrow> malformed + command" where
  "parse_place lib v =
     res_bind (required (lit ''client_order_id'') v) (\<lambda>client_order_id.
     res_bind (required (lit ''instrument'') v) (\<lambda>instrument.
     res_bind (res_bind (required (lit ''side'') v) line_side) (\<lambda>side.
     res_bind (case Option.bind (json_text (lit ''qty'') v) (\<lambda>s. ok_of (parse_e8 s)) of
                 Some q \<Rightarrow> Inr q | None \<Rightarrow> Inl (MissingField (lit ''qty''))) (\<lambda>qty.
       let authority = line_authority (json_text (lit ''authority'') v);
           limit_price = line_price (lit ''limit_price'') v;
           stop_price = line_price (lit ''stop_price'') v;
           kind = (if is_some stop_price then StopMarket else if is_some limit_price then Limit else Market);
           trace_id = (case Option.bind (json_get (lit ''trace_id'') v) (json_u64 lib) of
                         None \<Rightarrow> 0 | Some n \<Rightarrow> ucast n)
       in res_bind (map_err BadText (inline_new 36 client_order_id)) (\<lambda>c.
          res_bind (map_err BadText (inline_new 16 instrument)) (\<lambda>i.
            map_err BadIntent
              (res_bind (intent_new c i side qty kind limit_price stop_price authority trace_id None)
                (\<lambda>intent. Inr (Place intent)))))))))"

definition parse_cancel :: "'n json \<Rightarrow> malformed + command" where
  "parse_cancel v =
     res_bind (required (lit ''client_order_id'') v) (\<lambda>client_order_id.
     res_bind (map_err BadText (inline_new 36 client_order_id)) (\<lambda>c. Inr (CancelOrder c 0)))"

definition parse_decide :: "'n json \<Rightarrow> malformed + command" where
  "parse_decide v =
     res_bind (required (lit ''instrument'') v) (\<lambda>instrument.
     res_bind (map_err BadText (inline_new 16 instrument)) (\<lambda>i.
     res_bind (case json_text (lit ''value'') v of
                 None \<Rightarrow> Inr e8_zero | Some s \<Rightarrow> map_err BadValue (parse_e8 s)) (\<lambda>val.
       Inr (Decide Strategy i StanceDeclared 0 val (line_note '''' v)))))"

definition control_parse :: "'n json_lib \<Rightarrow> str \<Rightarrow> malformed + command" where
  "control_parse lib line =
     res_bind (map_err NotJson (jl_from_str lib line)) (\<lambda>v.
     res_bind (required (lit ''op'') v) (\<lambda>verb.
       if verb = lit ''place'' then parse_place lib v
       else if verb = lit ''cancel'' then parse_cancel v
       else if verb = lit ''halt'' then Inr (Halt (line_note ''halted by operator'' v))
       else if verb = lit ''resume'' then Inr (Resume (line_note ''resumed by operator'' v))
       else if verb = lit ''decide'' then parse_decide v
       else Inl (UnknownOp verb)))"

text \<open>
  One connection, as the lines it delivers: what was read (\<open>None\<close> when reading failed, which ends it), whether
  the writer is still there to take a command, and whether the answer could be written. A blank line is passed
  over.
\<close>

record line_read =
  ln_text :: "str option"
  ln_writer :: bool
  ln_written :: bool

datatype answer = Taken | WriterStopped | Refused malformed

fun handle :: "'n json_lib \<Rightarrow> line_read list \<Rightarrow> answer list \<times> command list" where
  "handle lib [] = ([], [])"
| "handle lib (ln # lines) =
     (case ln_text ln of
        None \<Rightarrow> ([], [])
      | Some line \<Rightarrow>
          if trim line = [] then handle lib lines
          else
            let (answer, sent) =
                  (case control_parse lib line of
                     Inl e \<Rightarrow> (Refused e, [])
                   | Inr command \<Rightarrow> if ln_writer ln then (Taken, [command]) else (WriterStopped, []))
            in if \<not> ln_written ln then ([], sent)
               else let (answers, later) = handle lib lines in (answer # answers, sent @ later))"

subsection \<open>Lemmas\<close>

lemma required_Inr: "required name v = Inr s \<longleftrightarrow> json_text name v = Some s"
  by (simp add: required_def split: option.split)

lemma ok_of_Some: "ok_of r = Some x \<longleftrightarrow> r = Inr x"
  by (simp add: ok_of_def split: sum.split)

lemma qty_Inr:
  "(case Option.bind (json_text name v) (\<lambda>s. ok_of (parse_e8 s)) of Some q \<Rightarrow> Inr q | None \<Rightarrow> Inl e) = Inr q \<longleftrightarrow>
    (\<exists>s. json_text name v = Some s \<and> parse_e8 s = Inr q)"
  by (cases "json_text name v") (auto simp: ok_of_def split: option.splits sum.splits)

lemma parse_place_Inr:
  assumes "parse_place lib v = Inr command"
  obtains i c s q side where "command = Place i" "intent_wf i"
    "json_text (lit ''client_order_id'') v = Some c" "inline_new 36 c = Inr (in_client_order_id i)"
    "json_text (lit ''instrument'') v = Some s" "inline_new 16 s = Inr (in_instrument i)"
    "json_text (lit ''side'') v = Some side" "line_side side = Inr (in_side i)"
    "json_text (lit ''qty'') v = Some q" "parse_e8 q = Inr (in_qty i)"
    "in_authority i = line_authority (json_text (lit ''authority'') v)"
    "in_limit_price i = line_price (lit ''limit_price'') v" "in_stop_price i = line_price (lit ''stop_price'') v"
    "in_kind i = (if is_some (line_price (lit ''stop_price'') v) then StopMarket
        else if is_some (line_price (lit ''limit_price'') v) then Limit else Market)"
proof -
  from assms obtain c s side sd qt q cc ii i where p:
    "json_text (lit ''client_order_id'') v = Some c" "json_text (lit ''instrument'') v = Some s"
    "json_text (lit ''side'') v = Some side" "line_side side = Inr sd"
    "json_text (lit ''qty'') v = Some qt" "parse_e8 qt = Inr q" "inline_new 36 c = Inr cc" "inline_new 16 s = Inr ii"
    and new: "intent_new cc ii sd q
       (if is_some (line_price (lit ''stop_price'') v) then StopMarket
        else if is_some (line_price (lit ''limit_price'') v) then Limit else Market)
       (line_price (lit ''limit_price'') v) (line_price (lit ''stop_price'') v)
       (line_authority (json_text (lit ''authority'') v))
       (case Option.bind (json_get (lit ''trace_id'') v) (json_u64 lib) of None \<Rightarrow> 0 | Some n \<Rightarrow> ucast n) None = Inr i"
    and cmd: "command = Place i"
    unfolding parse_place_def Let_def res_bind_Inr map_err_simps required_Inr qty_Inr by blast
  note i = new [unfolded intent_new_Inr, THEN conjunct2]
  have f: "in_client_order_id i = cc" "in_instrument i = ii" "in_side i = sd" "in_qty i = q"
    "in_authority i = line_authority (json_text (lit ''authority'') v)"
    "in_limit_price i = line_price (lit ''limit_price'') v" "in_stop_price i = line_price (lit ''stop_price'') v"
    "in_kind i = (if is_some (line_price (lit ''stop_price'') v) then StopMarket
        else if is_some (line_price (lit ''limit_price'') v) then Limit else Market)"
    by (subst i, simp)+
  show thesis
    by (rule that [OF cmd conjunct1 [OF new [unfolded intent_new_Inr]] p(1) _ p(2) _ p(3) _ p(5) _ f(5-8)])
      (simp_all only: f(1-4) p)
qed

lemma control_parse_place:
  "control_parse lib line = Inr (Place i) \<longleftrightarrow>
    (\<exists>v. jl_from_str lib line = Inr v \<and> json_text (lit ''op'') v = Some (lit ''place'') \<and> parse_place lib v = Inr (Place i))"
proof -
  have "parse_cancel v \<noteq> Inr (Place i)" "parse_decide v \<noteq> Inr (Place i)" for v :: "'a json"
    by (auto simp: parse_cancel_def parse_decide_def)
  then have "(if verb = lit ''place'' then parse_place lib v else if verb = lit ''cancel'' then parse_cancel v
       else if verb = lit ''halt'' then Inr (Halt (line_note ''halted by operator'' v))
       else if verb = lit ''resume'' then Inr (Resume (line_note ''resumed by operator'' v))
       else if verb = lit ''decide'' then parse_decide v else Inl (UnknownOp verb)) = Inr (Place i) \<longleftrightarrow>
     verb = lit ''place'' \<and> parse_place lib v = Inr (Place i)" for verb and v :: "'a json"
    by simp
  note inner = this
  show ?thesis unfolding control_parse_def res_bind_Inr map_err_simps required_Inr inner by auto
qed

subsection \<open>Properties\<close>

text \<open>
  C29: nothing a placement needs is defaulted. A line that yields a placement is an object that names the client
  order id, the instrument, the side and the quantity as texts; the order carries exactly those, within the
  lengths of the types, with a positive quantity and positive prices; and it is a protective exit if and only if
  the line asked for one by name.
\<close>

theorem placement_is_never_defaulted:
  assumes "control_parse lib line = Inr (Place i)"
  shows "\<exists>v c s side q. jl_from_str lib line = Inr v \<and> intent_wf i \<and>
    json_text (lit ''client_order_id'') v = Some c \<and> inline_new 36 c = Inr (in_client_order_id i) \<and>
    json_text (lit ''instrument'') v = Some s \<and> inline_new 16 s = Inr (in_instrument i) \<and>
    json_text (lit ''side'') v = Some side \<and> line_side side = Inr (in_side i) \<and>
    json_text (lit ''qty'') v = Some q \<and> parse_e8 q = Inr (in_qty i) \<and>
    (in_authority i = ProtectiveExit \<longleftrightarrow>
      json_text (lit ''authority'') v \<in> {Some (lit ''exit''), Some (lit ''protective_exit'')})"
proof -
  obtain v where v: "jl_from_str lib line = Inr v" "parse_place lib v = Inr (Place i)"
    using assms by (auto simp: control_parse_place)
  from v(2) show ?thesis
    by (rule parse_place_Inr) (use v(1) in \<open>auto simp: line_authority_def\<close>)
qed

text \<open>A library in which the one line read is given, and numbers are integers.\<close>

definition sample_lib :: "(str \<times> string) list \<Rightarrow> u64 json_lib" where
  "sample_lib entries =
     \<lparr>jl_from_str = (\<lambda>_. Inr (JObject (map (\<lambda>(k, t). (k, JString (lit t))) entries))),
      jl_to_string = (\<lambda>n. dec (unat n)), jl_as_i64 = (\<lambda>n. if unat n < 2 ^ 63 then Some n else None),
      jl_as_u64 = Some\<rparr>"

definition sample_line :: "(str \<times> string) list" where
  "sample_line = [(lit ''op'', ''place''), (lit ''client_order_id'', ''UI-1''), (lit ''instrument'', ''BTCUSDT''),
     (lit ''side'', ''buy''), (lit ''qty'', ''0.5''), (lit ''limit_price'', ''109,5'')]"

definition sample_placement :: economic_order_intent where
  "sample_placement = \<lparr>in_client_order_id = inline_or_default 36 (lit ''UI-1''),
     in_instrument = inline_or_default 16 (lit ''BTCUSDT''), in_side = Buy, in_qty = 50000000, in_kind = Market,
     in_limit_price = None, in_stop_price = None, in_authority = Entry, in_trace_id = 0, in_quote_at_decision = None\<rparr>"

definition sample_object :: "u64 json" where
  "sample_object = JObject (map (\<lambda>(k, t). (k, JString (lit t))) sample_line)"

lemma line_texts:
  "json_text (lit ''op'') sample_object = Some (lit ''place'')"
  "json_text (lit ''client_order_id'') sample_object = Some (lit ''UI-1'')"
  "json_text (lit ''instrument'') sample_object = Some (lit ''BTCUSDT'')"
  "json_text (lit ''side'') sample_object = Some (lit ''buy'')"
  "json_text (lit ''qty'') sample_object = Some (lit ''0.5'')"
  "json_text (lit ''limit_price'') sample_object = Some (lit ''109,5'')"
  "json_text (lit ''authority'') sample_object = None"
  "json_get (lit ''stop_price'') sample_object = None" "json_get (lit ''trace_id'') sample_object = None"
  by code_simp+

lemma line_values:
  "parse_e8 (lit ''0.5'') = Inr 50000000" "parse_e8 (lit ''109,5'') = Inl Malformed"
  "inline_new 36 (lit ''UI-1'') = Inr (inline_or_default 36 (lit ''UI-1''))"
  "inline_new 16 (lit ''BTCUSDT'') = Inr (inline_or_default 16 (lit ''BTCUSDT''))"
  "inline_is_empty (inline_or_default 36 (lit ''UI-1'')) = False" "e8_is_positive 50000000" "line_side (lit ''buy'') = Inr Buy"
  by code_simp+

lemma sample_line_parses: "control_parse (sample_lib sample_line) [] = Inr (Place sample_placement)"
proof -
  have "line_price (lit ''limit_price'') sample_object = None" "line_price (lit ''stop_price'') sample_object = None"
    using line_texts(8) by (simp_all add: line_price_def line_texts line_values ok_of_def, simp add: json_text_def)
  then have "parse_place (sample_lib sample_line) sample_object = Inr (Place sample_placement)"
    by (simp add: parse_place_def required_def line_texts line_values ok_of_def line_authority_def Let_def
        intent_new_def needs_limit_price_def needs_stop_price_def sample_placement_def)
  then show ?thesis unfolding control_parse_place
    by (intro exI [of _ sample_object]) (simp add: line_texts sample_object_def [symmetric], simp add: sample_lib_def sample_object_def)
qed

theorem placement_is_never_defaulted_witness:
  "control_parse (sample_lib sample_line) [] = Inr (Place sample_placement) \<and> intent_wf sample_placement"
  using placement_is_never_defaulted [OF sample_line_parses] sample_line_parses by auto

text \<open>
  A price that cannot be read is not refused. A placement whose limit price is there but is no number the
  system accepts, and that names no stop price, becomes a market order without a limit.
\<close>

theorem unreadable_limit_becomes_market:
  assumes "control_parse lib line = Inr (Place i)" "jl_from_str lib line = Inr v"
    "json_text (lit ''limit_price'') v = Some s" "parse_e8 s = Inl e" "json_get (lit ''stop_price'') v = None"
  shows "in_kind i = Market \<and> in_limit_price i = None \<and> in_stop_price i = None"
proof -
  have "parse_place lib v = Inr (Place i)" using assms(1,2) by (auto simp: control_parse_place)
  moreover have "line_price (lit ''limit_price'') v = None" using assms(3,4) by (simp add: line_price_def ok_of_def)
  moreover have "line_price (lit ''stop_price'') v = None" using assms(5) by (simp add: line_price_def json_text_def)
  ultimately show ?thesis by (elim parse_place_Inr) simp
qed

theorem unreadable_limit_becomes_market_witness:
  "json_text (lit ''limit_price'') sample_object = Some (lit ''109,5'') \<and>
   control_parse (sample_lib sample_line) [] = Inr (Place sample_placement) \<and> in_kind sample_placement = Market"
  using unreadable_limit_becomes_market [OF sample_line_parses _ line_texts(6) line_values(2) line_texts(8)]
    sample_line_parses line_texts(6)
  by (simp add: sample_lib_def sample_object_def)

end
