(* ===== verification/Invariants.thy ===== *)
theory Invariants
  imports Book
begin

text \<open>
  The runnable invariants (\<open>sentinel-ledger/src/invariants.rs\<close>). The ordered maps and sets of the code
  are association lists sorted by key and sorted duplicate-free lists.

  Shown here: on a sound book the checks of positions, fills and bases report nothing, and what the
  exit and trace checks report is exactly what is wrong.
\<close>

datatype violation =
    PositionDisagreesWithFills instrument qty qty
  | OrderOverfilled client_order_id qty qty
  | ExitsExceedPosition instrument qty qty
  | UntracedOrder client_order_id
  | BasisWithoutPosition instrument money

record report =
  rp_violations :: "violation list"

definition report_holds :: "report \<Rightarrow> bool" where
  "report_holds r \<longleftrightarrow> rp_violations r = []"

definition signed_side :: "side \<Rightarrow> qty \<Rightarrow> qty" where
  "signed_side side qty = saturating_mul_i64 qty (side_sign side)"

text \<open>\<open>entry(k).or_insert(v)\<close>.\<close>

definition or_insert :: "'k \<Rightarrow> 'v \<Rightarrow> ('k, 'v) hashmap \<Rightarrow> ('k, 'v) hashmap" where
  "or_insert k v m = (if hm_contains m k then m else hm_insert k v m)"

definition add_fill :: "(instrument, qty) hashmap \<Rightarrow> fill \<Rightarrow> (instrument, qty) hashmap" where
  "add_fill sums fill =
     (let entry = (case hm_get sums (fl_instrument fill) of Some q \<Rightarrow> q | None \<Rightarrow> e8_zero)
      in hm_insert (fl_instrument fill)
           (unwrap_or entry (e8_checked_add entry (signed_side (fl_side fill) (fl_qty fill)))) sums)"

definition fill_sums :: "book \<Rightarrow> (instrument, qty) hashmap" where
  "fill_sums b =
     foldl add_fill (foldl (\<lambda>m (i, _). or_insert i e8_zero m) [] (all_positions b)) (all_fills b)"

definition check_positions_equal_fills :: "book \<Rightarrow> violation list" where
  "check_positions_equal_fills b =
     filter_map (\<lambda>(instrument, fills).
       let position = ps_qty (book_position b instrument)
       in if position \<noteq> fills then Some (PositionDisagreesWithFills instrument position fills) else None)
     (hm_sorted (fill_sums b))"

definition check_no_overfill :: "book \<Rightarrow> violation list" where
  "check_no_overfill b =
     filter_map (\<lambda>o'. let c = od_core o' in
       if sint (oc_filled_qty c) > sint (oc_qty c)
       then Some (OrderOverfilled (oc_client_order_id c) (oc_qty c) (oc_filled_qty c)) else None)
     (book_orders b)"

definition check_exits_bounded :: "book \<Rightarrow> violation list" where
  "check_exits_bounded b =
     (let instruments = sort (remdups (map (\<lambda>o'. oc_instrument (od_core o')) (filter is_exit (live_orders b))))
      in filter_map (\<lambda>instrument.
           let exits = committed_to_exits b instrument; position = book_position b instrument
           in if sint exits > sint (abs_qty position)
              then Some (ExitsExceedPosition instrument exits (ps_qty position)) else None) instruments)"

definition check_orders_are_traced :: "book \<Rightarrow> violation list" where
  "check_orders_are_traced b =
     filter_map (\<lambda>o'. if od_trace_id o' = 0 then Some (UntracedOrder (oc_client_order_id (od_core o'))) else None)
     (book_orders b)"

definition check_flat_means_flat :: "book \<Rightarrow> violation list" where
  "check_flat_means_flat b =
     filter_map (\<lambda>(instrument, position).
       if is_flat position \<and> \<not> e8_is_zero (ps_cost_basis position)
       then Some (BasisWithoutPosition instrument (ps_cost_basis position)) else None)
     (all_positions b)"

definition invariants_check :: "book \<Rightarrow> report" where
  "invariants_check b = \<lparr>rp_violations =
     check_positions_equal_fills b @ check_no_overfill b @ check_exits_bounded b
       @ check_orders_are_traced b @ check_flat_means_flat b\<rparr>"

lemma filter_map_Nil: "filter_map f xs = [] \<longleftrightarrow> (\<forall>x \<in> set xs. f x = None)"
  by (induction xs) (auto simp: filter_map_def List.map_filter_simps split: option.splits)

text \<open>The sums the check builds, as long as no partial sum can leave the range of a quantity.\<close>

definition gross :: "fill list \<Rightarrow> int" where
  "gross fs = (\<Sum>f\<leftarrow>fs. \<bar>sint (fl_qty f)\<bar>)"

definition net_on :: "instrument \<Rightarrow> fill list \<Rightarrow> int" where
  "net_on i fs = (\<Sum>f\<leftarrow>fs. if fl_instrument f = i then sgn_of (fl_side f) * sint (fl_qty f) else 0)"

lemma gross_nonneg: "0 \<le> gross fs"
  by (induction fs) (simp_all add: gross_def)

lemma net_le_gross: "\<bar>net_on i fs\<bar> \<le> gross fs"
  by (induction fs) (auto simp: net_on_def gross_def split: side.splits)

definition sum_at :: "(instrument, qty) hashmap \<Rightarrow> instrument \<Rightarrow> int" where
  "sum_at m i = (case hm_get m i of Some q \<Rightarrow> sint q | None \<Rightarrow> 0)"

lemma add_fill_sum:
  assumes "\<bar>sum_at m (fl_instrument f)\<bar> + \<bar>sint (fl_qty f)\<bar> \<le> i64_max"
  shows "sum_at (add_fill m f) i = sum_at m i + net_on i [f]"
proof -
  let ?e = "case hm_get m (fl_instrument f) of Some q \<Rightarrow> q | None \<Rightarrow> e8_zero"
  let ?s = "signed_side (fl_side f) (fl_qty f)"
  have e: "sint ?e = sum_at m (fl_instrument f)" by (simp add: sum_at_def split: option.splits)
  have s: "sint ?s = sgn_of (fl_side f) * sint (fl_qty f)"
    using assms by (cases "fl_side f") (auto simp: signed_side_def saturating_mul_i64_def i64_simps i64_min_def i64_max_def)
  have "in_i64 (sint ?e + sint ?s)"
    using assms e s by (cases "fl_side f") (auto simp: in_i64_def i64_min_def i64_max_def)
  then obtain r where r: "e8_checked_add ?e ?s = Inr r"
    by (cases "e8_checked_add ?e ?s") (auto simp: e8_checked_add_Inl)
  then have "sint r = sint ?e + sint ?s" by (simp add: e8_checked_add_Inr)
  then show ?thesis using r e s by (simp add: add_fill_def Let_def sum_at_def net_on_def)
qed

lemma foldl_add_fill:
  "\<bar>sum_at m i\<bar> + gross fs \<le> i64_max \<Longrightarrow> (\<And>j. \<bar>sum_at m j\<bar> + gross fs \<le> i64_max) \<Longrightarrow>
   sum_at (foldl add_fill m fs) i = sum_at m i + net_on i fs"
proof (induction fs arbitrary: m)
  case (Cons f fs)
  have g: "gross (f # fs) = \<bar>sint (fl_qty f)\<bar> + gross fs" by (simp add: gross_def)
  have a: "sum_at (add_fill m f) j = sum_at m j + net_on j [f]" for j
    using Cons.prems(2) [of "fl_instrument f"] gross_nonneg [of fs] g by (intro add_fill_sum) auto
  have "\<bar>sum_at (add_fill m f) j\<bar> + gross fs \<le> i64_max" for j
    using a [of j] Cons.prems(2) [of j] net_le_gross [of j "[f]"] g by (simp add: gross_def)
  then have "sum_at (foldl add_fill (add_fill m f) fs) i = sum_at (add_fill m f) i + net_on i fs"
    by (intro Cons.IH)
  then show ?case using a [of i] by (simp add: net_on_def)
qed (simp add: net_on_def)

lemma or_insert_zero: "sum_at (foldl (\<lambda>m (i, _). or_insert i e8_zero m) m ps) j = sum_at m j"
  by (induction ps arbitrary: m) (auto simp: or_insert_def sum_at_def)

lemma or_insert_wf: "hm_wf m \<Longrightarrow> hm_wf (foldl (\<lambda>m (i, _). or_insert i e8_zero m) m ps)"
  by (induction ps arbitrary: m) (auto simp: or_insert_def)

lemma add_fill_wf: "hm_wf m \<Longrightarrow> hm_wf (foldl add_fill m fs)"
  by (induction fs arbitrary: m) (auto simp: add_fill_def Let_def)

lemma fill_sums_wf: "hm_wf (fill_sums b)"
  by (simp add: fill_sums_def add_fill_wf or_insert_wf)

lemma fill_sums_exact:
  assumes "gross (all_fills b) \<le> i64_max"
  shows "sum_at (fill_sums b) i = net_on i (all_fills b)"
proof -
  let ?m = "foldl (\<lambda>m (i, _). or_insert i e8_zero m) [] (all_positions b)"
  have z: "sum_at ?m j = 0" for j by (subst or_insert_zero) (simp add: sum_at_def)
  have "sum_at (foldl add_fill ?m (all_fills b)) i = sum_at ?m i + net_on i (all_fills b)"
    using foldl_add_fill [of ?m i "all_fills b"] assms by (simp add: z)
  then show ?thesis using z by (simp add: fill_sums_def)
qed

lemma net_all_fills: "net_on i (all_fills b) = fill_sum (bk_fills b) i"
proof -
  have "mset (map snd (hm_sorted (bk_fills b))) = mset (map snd (bk_fills b))"
    by (simp add: hm_sorted_def)
  then have "sum_mset (image_mset (\<lambda>f. if fl_instrument f = i then sgn_of (fl_side f) * sint (fl_qty f) else 0)
      (mset (all_fills b))) = sum_mset (image_mset (\<lambda>f. if fl_instrument f = i then
      sgn_of (fl_side f) * sint (fl_qty f) else 0) (mset (map snd (bk_fills b))))"
    by (simp add: all_fills_def)
  then show ?thesis
    by (simp add: net_on_def fill_sum_def sum_mset_sum_list [symmetric] comp_def case_prod_beta del: mset_map)
       (simp add: multiset.map_comp comp_def case_prod_unfold)
qed

lemma fill_sums_entry:
  assumes "gross (all_fills b) \<le> i64_max" "(i, q) \<in> set (hm_sorted (fill_sums b))"
  shows "sint q = fill_sum (bk_fills b) i"
proof -
  have "hm_get (fill_sums b) i = Some q" using assms(2) by (simp add: hm.entries_get fill_sums_wf)
  then have "sum_at (fill_sums b) i = sint q" by (simp add: sum_at_def)
  then show ?thesis using fill_sums_exact [OF assms(1)] by (simp add: net_all_fills)
qed

lemma check_positions_silent:
  assumes "book_inv b" "gross (all_fills b) \<le> i64_max"
  shows "check_positions_equal_fills b = []"
  unfolding check_positions_equal_fills_def filter_map_Nil
proof (intro ballI, clarify)
  fix i q assume "(i, q) \<in> set (hm_sorted (fill_sums b))"
  then have "sint q = sint (ps_qty (book_position b i))"
    using fill_sums_entry [OF assms(2)] assms(1) by (simp add: book_inv_def)
  then show "(let position = ps_qty (book_position b i)
       in if position \<noteq> q then Some (PositionDisagreesWithFills i position q) else None) = None"
    by (simp add: sint_eq_iff)
qed

lemma check_overfill_silent: "book_inv b \<Longrightarrow> check_no_overfill b = []"
  using book_inv_order
  by (fastforce simp: check_no_overfill_def filter_map_Nil book_orders_mem order_inv_def Let_def)

lemma check_flat_silent: "book_inv b \<Longrightarrow> check_flat_means_flat b = []"
  by (auto simp: check_flat_means_flat_def filter_map_Nil all_positions_def book_inv_def hm_sorted_def
      flat_ok_def is_flat_def e8_is_zero_iff)

lemma filter_map_mem: "y \<in> set (filter_map f xs) \<longleftrightarrow> (\<exists>x \<in> set xs. f x = Some y)"
  by (induction xs) (auto simp: filter_map_def List.map_filter_simps split: option.splits)

lemma check_exits_mem:
  assumes "book_inv b"
  shows "v \<in> set (check_exits_bounded b) \<longleftrightarrow> (\<exists>i. v = ExitsExceedPosition i (committed_to_exits b i) (ps_qty (book_position b i)) \<and>
     sint (committed_to_exits b i) > sint (abs_qty (book_position b i)))"
proof -
  have "exits_on b i \<noteq> []" if "sint (committed_to_exits b i) > sint (abs_qty (book_position b i))" for i
  proof
    assume "exits_on b i = []"
    then have "sint (committed_to_exits b i) = 0" using committed_exact [OF assms, of i] by (simp add: i64_max_def)
    then show False using that by (simp add: abs_qty_def sint_e8_abs i64_max_def)
  qed
  then have mem: "i \<in> (\<lambda>o'. oc_instrument (od_core o')) ` set (filter is_exit (live_orders b))"
    if "sint (committed_to_exits b i) > sint (abs_qty (book_position b i))" for i
    using that by (force simp: exits_on_def live_orders_on_def filter_empty_conv)
  show ?thesis
    unfolding check_exits_bounded_def Let_def filter_map_mem
    using mem by (auto split: if_splits)
qed

subsection \<open>Properties\<close>

text \<open>
  C33: the runtime check and the fold agree. On any book folded from a log (whose executions add up, in
  absolute value, to at most the largest quantity) the check reports no position that disagrees with
  its fills, no overfilled order and no basis without a position; it reports exits over a position
  exactly for the instruments where the live exits do exceed it, and nothing else but untraced orders.
\<close>

theorem check_is_silent_on_folded_books:
  assumes "rebuild items = Inr b" "gross (all_fills b) \<le> i64_max"
  shows "rp_violations (invariants_check b) = check_exits_bounded b @ check_orders_are_traced b \<and>
    (ExitsExceedPosition i e q \<in> set (rp_violations (invariants_check b)) \<longleftrightarrow>
       e = committed_to_exits b i \<and> q = ps_qty (book_position b i) \<and> sint e > sint (abs_qty (book_position b i)))"
proof -
  have inv: "book_inv b" using assms(1) by (rule rebuild_inv)
  have tr: "ExitsExceedPosition i e q \<notin> set (check_orders_are_traced b)"
    by (auto simp: check_orders_are_traced_def filter_map_mem split: if_splits)
  show ?thesis
    using check_positions_silent [OF inv assms(2)] check_overfill_silent [OF inv] check_flat_silent [OF inv]
      check_exits_mem [OF inv] tr by (auto simp: invariants_check_def)
qed

theorem check_is_silent_on_folded_books_witness:
  "\<exists>b. rebuild [frame_of (sample_header KTicked, Ticked)] = (Inr b :: unit ledger_error + book) \<and>
    rp_violations (invariants_check b) = check_exits_bounded b @ check_orders_are_traced b"
proof -
  obtain b where b: "rebuild [frame_of (sample_header KTicked, Ticked)] = (Inr b :: unit ledger_error + book)"
      "bk_fills b = []"
    by (simp add: rebuild_def frame_of_def record_decode_def decode_body_def op_defs r_finish_def r_remaining_def
        book_apply_def apply_record_def sample_header_def book_stamp_def book_new_def)
  then have "gross (all_fills b) \<le> i64_max" by (simp add: all_fills_def hm_sorted_def gross_def i64_max_def)
  with check_is_silent_on_folded_books [OF b(1)] b(1) show ?thesis by blast
qed

end
