(* ===== verification/Startup.thy ===== *)
theory Startup
  imports Replay Reader Invariants
begin

text \<open>
  Taking over a journal: \<open>Engine::open\<close> (\<open>sentinel-engine/src/engine.rs\<close>) claims the directory, opens a tailer
  from the beginning of what it now holds, and folds it into a book; the boot of the process
  (\<open>sentineld/src/main.rs\<close>) then refuses to go on when the invariants do not hold of that book. The tailer is
  drained with the size of the directory as fuel, which is more than the records it can hold.

  Shown here: after a crash at any point of a flush the next process comes up, with the account as some prefix
  of the interrupted group left it and with nothing of the old process's memory, and with the very same account
  if the flush had returned.
\<close>

definition engine_open ::
  "bool \<Rightarrow> bool \<Rightarrow> os \<Rightarrow> directory \<Rightarrow> nanos \<Rightarrow> config \<Rightarrow> engine_error + engine" where
  "engine_open locked can_truncate os dir now cfg =
     res_bind (map_err EJournal (journal_claim locked can_truncate os dir now)) (\<lambda>journal.
     res_bind (map_err EJournal (tailer_open (disk journal) 0)) (\<lambda>tailer.
     res_bind (map_err ELedger (rebuild (tail_items (Suc (directory_size (disk journal))) (disk journal) tailer))) (\<lambda>book.
       Inr \<lparr>en_journal = journal, en_book = book, en_config = cfg, en_uncommitted = [], en_reconciling = [],
            en_halted = bk_halted book, en_position_confirmed = False\<rparr>)))"

datatype boot_error = CannotClaim engine_error | UnsoundBook report

definition boot :: "bool \<Rightarrow> bool \<Rightarrow> os \<Rightarrow> directory \<Rightarrow> nanos \<Rightarrow> config \<Rightarrow> boot_error + engine" where
  "boot locked can_truncate os dir now cfg =
     res_bind (map_err CannotClaim (engine_open locked can_truncate os dir now cfg)) (\<lambda>e.
       let report = invariants_check (en_book e)
       in if \<not> report_holds report then Inl (UnsoundBook report) else Inr e)"

text \<open>Two books that describe the same account, whatever record they are at.\<close>

definition same_account :: "book \<Rightarrow> book \<Rightarrow> bool" where
  "same_account b b' \<longleftrightarrow>
     bk_orders b' = bk_orders b \<and> bk_fills b' = bk_fills b \<and> bk_positions b' = bk_positions b \<and>
     bk_balances b' = bk_balances b \<and> bk_marks b' = bk_marks b \<and>
     bk_order_sequence b' = bk_order_sequence b \<and> bk_halted b' = bk_halted b"

subsection \<open>Reading the log back\<close>

text \<open>What a new process folds is exactly what the journal it claimed holds.\<close>

lemma open_folds:
  assumes "journal_ok j" "full (jn_closed j)" "length (durable_frames j) + 2 < 2 ^ 64"
  shows "\<exists>t. tailer_open (disk j) 0 = Inr t \<and>
    tail_items (Suc (directory_size (disk j))) (disk j) t = map Inr (durable_frames j)"
proof -
  have ch: "chain 1 (disk j)" using assms(1) by (simp add: journal_ok_def)
  have "distinct (map fst (disk j))"
    using chain_distinct [of 1 "jn_closed j" "(jn_segment_base j, jn_segment_file j)"] ch assms(2,3)
    by (simp add: disk_def durable_frames_def)
  then have dir: "dir_ok (disk j)" using ch by (simp add: dir_ok_def)
  have "length (frames_of (disk j)) + 2 < 2 ^ 64" using assms(3) by (simp add: durable_frames_def)
  from tailer_open_stands [OF dir _ le0 this] obtain t where
    t: "tailer_open (disk j) 0 = Inr t" "stands (disk j) t (durable_frames j)" by (auto simp: disk_def durable_frames_def)
  moreover have "length (durable_frames j) < Suc (directory_size (disk j))"
    using frames_fit [OF ch] by (simp add: durable_frames_def)
  ultimately show ?thesis using tail_items_stands [OF dir t(2)] by blast
qed

lemma rebuilt_prefix: "rebuilt (fs @ gs) = Inr b \<Longrightarrow> \<exists>b'. rebuilt fs = Inr b'"
  by (auto simp: rebuilt_def rebuild_def rebuild_loop_append res_bind_def split: sum.splits)

lemma rebuilt_claim:
  assumes "rebuilt fs = Inr b" "fh_kind (fst f) = KEpochClaimed"
    "snd f = to_le_bytes 8 (epoch :: epoch) @ to_le_bytes 8 (resumed :: seq)"
  shows "\<exists>b'. rebuilt (fs @ [f]) = Inr b' \<and> same_account b b'"
proof -
  have f: "f = (fst f, record_encode (EpochClaimed epoch resumed))" using assms(3) by (cases f) (simp add: w_u64_def)
  have "rebuilt (fs @ [f]) =
    (case book_apply (fst f) (EpochClaimed epoch resumed) b of (Inl x, _) \<Rightarrow> Inl x | (Inr _, b') \<Rightarrow> Inr b')"
    by (subst f, rule rebuilt_snoc) (simp_all add: assms)
  then show ?thesis
    by (simp add: book_apply_def apply_record_def op_seq_def op_bind_def op_modify_def op_ok_def same_account_def book_stamp_def)
qed

text \<open>Opening a directory a flush left behind.\<close>

lemma open_after_crash:
  assumes "sound e" "full (jn_closed (en_journal e))" "length (log_frames (en_journal e)) + 3 < 2 ^ 64" "os_works os'"
  shows "\<exists>k b e'. engine_open False True os' (disk (snd (journal_flush os (en_journal e)))) now cfg = Inr e' \<and>
    rebuilt (durable_frames (en_journal e) @ take k (pending_frames (en_journal e))) = Inr b \<and>
    same_account b (en_book e') \<and> sound e' \<and> full (jn_closed (en_journal e')) \<and>
    en_uncommitted e' = [] \<and> en_reconciling e' = [] \<and> en_halted e' = bk_halted b \<and> \<not> en_position_confirmed e' \<and>
    ((\<exists>x. fst (journal_flush os (en_journal e)) = Inr x) \<longrightarrow> b = en_book e)"
proof -
  let ?j = "en_journal e"
  have ok: "journal_ok ?j" and rb: "rebuilt (durable_frames ?j @ pending_frames ?j) = Inr (en_book e)"
    using assms(1) by (simp_all add: sound_def log_frames_def)
  obtain k segs b "file" torn where fl: "disk (snd (journal_flush os ?j)) = segs @ [(b, file @ torn)]"
    "scan_frame torn = None" "chain 1 (segs @ [(b, file)])"
    "frames_of (segs @ [(b, file)]) = durable_frames ?j @ take k (pending_frames ?j)"
    "(\<exists>x. fst (journal_flush os ?j) = Inr x) \<longrightarrow> length (pending_frames ?j) \<le> k"
    using flush_leaves [OF ok, of os] by blast
  have "full segs" using fl(1) flush_full [OF ok assms(2), of os] by (simp add: disk_def)
  with claim_ok [OF fl(3,2) assms(4), of now] obtain j f epoch resumed where
    j: "journal_claim False True os' (segs @ [(b, file @ torn)]) now = Inr j" "journal_ok j" "pending_frames j = []"
      "fh_kind (fst f) = KEpochClaimed" "durable_frames j = frames_of (segs @ [(b, file)]) @ [f]"
      "snd f = to_le_bytes 8 (epoch :: epoch) @ to_le_bytes 8 (resumed :: seq)" "full (jn_closed j)"
    by blast
  have "durable_frames ?j @ pending_frames ?j =
      (durable_frames ?j @ take k (pending_frames ?j)) @ drop k (pending_frames ?j)" by simp
  then obtain bk where bk: "rebuilt (durable_frames ?j @ take k (pending_frames ?j)) = Inr bk"
    using rb rebuilt_prefix by metis
  obtain b' where b': "rebuilt (durable_frames j) = Inr b'" "same_account bk b'"
    using rebuilt_claim [OF bk j(4,6)] unfolding j(5) fl(4) by blast
  have "length (durable_frames j) + 2 < 2 ^ 64" using assms(3) unfolding j(5) fl(4) by (simp add: log_frames_def)
  from open_folds [OF j(2,7) this] obtain t where "tailer_open (disk j) 0 = Inr t"
    "tail_items (Suc (directory_size (disk j))) (disk j) t = map Inr (durable_frames j)" by blast
  then have "engine_open False True os' (disk (snd (journal_flush os ?j))) now cfg =
      Inr \<lparr>en_journal = j, en_book = b', en_config = cfg, en_uncommitted = [], en_reconciling = [],
           en_halted = bk_halted b', en_position_confirmed = False\<rparr>" (is "_ = Inr ?e")
    using fl(1) j(1) b'(1) by (simp add: engine_open_def res_bind_def map_err_def rebuilt_def)
  moreover have "sound ?e" using j(2,3) b'(1) by (simp add: sound_def log_frames_def)
  moreover have "(\<exists>x. fst (journal_flush os ?j) = Inr x) \<longrightarrow> bk = en_book e" using fl(5) bk rb by auto
  moreover have "bk_halted b' = bk_halted bk" using b'(2) by (simp add: same_account_def)
  ultimately show ?thesis using bk b'(2) j(7) by (intro exI [of _ k] exI [of _ bk] exI [of _ ?e]) simp
qed

subsection \<open>Untraced orders\<close>

text \<open>The trace an order was placed under is never changed.\<close>

definition traced :: "client_order_id \<Rightarrow> trace_id \<Rightarrow> book \<Rightarrow> bool" where
  "traced c t b \<longleftrightarrow> (\<exists>o'. hm_get (bk_orders b) c = Some o' \<and> od_trace_id o' = t)"

lemma traced_fill:
  "traced c t b \<Longrightarrow> traced c t (snd (book_record_fill h d o' ev b :: (journal_error ledger_error + unit) \<times> book))"
  by (cases ev) (auto simp: book_record_fill_def op_defs traced_def Let_def split: prod.splits)

lemma traced_store:
  "traced c t b \<Longrightarrow> traced c t (snd (book_store_order h d n ev b :: (journal_error ledger_error + applied) \<times> book))"
  by (auto simp: book_store_order_def op_defs traced_def Let_def hm_get_insert split: option.splits if_splits)

lemma traced_apply:
  assumes "traced c t b"
  shows "traced c t (snd (book_apply h r b :: (journal_error ledger_error + applied) \<times> book))"
proof -
  have "traced c t (snd (op_seq (book_record_fill h d o' ev) (book_store_order h d n ev) b
      :: (journal_error ledger_error + applied) \<times> book))" if "traced c t b" for d o' ev n b
    using traced_fill [OF that, of h d o' ev] traced_store
    by (auto simp: op_seq_def op_bind_def split: prod.split sum.split)
  then have ev: "traced c t (snd (apply_order_event h d f g ev b :: (journal_error ledger_error + applied) \<times> book))"
    if "traced c t b" for d f g ev b
    using that by (cases rule: apply_order_event_cases [of h d f g ev b, where 'j = journal_error]) auto
  have "traced c t (book_stamp h b)" using assms by (simp add: traced_def book_stamp_def)
  then show ?thesis
    unfolding book_apply_def op_seq_modify
    using ev by (cases r) (auto simp: apply_record_def apply_intent_def op_defs traced_def hm_get_insert split: decision_kind.splits)
qed

definition keeps_traces :: "engine \<Rightarrow> engine \<Rightarrow> bool" where
  "keeps_traces e e' \<longleftrightarrow> (\<forall>c t. traced c t (en_book e) \<longrightarrow> traced c t (en_book e'))"

interpretation traces: write_closed keeps_traces
  by unfold_locales
    (auto simp: keeps_def keeps_traces_def preorder_rel_def write_at_book traced_apply intro!: reflpI transpI split: sum.splits)

lemma authorise_traced:
  assumes "sound e" "record_wf (IntentPersisted i)" "book_order (en_book e) (in_client_order_id i) = None"
    "authorise i e = (Inr (), e')"
  shows "traced (in_client_order_id i) (in_trace_id i) (en_book e')"
proof -
  define rest where "rest = op_seq (write_event (in_client_order_id i) (in_trace_id i) SubmissionStarted)
    (decide (in_instrument i) (if opens_exposure i then Gateway else Protection)
        (if opens_exposure i then EntryPlaced else ExitPlaced) (in_trace_id i) (in_qty i)
        (note_new (wire_as_str side_table (in_side i) @ lit '' '' @ format_e8 (in_qty i) @ lit '' '' @ as_str (in_instrument i))))"
  have auth: "authorise i = op_seq (write_record (IntentPersisted i)) (op_seq rest (request (Submit i)))"
    by (simp add: authorise_def rest_def op_seq_def op_bind_assoc)
  obtain x e1 h where e1: "write_record (IntentPersisted i) e = (Inr x, e1)"
    "en_book e1 = snd (book_apply h (IntentPersisted i) (en_book e) :: (journal_error ledger_error + applied) \<times> book)"
    using write_record_ok [OF assms(1,2) intent_applies] by blast
  have t1: "traced (in_client_order_id i) (in_trace_id i) (en_book e1)"
    using assms(3) unfolding e1(2)
    by (simp add: book_apply_def apply_record_def apply_intent_def op_defs book_order_def book_stamp_def traced_def
        order_of_intent_def)
  have "keeps keeps_traces rest" unfolding rest_def by (intro traces.k_seq traces.write_event traces.decide)
  then have "keeps_traces e1 (snd (rest e1))" by (simp add: keeps_def)
  with t1 have "traced (in_client_order_id i) (in_trace_id i) (en_book (snd (rest e1)))" by (simp add: keeps_traces_def)
  moreover have "en_book e' = en_book (snd (rest e1))"
    using assms(4) e1(1) by (auto simp: auth op_seq_def op_bind_def request_def op_modify_def split: prod.splits sum.splits)
  ultimately show ?thesis by simp
qed

interpretation keep_closed: write_closed "same_of (\<lambda>e. jn_closed (en_journal e))"
  by unfold_locales (auto simp: keeps_def same_of_def write_at_journal append_closed)

lemma authorise_closed: "jn_closed (en_journal (snd (authorise i e))) = jn_closed (en_journal e)"
proof -
  have "keeps (same_of (\<lambda>e. jn_closed (en_journal e))) (authorise i)"
    unfolding authorise_def request_def
    by (intro keep_closed.k_seq keep_closed.write_record keep_closed.write_event keep_closed.decide keeps_modify)
      (simp add: same_of_def)
  then show ?thesis by (simp add: keeps_def same_of_def)
qed

text \<open>How many records an operation adds at most.\<close>

definition adds_at_most :: "nat \<Rightarrow> 'a engine_op \<Rightarrow> bool" where
  "adds_at_most k m \<longleftrightarrow> (\<forall>e. journal_ok (en_journal e) \<longrightarrow> journal_ok (en_journal (snd (m e))) \<and>
     length (log_frames (en_journal (snd (m e)))) \<le> length (log_frames (en_journal e)) + k)"

lemma adds_seq: "adds_at_most k m \<Longrightarrow> adds_at_most l n \<Longrightarrow> adds_at_most (k + l) (op_seq m n)"
  unfolding adds_at_most_def
proof (intro allI impI)
  fix e :: engine
  assume m: "\<forall>e. journal_ok (en_journal e) \<longrightarrow> journal_ok (en_journal (snd (m e))) \<and>
      length (log_frames (en_journal (snd (m e)))) \<le> length (log_frames (en_journal e)) + k"
    and n: "\<forall>e. journal_ok (en_journal e) \<longrightarrow> journal_ok (en_journal (snd (n e))) \<and>
      length (log_frames (en_journal (snd (n e)))) \<le> length (log_frames (en_journal e)) + l"
    and ok: "journal_ok (en_journal e)"
  obtain r e1 where e1: "m e = (r, e1)" by fastforce
  have one: "journal_ok (en_journal e1)" "length (log_frames (en_journal e1)) \<le> length (log_frames (en_journal e)) + k"
    using m [rule_format, OF ok] e1 by simp_all
  have "op_seq m n e = (case r of Inl x \<Rightarrow> (Inl x, e1) | Inr _ \<Rightarrow> n e1)" by (simp add: op_seq_def op_bind_def e1)
  then show "journal_ok (en_journal (snd (op_seq m n e))) \<and>
      length (log_frames (en_journal (snd (op_seq m n e)))) \<le> length (log_frames (en_journal e)) + (k + l)"
    using one n [rule_format, OF one(1)] by (cases r) auto
qed

lemma adds_write: "adds_at_most 1 (write_at now r)"
  unfolding adds_at_most_def
proof (intro allI impI)
  fix e :: engine assume ok: "journal_ok (en_journal e)"
  let ?k = "Records.record_kind r" and ?p = "record_encode r"
  have np: "jn_poisoned (en_journal e) = None" using ok by (simp add: journal_ok_def)
  show "journal_ok (en_journal (snd (write_at now r e))) \<and>
     length (log_frames (en_journal (snd (write_at now r e)))) \<le> length (log_frames (en_journal e)) + 1"
  proof (cases "length ?p \<le> MAX_PAYLOAD")
    case True
    then show ?thesis using append_ok [OF ok True, of ?k now] by (simp add: write_at_journal log_frames_def)
  next
    case False
    then show ?thesis using ok np by (simp add: write_at_journal journal_append_def log_frames_def)
  qed
qed

lemma adds_read: "(\<And>e. adds_at_most k (f e)) \<Longrightarrow> adds_at_most k (op_read f)"
  by (simp add: adds_at_most_def op_read_def)

lemma adds_record: "adds_at_most 1 (write_record r)"
  unfolding write_record_def by (rule adds_read) (rule adds_write)

lemma adds_nothing: "adds_at_most 0 (op_ok x)" "adds_at_most 0 (request r)"
  by (simp_all add: adds_at_most_def op_ok_def request_def op_modify_def)

lemma adds_authorise: "adds_at_most 3 (authorise i)"
proof -
  have d: "adds_at_most 1 (decide j a k t v n)" for j a k t v n
    unfolding decide_def using adds_seq [OF adds_record adds_nothing(1)] by simp
  have w: "adds_at_most 1 (write_event c t ev)" for c t ev
    unfolding write_event_def by (rule adds_read) (rule adds_record)
  show ?thesis
    unfolding authorise_def
    using adds_seq [OF adds_record adds_seq [OF w adds_seq [OF d adds_nothing(2)]]] by (simp add: numeral_3_eq_3)
qed

lemma untraced_reported:
  assumes "book_inv b" "traced c 0 b"
  shows "\<not> report_holds (invariants_check b)"
proof -
  obtain o' where o': "hm_get (bk_orders b) c = Some o'" "od_trace_id o' = 0" using assms(2) by (auto simp: traced_def)
  have "map fst (bk_orders b) = bk_order_sequence b" using assms(1) by (simp add: book_inv_def)
  moreover have "c \<in> set (map fst (bk_orders b))" using hm_get_mem [OF o'(1)] by force
  ultimately have "c \<in> set (bk_order_sequence b)" by metis
  then have "o' \<in> set (book_orders b)" using o'(1) by (auto simp: book_orders_def filter_map_mem)
  then have "check_orders_are_traced b \<noteq> []" using o'(2) by (auto simp: check_orders_are_traced_def filter_map_Nil)
  then show ?thesis by (simp add: report_holds_def invariants_check_def)
qed

lemma open_after_flush:
  assumes "sound e" "full (jn_closed (en_journal e))" "length (log_frames (en_journal e)) + 3 < 2 ^ 64" "os_works os'"
  shows "\<exists>k b e'. engine_open False True os' (disk (en_journal (snd (engine_flush os e)))) now cfg = Inr e' \<and>
    rebuilt (durable_frames (en_journal e) @ take k (pending_frames (en_journal e))) = Inr b \<and>
    same_account b (en_book e') \<and> sound e' \<and>
    en_uncommitted e' = [] \<and> en_reconciling e' = [] \<and> en_halted e' = bk_halted b \<and> \<not> en_position_confirmed e' \<and>
    ((\<exists>rs. fst (engine_flush os e) = Inr rs) \<longrightarrow> b = en_book e)"
proof -
  have "en_journal (snd (engine_flush os e)) = snd (journal_flush os (en_journal e))"
    "(\<exists>rs. fst (engine_flush os e) = Inr rs) \<longleftrightarrow> (\<exists>x. fst (journal_flush os (en_journal e)) = Inr x)"
    by (auto simp: engine_flush_eq split: prod.splits sum.splits)
  then show ?thesis using open_after_crash [OF assms, of os now cfg] by auto
qed

subsection \<open>Properties\<close>


lemma sample_full: "full (jn_closed (en_journal sample_waiting))" "length (log_frames (en_journal sample_waiting)) + 3 < 2 ^ 64"
proof -
  have jr: "en_journal sample_waiting = snd (journal_append KIntentPersisted 0
      (record_encode (IntentPersisted sample_intent)) sample_journal)"
    by (simp add: sample_waiting_def write_record_def op_read_def write_at_journal book_new_def)
  show "full (jn_closed (en_journal sample_waiting))"
    unfolding jr append_closed by (simp add: full_def sample_journal_def reopened_def)
  have "length (record_encode (IntentPersisted sample_intent)) \<le> MAX_PAYLOAD"
    using record_encode_length [OF sample_record] record_len_fits by metis
  from append_ok(2,3) [OF sample_journal_ok(1) this, of KIntentPersisted 0]
  show "length (log_frames (en_journal sample_waiting)) + 3 < 2 ^ 64"
    unfolding jr log_frames_def by (simp add: sample_journal_ok)
qed


text \<open>
  An order placed without a trace stops every later boot. The intent constructor and the guards accept a
  trace id of zero, so such an order is written and handed to the venue; but the book then never passes the
  invariant check again, and the process refuses to start on any directory that holds the order.
\<close>

theorem untraced_order_stops_the_next_boot:
  assumes "sound e" "full (jn_closed (en_journal e))" "record_wf (IntentPersisted i)" "in_trace_id i = 0"
    "book_order (en_book e) (in_client_order_id i) = None"
    "evaluate (en_book e) i ((cf_limits (en_config e))\<lparr>lm_position_confirmed := en_position_confirmed e\<rparr>) (en_halted e) = Allow"
    "length (log_frames (en_journal e)) + 6 < 2 ^ 64" "os_works os" "os_works os'"
  shows "\<exists>e1 rs e2 report. submit (Place i) e = (Inr (), e1) \<and> engine_flush os e1 = (Inr rs, e2) \<and> Submit i \<in> set rs \<and>
    boot False True os' (disk (en_journal e2)) now cfg = Inl (UnsoundBook report)"
proof -
  obtain e1 where auth: "authorise i e = (Inr (), e1)" and
    e1: "sound e1" "en_uncommitted e1 = en_uncommitted e @ [Submit i]"
    using authorise_ok [OF assms(1,3,5)] by blast
  have place: "submit (Place i) e = (Inr (), e1)"
    using assms(5,6) auth by (simp add: submit_def on_place_def op_read_def Let_def)
  have "length (log_frames (en_journal (snd (authorise i e)))) \<le> length (log_frames (en_journal e)) + 3"
    using adds_authorise [of i] assms(1) unfolding adds_at_most_def sound_def by blast
  then have len: "length (log_frames (en_journal e1)) + 3 < 2 ^ 64" using auth assms(7) by simp
  have full: "full (jn_closed (en_journal e1))" using authorise_closed [of i e] auth assms(2) by simp
  obtain e2 where e2: "engine_flush os e1 = (Inr (en_uncommitted e1), e2)"
    using flush_hands_out [OF e1(1) assms(8)] by blast
  from open_after_flush [OF e1(1) full len assms(9), of os now cfg] e2 obtain e' where
    op: "engine_open False True os' (disk (en_journal e2)) now cfg = Inr e'" "same_account (en_book e1) (en_book e')" "sound e'"
    by auto
  have "traced (in_client_order_id i) 0 (en_book e')"
    using authorise_traced [OF assms(1,3,5) auth] op(2) assms(4) by (simp add: traced_def same_account_def)
  from untraced_reported [OF sound_book_inv [OF op(3)] this] show ?thesis
    using place e1(2) e2 op(1) by (simp add: boot_def res_bind_def map_err_def Let_def)
qed

definition sample_untraced :: economic_order_intent where
  "sample_untraced = sample_intent\<lparr>in_trace_id := 0\<rparr>"

theorem untraced_order_stops_the_next_boot_witness:
  "\<exists>e1 rs e2 report. submit (Place sample_untraced) sample_engine = (Inr (), e1) \<and>
    engine_flush sample_os e1 = (Inr rs, e2) \<and> Submit sample_untraced \<in> set rs \<and>
    boot False True sample_os (disk (en_journal e2)) 9 config_default = Inl (UnsoundBook report)"
proof (rule untraced_order_stops_the_next_boot [OF sample_sound])
  show "record_wf (IntentPersisted sample_untraced)"
    using sample_record by (simp add: sample_untraced_def intent_wf_def)
  show "evaluate (en_book sample_engine) sample_untraced ((cf_limits (en_config sample_engine))\<lparr>lm_position_confirmed :=
      en_position_confirmed sample_engine\<rparr>) (en_halted sample_engine) = Allow"
    by (simp add: sample_untraced_def sample_engine_def config_default_def evaluate_def evaluate_entry_def
        opens_exposure_def sample_intent_def authority_opens_exposure_def locking_order_def live_orders_on_def
        live_orders_def book_orders_def filter_map_def book_new_def List.map_filter_simps)
qed (simp_all add: sample_untraced_def book_order_def book_new_def sample_os_works sample_journal_ok log_frames_def
  full_def, simp add: sample_journal_def reopened_def)

end
