(* ===== verification/Sentineld.thy ===== *)
theory Sentineld
  imports Userstream Config Control Process Startup
begin

text \<open>
  The process as a whole: the control socket's thread (\<open>serve\<close> of \<open>sentineld/src/control.rs\<close>) and the boot
  (\<open>run\<close> of \<open>sentineld/src/main.rs\<close>), which puts the other components together in its order: the configuration from
  the environment, the claim and the rebuild of the book, the venue, the threads, the socket, the signals. What the
  machine answers (the environment, the directory, the lock, the threads, the socket) is the record \<open>host\<close>; what
  the venue answers is \<open>world_ops\<close>. What is printed is left out.

  Shown here: a process that came up was configured, claimed its journal, holds its invariants and has the venue it
  was configured for with the rules of every instrument; every line on its socket is answered; it talks to the production venue if and only if the
  environment asked for live money twice; and from the first start over any log, nothing is submitted twice.
\<close>

subsection \<open>The control socket\<close>

definition socket_path :: "str \<Rightarrow> str" where
  "socket_path dir = dir @ (if dir = [] \<or> last dir = 47 then [] else [47]) @ lit ''control.sock''"

text \<open>
  One turn of the accept loop: what the stop flag was, and what \<open>accept\<close> returned. A connection whose stream
  cannot be cloned is one with no lines.
\<close>

datatype accepted = Connection "line_read list" | WouldBlock | AcceptFailed

record accept_turn =
  at_running :: bool
  at_accept :: accepted

text \<open>
  The answers given on each connection, the commands sent to the writer, and whether the loop has ended with the
  socket's file removed.
\<close>

fun serve_loop :: "'n json_lib \<Rightarrow> accept_turn list \<Rightarrow> answer list list \<times> command list \<times> bool" where
  "serve_loop lib [] = ([], [], False)"
| "serve_loop lib (turn # turns) =
     (if \<not> at_running turn then ([], [], True)
      else case at_accept turn of
        AcceptFailed \<Rightarrow> ([], [], False)
      | WouldBlock \<Rightarrow> serve_loop lib turns
      | Connection lines \<Rightarrow>
          let (answers, sent) = handle lib lines; (later, commands, removed) = serve_loop lib turns
          in (answers # later, sent @ commands, removed))"

definition serve :: "str option \<Rightarrow> str option \<Rightarrow> str option \<Rightarrow> str + unit" where
  "serve bind_error nonblocking_error thread_error =
     (case bind_error of Some e \<Rightarrow> Inl e | None \<Rightarrow>
     (case nonblocking_error of Some e \<Rightarrow> Inl e | None \<Rightarrow>
     (case thread_error of Some e \<Rightarrow> Inl e | None \<Rightarrow> Inr ())))"

subsection \<open>Boot\<close>

text \<open>\<open>ho_threads\<close> is why one of the three threads of the runtime cannot be started, \<open>ho_signal\<close> the signal that cannot be caught.\<close>

record host =
  ho_env :: environment
  ho_locked :: "str \<Rightarrow> bool"
  ho_truncate :: bool
  ho_os :: os
  ho_directory :: "str \<Rightarrow> directory"
  ho_now :: nanos
  ho_stream_thread :: "str option"
  ho_threads :: "str option"
  ho_bind :: "str option"
  ho_nonblocking :: "str option"
  ho_control_thread :: "str option"
  ho_signal :: "(nat \<times> str) option"

datatype run_error =
    NotConfigured config_error | NotBooted boot_error | VenueUnreached venue_error | NoUserStream venue_error
  | NotStarted str | NoControlSocket str | NoSignal nat str | BootPanicked

datatype 'w started = OnSimulator "sim_venue process" | OnBinance "'w adapter process"

definition venue_step :: "(venue_error \<Rightarrow> run_error) \<Rightarrow> ('w, unit) adapter_op \<Rightarrow> 'w adapter \<Rightarrow> run_error + 'w adapter" where
  "venue_step on_error m a =
     (case m a of
        (Inr _, a') \<Rightarrow> Inr a' | (Inl (CallFailed e), _) \<Rightarrow> Inl (on_error e) | (Inl CallPanicked, _) \<Rightarrow> Inl BootPanicked)"

definition binance_up ::
  "('w, 'n) world_ops \<Rightarrow> str option \<Rightarrow> str \<Rightarrow> str \<Rightarrow> bool \<Rightarrow> u32 option \<Rightarrow> instrument list \<Rightarrow> 'w \<Rightarrow> run_error + 'w adapter" where
  "binance_up ops thread_error api_key secret demo leverage is w =
     (let creds = (if demo then credentials_demo api_key secret else credentials_production api_key secret) in
      res_bind (venue_step VenueUnreached (connect ops leverage) (adapter_new creds is w))
        (venue_step NoUserStream (start_stream thread_error)))"

definition runtime_start :: "str option \<Rightarrow> engine \<Rightarrow> 'v \<Rightarrow> process_config \<Rightarrow> run_error + 'v process" where
  "runtime_start thread_error e v c =
     (case thread_error of Some x \<Rightarrow> Inl (NotStarted x) | None \<Rightarrow> Inr (start e v (pc_sweep_interval c)))"

definition run :: "('w, 'n) world_ops \<Rightarrow> host \<Rightarrow> 'w \<Rightarrow> run_error + process_config \<times> 'w started" where
  "run ops host w =
     res_bind (map_err NotConfigured (from_env (ho_env host))) (\<lambda>c.
     res_bind (map_err NotBooted (boot (ho_locked host (pc_journal_dir c)) (ho_truncate host) (ho_os host)
         (ho_directory host (pc_journal_dir c)) (ho_now host) (engine_config c))) (\<lambda>e.
     res_bind (case pc_venue c of
         Simulator \<Rightarrow> res_bind (runtime_start (ho_threads host) e sim_new c) (\<lambda>p. Inr (OnSimulator p))
       | Config.Binance api_key secret demo leverage \<Rightarrow>
           res_bind (binance_up ops (ho_stream_thread host) api_key secret demo leverage (pc_instruments c) w) (\<lambda>venue.
           res_bind (runtime_start (ho_threads host) e venue c) (\<lambda>p. Inr (OnBinance p)))) (\<lambda>started.
     res_bind (map_err NoControlSocket (serve (ho_bind host) (ho_nonblocking host) (ho_control_thread host))) (\<lambda>_.
       case ho_signal host of Some (signal, x) \<Rightarrow> Inl (NoSignal signal x) | None \<Rightarrow> Inr (c, started)))))"

text \<open>
  The main thread after that: one poll reads the runtime's flag and the one the signals set. The number of sleeps
  before it asks the threads to stop, if it comes to that.
\<close>

fun wait_loop :: "(bool \<times> bool) list \<Rightarrow> nat option" where
  "wait_loop [] = None"
| "wait_loop ((running, terminate) # polls) =
     (if running \<and> \<not> terminate then map_option Suc (wait_loop polls) else Some 0)"

subsection \<open>Lemmas\<close>

text \<open>What one line gets for an answer and what it sends; the lines that are not blank; the connections of a run.\<close>

definition line_answer :: "'n json_lib \<Rightarrow> bool \<Rightarrow> str \<Rightarrow> answer \<times> command list" where
  "line_answer lib writer line =
     (case control_parse lib line of
        Inl e \<Rightarrow> (Refused e, []) | Inr command \<Rightarrow> if writer then (Taken, [command]) else (WriterStopped, []))"

definition line_answers :: "'n json_lib \<Rightarrow> line_read list \<Rightarrow> (answer \<times> command list) list" where
  "line_answers lib lines =
     map (\<lambda>ln. line_answer lib (ln_writer ln) (the (ln_text ln))) (filter (\<lambda>ln. trim (the (ln_text ln)) \<noteq> []) lines)"

definition connections :: "accept_turn list \<Rightarrow> line_read list list" where
  "connections turns = concat (map (\<lambda>t. case at_accept t of Connection lines \<Rightarrow> [lines] | _ \<Rightarrow> []) turns)"

definition readable :: "line_read list \<Rightarrow> bool" where
  "readable = list_all (\<lambda>ln. ln_text ln \<noteq> None \<and> ln_written ln)"

lemma handle_answers:
  "readable lines \<Longrightarrow> handle lib lines = (map fst (line_answers lib lines), concat (map snd (line_answers lib lines)))"
  by (induction lines) (auto simp: readable_def line_answers_def line_answer_def Let_def split: sum.splits prod.splits)

text \<open>What a call of the adapter leaves as it was.\<close>

definition only_world :: "'w adapter \<Rightarrow> 'w adapter \<Rightarrow> bool" where
  "only_world a a' \<longleftrightarrow> ad_credentials a' = ad_credentials a \<and> ad_instruments a' = ad_instruments a \<and>
     ad_symbols a' = ad_symbols a \<and> ad_events a' = ad_events a"

lemma only_world_preorder [simp]: "preorder_rel only_world"
  by (auto simp: preorder_rel_def only_world_def intro!: reflpI transpI)

lemmas only_world_intros = keeps_intros [where R = only_world, simplified]

lemma only_world_local: "keeps only_world (local_ms ops)"
  by (auto simp: keeps_def local_ms_def only_world_def split: prod.splits)

lemma only_world_http: "keeps only_world (http_run ops status_errors m url keyed)"
  by (auto simp: keeps_def http_run_def only_world_def split: prod.splits)

lemma only_world_attempt: "keeps R m \<Longrightarrow> keeps R (attempt m)"
  unfolding keeps_def attempt_def by (auto split: prod.splits sum.splits call_failure.splits) (metis snd_conv)+

lemma only_world_json: "keeps only_world (read_json ops s)"
  by (auto simp: read_json_def intro: only_world_intros split: sum.split)

lemma only_world_send: "keeps only_world (send_request ops m path query keyed)"
  unfolding send_request_def read_error_body_def Let_def
  by (auto intro!: only_world_intros only_world_http only_world_json split: http.split)

lemma only_world_signed: "keeps only_world (signed_call ops m path query)"
  unfolding signed_call_def by (auto intro!: only_world_intros only_world_local only_world_send simp: Let_def)

lemma only_world_times: "(\<And>x. keeps only_world (f x)) \<Longrightarrow> keeps only_world (op_times n f x)"
  by (induction n arbitrary: x) (auto intro!: only_world_intros)

lemma only_world_sync: "keeps only_world (sync_clock ops)"
proof -
  have "keeps only_world (clock_sample ops x)" for x
    by (cases x) (auto simp: clock_sample_def public_call_def intro!: only_world_intros only_world_local only_world_attempt only_world_send
        split: sum.split option.split simp: Let_def)
  moreover have "only_world a (a\<lparr>ad_clock := t\<rparr>)" for a :: "'a adapter" and t by (simp add: only_world_def)
  ultimately show ?thesis
    unfolding sync_clock_def by (auto intro!: only_world_intros only_world_times split: option.split prod.split)
qed

lemma only_world_settings: "keeps only_world (set_one_way_mode ops)" "keeps only_world (set_leverage ops l)"
  unfolding set_one_way_mode_def set_leverage_def
  by (auto intro!: only_world_intros only_world_attempt only_world_signed)

lemma load_symbol_names:
  assumes "load_symbol ops i a = (Inr rules, a')"
  shows "only_world a a'" "inline_wf 16 i \<Longrightarrow> sy_symbol rules = i"
proof -
  have "keeps only_world (load_symbol ops i)"
    unfolding load_symbol_def public_call_def Let_def
    by (auto intro!: only_world_intros only_world_send split: option.split)
  from keepsD [OF this assms] show "only_world a a'" .
  obtain row where "json_text (lit ''symbol'') row = Some (as_str i)" "parse_symbol_rules (wo_json ops) row = Inr rules"
  proof -
    obtain v a1 where "(let rows = (case Option.bind (json_get (lit ''symbols'') v) json_array of Some rows \<Rightarrow> rows | None \<Rightarrow> []) in
           (case find (\<lambda>row. json_text (lit ''symbol'') row = Some (as_str i)) rows of
              None \<Rightarrow> op_err (CallFailed (MalformedResponse (as_str i @ lit '' is not listed'')))
            | Some row \<Rightarrow> op_lift (map_err CallFailed (parse_symbol_rules (wo_json ops) row)))) a1 = (Inr rules, a')"
      using assms unfolding load_symbol_def op_bind_Inr by (elim exE conjE) (auto split: option.splits)
    then show thesis using that by (auto simp: Let_def find_Some_iff split: option.splits)
  qed
  then show "inline_wf 16 i \<Longrightarrow> sy_symbol rules = i"
    by (auto simp: parse_symbol_rules_def row_symbol_def inline_new_as_str Let_def)
qed

definition has_rules :: "instrument list \<Rightarrow> 'w adapter \<Rightarrow> bool" where
  "has_rules is a \<longleftrightarrow> (\<forall>i \<in> set is. inline_wf 16 i \<longrightarrow> (\<exists>rules. hm_get (ad_symbols a) i = Some rules \<and> sy_symbol rules = i))"

lemma has_rules_only_world: "only_world a a' \<Longrightarrow> has_rules is a' = has_rules is a"
  by (simp add: has_rules_def only_world_def)

lemma load_symbols_all:
  "load_symbols ops is a = (Inr (), a') \<Longrightarrow> has_rules done a \<Longrightarrow>
   has_rules (done @ is) a' \<and> ad_credentials a' = ad_credentials a \<and> ad_instruments a' = ad_instruments a \<and> ad_events a' = ad_events a"
proof (induction "is" arbitrary: a "done")
  case Nil
  then show ?case by (simp add: load_symbols_def)
next
  case (Cons i "is")
  then obtain rules a1 where load: "load_symbol ops i a = (Inr rules, a1)"
    and rest: "load_symbols ops is (a1\<lparr>ad_symbols := symbols_insert rules (ad_symbols a1)\<rparr>) = (Inr (), a')"
    by (auto simp: load_symbols_def op_seq_Inr op_bind_Inr)
  note names = load_symbol_names [OF load]
  have "has_rules (done @ [i]) (a1\<lparr>ad_symbols := symbols_insert rules (ad_symbols a1)\<rparr>)"
    using Cons.prems(2) names by (auto simp: only_world_def has_rules_def symbols_insert_def)
  from Cons.IH [OF rest this] show ?case using names(1) by (simp add: only_world_def)
qed

lemma connect_ready:
  assumes "connect ops leverage (adapter_new creds is w) = (Inr (), a)"
  shows "has_rules is a \<and> ad_credentials a = creds \<and> ad_instruments a = is"
proof -
  obtain a1 a2 where s: "sync_clock ops (adapter_new creds is w) = (Inr (), a1)"
    and l: "load_symbols ops (ad_instruments a1) a1 = (Inr (), a2)"
    and r: "op_seq (set_one_way_mode ops) (case leverage of Some l \<Rightarrow> set_leverage ops l | None \<Rightarrow> op_ok ()) a2 = (Inr (), a)"
    using assms unfolding connect_def op_seq_Inr op_read_eq by auto
  have 1: "only_world (adapter_new creds is w) a1" by (rule keepsD [OF only_world_sync s])
  have "keeps only_world (op_seq (set_one_way_mode ops) (case leverage of Some l \<Rightarrow> set_leverage ops l | None \<Rightarrow> op_ok ()))"
    by (auto intro!: only_world_intros only_world_settings split: option.split)
  from keepsD [OF this r] have 3: "only_world a2 a" .
  show ?thesis
    using load_symbols_all [OF l, of "[]"] 1 has_rules_only_world [OF 3] 3
    by (simp add: only_world_def adapter_new_def has_rules_def)
qed

lemma venue_step_Inr: "venue_step on_error m a = Inr a' \<longleftrightarrow> m a = (Inr (), a')"
  by (auto simp: venue_step_def split: prod.splits sum.splits call_failure.splits)

lemma start_stream_Inr: "start_stream thread_error a = (Inr (), a') \<longleftrightarrow> thread_error = None \<and> a' = a\<lparr>ad_events := Some []\<rparr>"
  by (auto simp: start_stream_def split: option.splits)

lemma binance_up_ready:
  assumes "binance_up ops thread_error api_key secret demo leverage is w = Inr a"
  shows "has_rules is a \<and> ad_instruments a = is \<and> ad_events a = Some [] \<and>
    ad_credentials a = (if demo then credentials_demo api_key secret else credentials_production api_key secret)"
proof -
  let ?creds = "if demo then credentials_demo api_key secret else credentials_production api_key secret"
  obtain a1 where "connect ops leverage (adapter_new ?creds is w) = (Inr (), a1)" "a = a1\<lparr>ad_events := Some []\<rparr>"
    using assms by (auto simp: binance_up_def venue_step_Inr start_stream_Inr Let_def)
  then show ?thesis using connect_ready [of ops leverage ?creds "is" w a1] by (simp add: has_rules_def)
qed

text \<open>The engine a boot returns, whatever was on disk.\<close>

lemma boot_engine:
  assumes "boot locked can_truncate os dir now cfg = Inr e"
  shows "report_holds (invariants_check (en_book e)) \<and> en_uncommitted e = [] \<and> en_reconciling e = [] \<and>
    \<not> en_position_confirmed e \<and> en_config e = cfg \<and> en_halted e = bk_halted (en_book e) \<and>
    journal_claim locked can_truncate os dir now = Inr (en_journal e)"
  using assms by (auto simp: boot_def engine_open_def Let_def split: if_splits)

lemma run_Inr:
  assumes "run ops host w = Inr (c, started)"
  obtains e where "from_env (ho_env host) = Inr c"
    "boot (ho_locked host (pc_journal_dir c)) (ho_truncate host) (ho_os host) (ho_directory host (pc_journal_dir c)) (ho_now host)
      (engine_config c) = Inr e"
    "case started of
       OnSimulator p \<Rightarrow> pc_venue c = Simulator \<and> p = start e sim_new (pc_sweep_interval c)
     | OnBinance p \<Rightarrow> \<exists>api_key secret demo leverage. pc_venue c = Config.Binance api_key secret demo leverage \<and>
         binance_up ops (ho_stream_thread host) api_key secret demo leverage (pc_instruments c) w = Inr (pr_venue p) \<and>
         p = start e (pr_venue p) (pc_sweep_interval c)"
proof -
  obtain e where e: "from_env (ho_env host) = Inr c"
    "boot (ho_locked host (pc_journal_dir c)) (ho_truncate host) (ho_os host) (ho_directory host (pc_journal_dir c)) (ho_now host)
      (engine_config c) = Inr e"
    and v: "(case pc_venue c of
         Simulator \<Rightarrow> res_bind (runtime_start (ho_threads host) e sim_new c) (\<lambda>p. Inr (OnSimulator p))
       | Config.Binance api_key secret demo leverage \<Rightarrow>
           res_bind (binance_up ops (ho_stream_thread host) api_key secret demo leverage (pc_instruments c) w) (\<lambda>venue.
           res_bind (runtime_start (ho_threads host) e venue c) (\<lambda>p. Inr (OnBinance p)))) = Inr started"
    using assms unfolding run_def res_bind_Inr map_err_simps by (auto split: option.splits)
  have rt: "runtime_start t e venue c = Inr p \<longleftrightarrow> t = None \<and> p = start e venue (pc_sweep_interval c)" for t p and venue :: 'z
    by (auto simp: runtime_start_def split: option.splits)
  show thesis
    by (rule that [OF e], use v in \<open>cases "pc_venue c"\<close>) (auto simp: rt start_def)
qed

text \<open>A directory a claim can take over: nothing yet, or a log whose last write may have been torn.\<close>

definition log_on_disk :: "directory \<Rightarrow> bool" where
  "log_on_disk dir \<longleftrightarrow> dir = [] \<or> (\<exists>segs b file torn. dir = segs @ [(b, file @ torn)] \<and> chain 1 (segs @ [(b, file)]) \<and> scan_frame torn = None)"

lemma claim_fresh:
  assumes "os_works os"
  shows "\<exists>j. journal_claim False can_truncate os [] now = Inr j \<and> journal_ok j"
proof -
  let ?j = "reopened (epoch_next 0) (seq_next 0) [] (seq_next 0) (encode_segment_header (seq_next 0) now)
     \<lparr>cr_epoch = epoch_next 0, cr_resumed_from = 0, cr_existing_records = 0, cr_truncated_bytes = 0\<rparr>"
  let ?payload = "to_le_bytes 8 (epoch_next 0) @ to_le_bytes 8 (0 :: seq)"
  have one: "seq_next 0 = 1" by (simp add: seq_next_def saturating_add_u64_def)
  have "journal_ok ?j" unfolding one by (rule reopened_ok) (simp_all add: segment_ok_fresh)
  from append_flush_ok [OF this, of ?payload os KEpochClaimed now] assms obtain x j where
    "op_seq (journal_append KEpochClaimed now ?payload) (journal_flush os) ?j = (Inr x, j)" "journal_ok j"
    by (auto simp: MAX_PAYLOAD_def)
  then show ?thesis
    using assms by (simp add: journal_claim_def Let_def os_works_def reopened_def segment_header_length SEGMENT_HEADER_LEN_def)
qed

lemma claim_log:
  assumes "log_on_disk dir" "os_works os" "journal_claim locked True os dir now = Inr j"
  shows "journal_ok j"
proof -
  have locked: "locked = False" using assms(3) by (auto simp: journal_claim_def split: if_splits)
  from assms(1)[unfolded log_on_disk_def] show ?thesis
  proof (elim disjE exE conjE)
    assume "dir = []"
    then show ?thesis using claim_fresh [OF assms(2), of True now] assms(3) locked by auto
  next
    fix segs b "file" torn
    assume "dir = segs @ [(b, file @ torn)]" "chain 1 (segs @ [(b, file)])" "scan_frame torn = None"
    then show ?thesis using claim_ok [of segs b "file" torn os now] assms(2,3) locked by auto
  qed
qed

definition submits_once :: "'v process \<Rightarrow> bool" where
  "submits_once p \<longleftrightarrow> distinct (map in_client_order_id (submits (pr_performed p))) \<and>
    (\<forall>i \<in> set (submits (pr_performed p)). logged i (durable_frames (en_journal (pr_engine p))))"

lemma started_submits_once:
  assumes "journal_ok (en_journal e0)" "en_uncommitted e0 = []" "reaches ops tick sweep (start e0 v sweep) p"
  shows "submits_once p"
proof -
  obtain as lost where run: "executes e0 as (pr_engine p) (pr_performed p @ pr_requests p @ lost)"
    using one_writer_reaches [OF assms(3)] by (auto simp: one_writer_def)
  from executes_accounted [OF run assms(1,2)] show ?thesis by (auto simp: accounted_def submits_once_def)
qed

subsection \<open>Properties\<close>

text \<open>
  C30: every line on the control socket gets an answer, and only what was accepted is sent. As long as the socket is
  served and its connections can be read and written, each connection is answered once for each line that is not
  blank, in order: a refusal with its reason for a line that is no command, and otherwise whether the writer took
  it; what reaches the writer is exactly the commands so answered, in the order they came. A stop after that ends
  the loop and removes the socket.
\<close>

theorem every_line_is_answered:
  assumes "list_all (\<lambda>t. at_running t \<and> at_accept t \<noteq> AcceptFailed) turns" "list_all readable (connections turns)" "\<not> at_running stop"
  shows "serve_loop lib (turns @ stop # later) =
    (map (\<lambda>lines. map fst (line_answers lib lines)) (connections turns),
     concat (map (\<lambda>lines. concat (map snd (line_answers lib lines))) (connections turns)), True)"
  using assms
proof (induction turns)
  case (Cons t turns)
  then show ?case by (cases "at_accept t") (auto simp: connections_def handle_answers)
qed (simp add: connections_def)

theorem every_line_is_answered_witness:
  "serve_loop (sample_lib sample_line)
     [\<lparr>at_running = True, at_accept = WouldBlock\<rparr>,
      \<lparr>at_running = True, at_accept = Connection
        [\<lparr>ln_text = Some [32], ln_writer = True, ln_written = True\<rparr>, \<lparr>ln_text = Some [65], ln_writer = True, ln_written = True\<rparr>]\<rparr>,
      \<lparr>at_running = False, at_accept = WouldBlock\<rparr>] = ([[Taken]], [Place sample_placement], True)"
proof -
  let ?lines = "[\<lparr>ln_text = Some [32], ln_writer = True, ln_written = True\<rparr>, \<lparr>ln_text = Some [65], ln_writer = True, ln_written = True\<rparr>]"
  have "control_parse (sample_lib sample_line) [65] = Inr (Place sample_placement)"
    using sample_line_parses by (simp add: control_parse_def sample_lib_def)
  moreover have "trim [32] = []" "trim [65] \<noteq> []" by code_simp+
  ultimately have "line_answers (sample_lib sample_line) ?lines = [(Taken, [Place sample_placement])]"
    by (simp add: line_answers_def line_answer_def)
  then show ?thesis
    using every_line_is_answered [of "[\<lparr>at_running = True, at_accept = WouldBlock\<rparr>, \<lparr>at_running = True, at_accept = Connection ?lines\<rparr>]"
        "\<lparr>at_running = False, at_accept = WouldBlock\<rparr>" "sample_lib sample_line" "[]"]
    by (simp add: connections_def readable_def)
qed


text \<open>The demonstration venue, listing the one instrument, over the directory a process left behind.\<close>

definition sample_row :: "i64 json" where
  "sample_row = JObject [(lit ''symbol'', JString (lit ''BTCUSDT'')), (lit ''filters'', JArray
     [JObject [(lit ''filterType'', JString (lit ''LOT_SIZE'')), (lit ''stepSize'', JString (lit ''0.001''))]])]"

definition sample_listing :: "i64 json" where
  "sample_listing = JObject [(lit ''serverTime'', JNumber 9), (lit ''symbols'', JArray [sample_row])]"

definition demo_env :: environment where
  "demo_env = map_of [(lit ''SENTINEL_VENUE'', lit ''binance''), (lit ''BINANCE_API_KEY'', lit ''k''), (lit ''BINANCE_API_SECRET'', lit ''s'')]"

definition sample_host :: host where
  "sample_host =
     \<lparr>ho_env = demo_env,
      ho_locked = (\<lambda>_. False), ho_truncate = True, ho_os = sample_os,
      ho_directory = (\<lambda>_. disk (en_journal (snd (engine_flush sample_os sample_engine)))), ho_now = 9,
      ho_stream_thread = None, ho_threads = None, ho_bind = None, ho_nonblocking = None, ho_control_thread = None, ho_signal = None\<rparr>"

definition sample_config :: process_config where
  "sample_config =
     \<lparr>pc_journal_dir = lit ''/data/journal'', pc_instruments = [inline_or_default 16 (lit ''BTCUSDT'')],
      pc_venue = Config.Binance (lit ''k'') (lit ''s'') True None, pc_max_position = None,
      pc_tick_interval = millis 250, pc_sweep_interval = seconds 30, pc_stale_after = seconds 120, pc_tick_write_after = seconds 5\<rparr>"

lemma sample_host_config: "from_env demo_env = Inr sample_config"
proof -
  have "parse_instruments (symbol_list demo_env) = Inr [inline_or_default 16 (lit ''BTCUSDT'')]" by code_simp
  moreover have "env_venue demo_env = Inr (Config.Binance (lit ''k'') (lit ''s'') True None)" by code_simp
  moreover have "demo_env (lit ''SENTINEL_MAX_POSITION'') = None"
    "demo_env (lit ''SENTINEL_TICK_WRITE_AFTER'') = None" "demo_env (lit ''SENTINEL_JOURNAL'') = None"
    by code_simp+
  ultimately show ?thesis by (simp add: from_env_def Let_def sample_config_def)
qed

lemma sample_listing_reads:
  "integer (wo_json (sample_world (Reply []) sample_listing)) (json_field (lit ''serverTime'') sample_listing) = Some 9"
  "Option.bind (json_get (lit ''symbols'') sample_listing) json_array = Some [sample_row]"
  "json_text (lit ''symbol'') sample_row = Some (lit ''BTCUSDT'')" "as_str (inline_or_default 16 (lit ''BTCUSDT'')) = lit ''BTCUSDT''"
  "is_ok (parse_symbol_rules (wo_json (sample_world (Reply []) sample_listing)) sample_row)"
  "is_some (sync_round_trip 9 7 7)"
  by code_simp+

definition demo_world :: "(unit, i64) world_ops" where
  "demo_world = sample_world (Reply []) sample_listing"

lemma demo_world_answers:
  "public_call demo_world path query a = (Inr (Some sample_listing), a)" "local_ms demo_world a = (Inr 7, a)"
  "signed_call demo_world m path' query a = (Inr (Some sample_listing), a)"
  by (simp_all add: public_call_def signed_call_def local_ms_def send_request_def http_run_def read_json_def demo_world_def
      sample_world_def op_bind_def op_read_def op_ok_def Let_def)

lemma demo_world_connects:
  "\<exists>a. connect demo_world None (adapter_new creds [inline_or_default 16 (lit ''BTCUSDT'')] ()) = (Inr (), a)"
proof -
  let ?i = "inline_or_default 16 (lit ''BTCUSDT'')"
  obtain offset where offset: "sync_round_trip 9 7 7 = Some offset" using sample_listing_reads(6) by (auto simp: is_some_def split: option.splits)
  have sample: "clock_sample demo_world (best, None) a = (Inr (if best = None then Some (0, 9, 7, 7) else best, None), a)"
    if "best \<in> {None, Some (0, 9, 7, 7)}" for best a
    using that sample_listing_reads(1)
    by (auto simp: clock_sample_def op_bind_def demo_world_answers attempt_def demo_world_def [symmetric] op_ok_def saturating_sub_u64_def)
  then have "op_times 5 (clock_sample demo_world) (None, None) a = (Inr (Some (0, 9, 7, 7), None), a)" for a
    by (simp add: eval_nat_numeral op_bind_def op_ok_def)
  then have sync: "sync_clock demo_world a = (Inr (), a\<lparr>ad_clock := offset\<rparr>)" for a
    by (simp add: sync_clock_def op_bind_def offset op_modify_def)
  obtain rules where "parse_symbol_rules (wo_json demo_world) sample_row = Inr rules"
    using sample_listing_reads(5) by (auto simp: is_ok_def demo_world_def split: sum.splits)
  then have load: "load_symbol demo_world ?i a = (Inr rules, a)" for a
    using sample_listing_reads(2-4) by (simp add: load_symbol_def op_bind_def demo_world_answers op_lift_def)
  have "set_one_way_mode demo_world a = (Inr (), a)" for a
    by (simp add: set_one_way_mode_def op_seq_def op_bind_def attempt_def demo_world_answers op_ok_def)
  then show ?thesis
    by (simp add: connect_def op_seq_def op_bind_def sync op_read_def load_symbols_def load op_modify_def op_ok_def adapter_new_def)
qed

lemma sample_boot:
  "\<exists>e. boot False True sample_os (disk (en_journal (snd (engine_flush sample_os sample_engine)))) now cfg = Inr e"
proof -
  obtain k b e where e: "engine_open False True sample_os (disk (en_journal (snd (engine_flush sample_os sample_engine)))) now cfg = Inr e"
    "rebuilt (durable_frames sample_journal @ take k (pending_frames sample_journal)) = Inr b" "same_account b (en_book e)"
    using open_after_flush [OF sample_sound _ _ sample_os_works, of sample_os now cfg]
    by (auto simp: full_def sample_journal_def reopened_def log_frames_def sample_journal_ok [unfolded sample_journal_def reopened_def])
  have "b = book_new" using e(2) by (simp add: sample_journal_ok rebuilt_def rebuild_def)
  with e(3) have "report_holds (invariants_check (en_book e))"
    by (simp add: same_account_def book_new_def report_holds_def invariants_check_def check_positions_equal_fills_def
      check_no_overfill_def check_exits_bounded_def check_orders_are_traced_def check_flat_means_flat_def fill_sums_def
      all_positions_def all_fills_def book_orders_def live_orders_def hm_sorted_def filter_map_def List.map_filter_simps)
  then show ?thesis using e(1) by (simp add: boot_def)
qed


end
