(* ===== verification/Messages.thy ===== *)
theory Messages
  imports Sentineld Segments
begin

text \<open>
  The texts a person or a client reads: what the errors of every crate display, the report of the invariant check,
  the answers on the control socket, and the line \<open>sentineld\<close> ends with when it does not start. Texts that come from
  outside are arguments: the operating system's description of a failed call, the quoting of \<open>{:?}\<close> (\<open>debug\<close>), and how
  the JSON crate writes a string (\<open>quote\<close>).

  Shown here: a client can tell an accepted line from every other by its answer, an operator can tell a sound book
  from every other by the report, a boot that fails says at which step; and a refused overfill names a total a hundred
  million times too large.
\<close>

subsection \<open>Values\<close>

definition parse_error_text :: "parse_error \<Rightarrow> str" where
  "parse_error_text e =
     (case e of
        Empty \<Rightarrow> lit ''empty'' | Malformed \<Rightarrow> lit ''malformed decimal'' | TooPrecise \<Rightarrow> lit ''more than 8 decimal places''
      | OutOfRange \<Rightarrow> lit ''out of range for i64 at 1e8'')"

definition overflow_text :: "overflow \<Rightarrow> str" where
  "overflow_text e = lit ''fixed-point overflow''"

definition too_long_text :: "too_long \<Rightarrow> str" where
  "too_long_text e = (case e of TooLong len capacity \<Rightarrow> dec len @ lit '' bytes exceeds capacity '' @ dec capacity)"

definition trace_id_text :: "trace_id \<Rightarrow> str" where
  "trace_id_text t = hex_padded 32 (unat t)"

definition unknown_discriminant_text :: "unknown_discriminant \<Rightarrow> str" where
  "unknown_discriminant_text e =
     (case e of UnknownDiscriminant type_name val \<Rightarrow> dec (unat val) @ lit '' is not a valid '' @ lit type_name)"

definition reject_reason_text :: "reject_reason \<Rightarrow> str" where
  "reject_reason_text r = lit ''['' @ dec_int (sint (rr_code r)) @ lit ''] '' @ as_str (rr_text r)"

definition product_error_text :: "product_error \<Rightarrow> str" where
  "product_error_text e =
     (case e of
        NonPositiveIncrement \<Rightarrow> lit ''multiplier, tick and lot must be positive''
      | ExpirationContradictsKind \<Rightarrow> lit ''a perpetual cannot expire, and a dated contract must''
      | ExerciseContradictsKind \<Rightarrow> lit ''an option needs an exercise style, and a future cannot have one''
      | ExpiresBeforeListing \<Rightarrow> lit ''expiry precedes listing'')"

subsection \<open>The lifecycle, the log and the book\<close>

definition state_text :: "order_state \<Rightarrow> str" where
  "state_text = wire_as_str order_state_table"

definition kind_text :: "event_kind \<Rightarrow> str" where
  "kind_text = wire_as_str event_kind_table"

definition transition_error_text :: "transition_error \<Rightarrow> str" where
  "transition_error_text e =
     (case e of
        Illegal from event (Some to) \<Rightarrow>
          kind_text event @ lit '' in '' @ state_text from @ lit '': '' @ state_text from @ lit '' -> '' @ state_text to @ lit '' is not allowed''
      | Illegal from event None \<Rightarrow> kind_text event @ lit '' in '' @ state_text from @ lit '' is not allowed''
      | RequiresReconciliation state event \<Rightarrow> kind_text event @ lit '' in '' @ state_text state @ lit ''; reconcile before applying''
      | Overfill ordered filled attempted \<Rightarrow>
          lit ''fill of '' @ format_e8 attempted @ lit '' takes filled to '' @ dec_i64 (saturating_add_i64 filled attempted) @
          lit '' on an order of '' @ format_e8 ordered
      | NonPositiveFill qty \<Rightarrow> lit ''fill qty must be positive, got '' @ format_e8 qty
      | TOverflow \<Rightarrow> lit ''quantity arithmetic overflowed'')"

definition codec_error_text :: "codec_error \<Rightarrow> str" where
  "codec_error_text e =
     (case e of
        Truncated want have' \<Rightarrow> lit ''record wants '' @ dec want @ lit '' more bytes, '' @ dec have' @ lit '' remain''
      | BadDiscriminant u \<Rightarrow> unknown_discriminant_text u
      | Codec.BadText \<Rightarrow> lit ''padded text is not a valid inline string''
      | BadFlag val \<Rightarrow> lit ''flag byte '' @ dec (unat val) @ lit '' is neither 0 nor 1''
      | TrailingBytes extra \<Rightarrow> dec extra @ lit '' bytes remain after the record'')"

text \<open>\<open>{:#010x}\<close>.\<close>

definition checksum_text :: "u32 \<Rightarrow> str" where
  "checksum_text c = lit ''0x'' @ hex_padded 8 (unat c)"

definition format_error_text :: "format_error \<Rightarrow> str" where
  "format_error_text e =
     (case e of
        NotAJournal \<Rightarrow> lit ''not a sentinel journal segment''
      | UnsupportedVersion found \<Rightarrow> lit ''journal format version '' @ dec (unat found) @ lit '', expected '' @ dec (unat VERSION)
      | FPayloadTooLarge len \<Rightarrow> lit ''frame claims '' @ dec (unat len) @ lit '' payload bytes, over the '' @ dec MAX_PAYLOAD @ lit '' cap''
      | FTruncated want have' \<Rightarrow> lit ''frame claims '' @ dec want @ lit '' payload bytes, '' @ dec have' @ lit '' available''
      | ChecksumMismatch stored computed \<Rightarrow>
          lit ''checksum '' @ checksum_text stored @ lit '' does not match '' @ checksum_text computed
      | UnknownKind kind \<Rightarrow> lit ''record kind '' @ dec (unat kind) @ lit '' is not known'')"

text \<open>\<open>source\<close>: what the operating system says of a failed call; \<open>dir\<close>: the journal's directory.\<close>

definition journal_error_text :: "str \<Rightarrow> str \<Rightarrow> journal_error \<Rightarrow> str" where
  "journal_error_text source dir e =
     (case e of
        JIo doing \<Rightarrow> lit doing @ lit '': '' @ source
      | JFormat e \<Rightarrow> format_error_text e
      | AlreadyClaimed \<Rightarrow> lit ''journal at '' @ dir @ lit '' is held by another writer''
      | SequenceGap expected found \<Rightarrow> lit ''journal skips from '' @ dec (unat expected) @ lit '' to '' @ dec (unat found)
      | JPayloadTooLarge len \<Rightarrow> dec len @ lit '' bytes exceeds the record payload cap''
      | Poisoned doing \<Rightarrow> lit ''journal is poisoned: '' @ lit doing @ lit '' failed and cannot be retried'')"

definition ledger_error_text :: "('j \<Rightarrow> str) \<Rightarrow> 'j ledger_error \<Rightarrow> str" where
  "ledger_error_text journal_text e =
     (case e of
        LJournal e \<Rightarrow> lit ''journal: '' @ journal_text e
      | LCodec seq source \<Rightarrow> lit ''record '' @ dec (unat seq) @ lit '': '' @ codec_error_text source
      | UnknownOrder c \<Rightarrow> as_str c @ lit '': no intent for this order''
      | Transition c source \<Rightarrow> as_str c @ lit '': '' @ transition_error_text source
      | PositionOverflow i \<Rightarrow> as_str i @ lit '': position arithmetic overflowed''
      | StateDisagrees c recorded held \<Rightarrow>
          as_str c @ lit '': the log says '' @ state_text recorded @ lit '', this build says '' @ state_text held)"

definition engine_error_text :: "str \<Rightarrow> str \<Rightarrow> engine_error \<Rightarrow> str" where
  "engine_error_text source dir e =
     (case e of
        EJournal e \<Rightarrow> lit ''journal: '' @ journal_error_text source dir e
      | ELedger e \<Rightarrow> lit ''ledger: '' @ ledger_error_text (journal_error_text source dir) e)"

definition violation_text :: "violation \<Rightarrow> str" where
  "violation_text v =
     (case v of
        PositionDisagreesWithFills i position fills \<Rightarrow>
          as_str i @ lit '': position '' @ format_e8 position @ lit '' but fills sum to '' @ format_e8 fills
      | OrderOverfilled c ordered filled \<Rightarrow>
          as_str c @ lit '': filled '' @ format_e8 filled @ lit '' against an order of '' @ format_e8 ordered
      | ExitsExceedPosition i exits position \<Rightarrow>
          as_str i @ lit '': '' @ format_e8 exits @ lit '' of live exits against a position of '' @ format_e8 position
      | UntracedOrder c \<Rightarrow> as_str c @ lit '': no trace id''
      | BasisWithoutPosition i basis \<Rightarrow> as_str i @ lit '': cost basis '' @ format_e8 basis @ lit '' on a flat position'')"

definition report_text :: "report \<Rightarrow> str" where
  "report_text r =
     (if report_holds r then lit ''all invariants hold'' else join (lit ''; '') (map violation_text (rp_violations r)))"

subsection \<open>The venue, the configuration and the socket\<close>

definition venue_error_text :: "venue_error \<Rightarrow> str" where
  "venue_error_text e =
     (case e of
        Transport m \<Rightarrow> lit ''transport: '' @ m
      | MalformedResponse m \<Rightarrow> lit ''malformed venue response: '' @ m
      | Unauthorized \<Rightarrow> lit ''venue refused our credentials''
      | RateLimited (Some t) \<Rightarrow> lit ''rate limited, retry after '' @ dec (unat t) @ lit ''ns''
      | RateLimited None \<Rightarrow> lit ''rate limited'')"

definition credentials_text :: "credentials \<Rightarrow> str" where
  "credentials_text c = lit ''binance('' @ cd_rest_base c @ lit '')''"

definition credentials_debug :: "credentials \<Rightarrow> str" where
  "credentials_debug c = lit ''Credentials('' @ cd_rest_base c @ lit '')''"

definition config_error_text :: "(str \<Rightarrow> str) \<Rightarrow> config_error \<Rightarrow> str" where
  "config_error_text debug e =
     (case e of
        ConfigMissing name \<Rightarrow> lit name @ lit '' is not set''
      | ConfigInvalid name cause \<Rightarrow> lit name @ lit '': '' @
          (case cause of
             BadSymbol symbol e \<Rightarrow> symbol @ lit '': '' @ too_long_text e
           | BadLeverage s \<Rightarrow> debug s @ lit '' is not a leverage between 1 and 125''
           | BadQuantity e \<Rightarrow> parse_error_text e
           | NotSeconds \<Rightarrow> lit ''expects whole seconds''))"

definition malformed_text :: "(str \<Rightarrow> str) \<Rightarrow> malformed \<Rightarrow> str" where
  "malformed_text debug e =
     (case e of
        NotJson m \<Rightarrow> m
      | MissingField name \<Rightarrow> lit ''missing '' @ name
      | BadSide other \<Rightarrow> lit ''side '' @ debug other
      | Control.BadText e \<Rightarrow> too_long_text e
      | BadIntent e \<Rightarrow> intent_error_text e
      | BadValue e \<Rightarrow> parse_error_text e
      | UnknownOp other \<Rightarrow> lit ''unknown op '' @ debug other)"

text \<open>The double quote is the byte 34.\<close>

definition answer_line :: "(str \<Rightarrow> str) \<Rightarrow> (str \<Rightarrow> str) \<Rightarrow> answer \<Rightarrow> str" where
  "answer_line debug quote a =
     (case a of
        Taken \<Rightarrow> lit ''{'' @ 34 # lit ''ok'' @ 34 # lit '':true}''
      | WriterStopped \<Rightarrow> lit ''{'' @ 34 # lit ''ok'' @ 34 # lit '':false,'' @ 34 # lit ''error'' @ 34 # lit '':'' @
          34 # lit ''the writer has stopped'' @ 34 # lit ''}''
      | Refused e \<Rightarrow> lit ''{'' @ 34 # lit ''ok'' @ 34 # lit '':false,'' @ 34 # lit ''error'' @ 34 # lit '':'' @
          quote (malformed_text debug e) @ lit ''}'')"

text \<open>The line a boot that fails ends with. A panic prints its own.\<close>

definition run_error_text :: "(str \<Rightarrow> str) \<Rightarrow> str \<Rightarrow> process_config \<Rightarrow> run_error \<Rightarrow> str" where
  "run_error_text debug source c e =
     (case e of
        NotConfigured e \<Rightarrow> config_error_text debug e
      | NotBooted (CannotClaim e) \<Rightarrow> lit ''cannot claim '' @ pc_journal_dir c @ lit '': '' @ engine_error_text source (pc_journal_dir c) e
      | NotBooted (UnsoundBook report) \<Rightarrow> lit ''the rebuilt book is unsound: '' @ report_text report
      | VenueUnreached e \<Rightarrow> lit ''cannot reach the venue: '' @ venue_error_text e
      | NoUserStream e \<Rightarrow> lit ''cannot open the user stream: '' @ venue_error_text e
      | NotStarted e \<Rightarrow> e
      | NoControlSocket e \<Rightarrow> lit ''cannot open the control socket: '' @ e
      | NoSignal signal e \<Rightarrow> lit ''cannot handle signal '' @ dec signal @ lit '': '' @ e
      | BootPanicked \<Rightarrow> [])"

subsection \<open>Properties\<close>

lemma lit_colon: "lit (CHR '':'' # s) = 58 # lit s"
  by (simp add: lit_def)

lemma violation_text_colon: "58 \<in> set (violation_text v)"
  unfolding violation_text_def lit_colon by (cases v) simp_all

text \<open>An operator who reads that all invariants hold reads it of a book that holds them, and of no other.\<close>

theorem report_text_exact: "report_text r = lit ''all invariants hold'' \<longleftrightarrow> report_holds r"
proof (cases "rp_violations r")
  case (Cons v vs)
  have "58 \<in> set (join (lit ''; '') (map violation_text (v # vs)))"
    using violation_text_colon [of v] by (cases vs) simp_all
  moreover have "58 \<notin> set (lit ''all invariants hold'')" by code_simp
  ultimately show ?thesis unfolding report_text_def report_holds_def Cons by force
qed (simp add: report_text_def report_holds_def)

text \<open>Whatever the JSON crate writes for a text, an accepted line is answered as no other is.\<close>

theorem accepted_is_unmistakable: "answer_line debug quote a = answer_line debug quote Taken \<longleftrightarrow> a = Taken"
  by (cases a) (auto simp: answer_line_def lit_def)

text \<open>What is printed of the credentials tells neither key nor secret.\<close>

theorem credentials_stay_secret:
  "credentials_text (c\<lparr>cd_api_key := k, cd_secret := s\<rparr>) = credentials_text c \<and>
   credentials_debug (c\<lparr>cd_api_key := k, cd_secret := s\<rparr>) = credentials_debug c"
  by (simp add: credentials_text_def credentials_debug_def)

text \<open>
  The total of a refused overfill is printed as the raw integer at 1e8 beside two decimals: a fill of 1 on an order of 1
  that is filled by 1 is said to take it to 200000000.
\<close>

theorem overfill_total_is_raw:
  "transition_error_text (Overfill 100000000 100000000 100000000) =
     lit ''fill of 1 takes filled to 200000000 on an order of 1''"
proof -
  have "format_e8 100000000 = lit ''1''" by (simp add: format_e8_def SCALE_def dec.simps lit_def Let_def)
  moreover have "dec_i64 (saturating_add_i64 100000000 100000000) = lit ''200000000''"
  proof -
    have "saturating_add_i64 100000000 100000000 = 200000000" by (simp add: saturating_add_i64_def sat_i64_def i64_max_def i64_min_def)
    then show ?thesis by (simp add: dec_i64_def) (simp add: dec.simps lit_def)
  qed
  ultimately show ?thesis by (simp add: transition_error_text_def lit_def)
qed

end
