(* ===== verification/Grants.thy ===== *)
theory Grants
  imports Replay
begin

text \<open>
  What the guards promise, seen from the venue (\<open>on_place\<close> in \<open>sentinel-engine/src/engine.rs\<close> over \<open>guards.rs\<close>): every
  submission that is ever handed out, over any sequence of commands and flushes, is a placement the guards granted
  in the state it met.

  Shown here: an entry met an account that was not halted, with a position the venue had confirmed, on an instrument
  no order locks and no other entry is live on; a protective exit met a position it closes, and with all live exits
  it asks for no more than that position.
\<close>

abbreviation limits_of :: "engine \<Rightarrow> limits" where
  "limits_of e \<equiv> (cf_limits (en_config e))\<lparr>lm_position_confirmed := en_position_confirmed e\<rparr>"

text \<open>The placement \<open>i\<close> let \<open>i'\<close> out: the same order, for what was granted.\<close>

definition lets_out :: "engine \<Rightarrow> economic_order_intent \<Rightarrow> economic_order_intent \<Rightarrow> bool" where
  "lets_out e i i' \<longleftrightarrow> book_order (en_book e) (in_client_order_id i) = None \<and> i' = i\<lparr>in_qty := in_qty i'\<rparr> \<and>
     granted (evaluate (en_book e) i (limits_of e) (en_halted e)) i = Some (sint (in_qty i'))"

lemma calm_submits: "calm e e' \<Longrightarrow> submits (en_uncommitted e') = submits (en_uncommitted e)"
  by (simp add: calm_def)

lemma authorise_submits:
  assumes "in_client_order_id i \<notin> known (en_book e)"
  shows "submits (en_uncommitted (snd (authorise i e))) \<in> {submits (en_uncommitted e), submits (en_uncommitted e) @ [i]}"
  using authorise_placed [OF assms] by (auto simp: placed_def calm_submits)

lemma place_lets_out:
  "submits (en_uncommitted (snd (on_place i e))) = submits (en_uncommitted e) \<or>
   (\<exists>i'. lets_out e i i' \<and> submits (en_uncommitted (snd (on_place i e))) = submits (en_uncommitted e) @ [i'])"
proof (cases "book_order (en_book e) (in_client_order_id i)")
  case (Some o')
  then show ?thesis
    using calm.begin_reconcile by (auto simp: on_place_def op_read_def keeps_def op_ok_def intro: calm_submits)
next
  case None
  then have new: "in_client_order_id i \<notin> known (en_book e)" by (simp add: known_def book_order_def)
  let ?v = "evaluate (en_book e) i (limits_of e) (en_halted e)"
  show ?thesis
  proof (cases ?v)
    case Allow
    then have "lets_out e i i" using None by (simp add: lets_out_def granted_def)
    moreover have "on_place i e = authorise i e" using Allow None by (simp add: on_place_def op_read_def)
    ultimately show ?thesis using authorise_submits [OF new] by auto
  next
    case (Refuse r)
    then have "on_place i e = refuse i r e" using None by (simp add: on_place_def op_read_def)
    then show ?thesis using calm.refuse by (auto simp: keeps_def intro: calm_submits)
  next
    case (Clamp q)
    let ?i = "i\<lparr>in_qty := q\<rparr>"
    let ?d = "decide (in_instrument i) Guards ExitClamped (in_trace_id i) q
        (note_new (lit ''exit '' @ format_e8 (in_qty i) @ lit '' clamped to '' @ format_e8 q))"
    have eq: "on_place i e = op_seq ?d (authorise ?i) e" using Clamp None by (simp add: on_place_def op_read_def Let_def)
    obtain r e1 where r: "?d e = (r, e1)" by fastforce
    have same: "submits (en_uncommitted e1) = submits (en_uncommitted e)" using calm.decide r by (metis keepsD calm_submits)
    show ?thesis
    proof (cases r)
      case (Inl f)
      then show ?thesis using same r eq by (simp add: op_seq_def op_bind_def)
    next
      case (Inr u)
      have "in_client_order_id ?i \<notin> known (en_book e1)" using decide_orders r Inr new by (auto simp: known_def)
      then show ?thesis
        using authorise_submits [of ?i e1] same eq r Inr Clamp None
        by (auto simp: op_seq_def op_bind_def lets_out_def granted_def)
    qed
  qed
qed

lemma submit_lets_out:
  assumes "i' \<in> set (submits (en_uncommitted (snd (submit command e)))) - set (submits (en_uncommitted e))"
  shows "\<exists>i. command = Place i \<and> lets_out e i i'"
proof (cases "\<exists>i. command = Place i")
  case True
  then show ?thesis using assms place_lets_out by (auto simp: submit_def) (metis Un_iff empty_iff insert_iff list.set set_append)
next
  case False
  then have "calm e (snd (submit command e))"
    using calm.submit_plain [of command] looked_up_calm by (cases command) (auto simp: plain_def submit_def keeps_def)
  then show ?thesis using assms by (simp add: calm_submits)
qed

text \<open>Over a run.\<close>

lemma executes_granted:
  "executes e0 as e rs \<Longrightarrow> i' \<in> set (submits (rs @ en_uncommitted e)) \<Longrightarrow> en_uncommitted e0 = [] \<Longrightarrow>
   \<exists>before later i e1 rs1. as = before @ Do (Place i) # later \<and> executes e0 before e1 rs1 \<and> lets_out e1 i i'"
proof (induction rule: executes.induct)
  case start
  then show ?case by simp
next
  case (more as e rs a e' new)
  show ?case
  proof (cases "i' \<in> set (submits (rs @ en_uncommitted e))")
    case True
    then show ?thesis using more by (metis append_Cons append_assoc)
  next
    case False
    show ?thesis
    proof (cases a)
      case (Do command)
      then have "i' \<in> set (submits (en_uncommitted (snd (submit command e)))) - set (submits (en_uncommitted e))"
        using more.hyps(2) more.prems(1) False by (auto simp: act_def)
      from submit_lets_out [OF this] show ?thesis using more.hyps(1) Do by blast
    next
      case (Flush os)
      then have "set (submits (new @ en_uncommitted e')) \<subseteq> set (submits (en_uncommitted e))"
        using more.hyps(2) by (auto simp: act_def engine_flush_eq split: prod.splits sum.splits)
      then show ?thesis using more.prems(1) False by auto
    qed
  qed
qed

lemma granted_entry:
  assumes "granted (evaluate b i l h) i = Some q" "opens_exposure i"
  shows "q = sint (in_qty i) \<and> \<not> h \<and> lm_position_confirmed l \<and> \<not> instrument_locked b (in_instrument i) \<and>
    list_all is_exit (live_orders_on b (in_instrument i))"
  using assms
  by (auto simp: evaluate_def evaluate_entry_def granted_def Let_def locking_order_def instrument_locked_def find_None list_ex_iff
      list_all_iff split: if_splits option.splits)

subsection \<open>Properties\<close>

text \<open>
  C7: nothing reaches the venue that the guards did not grant. Over any sequence of commands and flushes, every
  submission handed out or waiting is one placement of the run, under an id the book did not know, unchanged but for a
  reduced quantity. If it opens exposure, it was not reduced, and it met an account that was not halted, a position the
  venue had confirmed, and an instrument that no unproven order locked and no other entry was live on. If it is a
  protective exit, it met a position it closes, and its quantity with what all live exits still ask for is no more than
  that position.
\<close>

theorem every_submission_was_granted:
  assumes "executes e0 as e rs" "en_uncommitted e0 = []" "i' \<in> set (submits (rs @ en_uncommitted e))"
  shows "\<exists>before later i e1 rs1. as = before @ Do (Place i) # later \<and> executes e0 before e1 rs1 \<and>
    book_order (en_book e1) (in_client_order_id i) = None \<and> i' = i\<lparr>in_qty := in_qty i'\<rparr> \<and>
    (opens_exposure i \<longrightarrow> in_qty i' = in_qty i \<and> \<not> en_halted e1 \<and> en_position_confirmed e1 \<and>
      \<not> instrument_locked (en_book e1) (in_instrument i) \<and> list_all is_exit (live_orders_on (en_book e1) (in_instrument i))) \<and>
    (\<not> opens_exposure i \<and> book_inv (en_book e1) \<and> 0 < sint (in_qty i) \<longrightarrow>
      closes_position (en_book e1) i \<and> 0 < sint (in_qty i') \<and> sint (in_qty i') \<le> sint (in_qty i) \<and>
      sint (in_qty i') + min i64_max (\<Sum>o'\<leftarrow>exits_on (en_book e1) (in_instrument i). sint (order_remaining_qty o'))
        \<le> \<bar>sint (ps_qty (book_position (en_book e1) (in_instrument i)))\<bar>)"
proof -
  obtain before later i e1 rs1 where r: "as = before @ Do (Place i) # later" "executes e0 before e1 rs1" "lets_out e1 i i'"
    using executes_granted [OF assms(1,3,2)] by blast
  note out = r(3) [unfolded lets_out_def]
  have "in_qty i' = in_qty i \<and> \<not> en_halted e1 \<and> en_position_confirmed e1 \<and>
      \<not> instrument_locked (en_book e1) (in_instrument i) \<and> list_all is_exit (live_orders_on (en_book e1) (in_instrument i))"
    if "opens_exposure i"
    using granted_entry [OF conjunct2 [OF conjunct2 [OF out]] that] by (auto intro: signed_word_eqI)
  moreover have "closes_position (en_book e1) i \<and> 0 < sint (in_qty i') \<and> sint (in_qty i') \<le> sint (in_qty i) \<and>
      sint (in_qty i') + min i64_max (\<Sum>o'\<leftarrow>exits_on (en_book e1) (in_instrument i). sint (order_remaining_qty o'))
        \<le> \<bar>sint (ps_qty (book_position (en_book e1) (in_instrument i)))\<bar>"
    if ex: "\<not> opens_exposure i" "book_inv (en_book e1)" "0 < sint (in_qty i)"
    using evaluate_exit_granted [OF ex(2,3)] out ex(1,3) committed_exact [OF ex(2)]
    by (auto simp: evaluate_def Let_def split: if_splits)
  ultimately show ?thesis using r(1,2) out by blast
qed

theorem every_submission_was_granted_witness:
  "\<exists>e1. executes sample_engine [Do (Place sample_intent)] e1 [] \<and> en_uncommitted e1 = [Submit sample_intent] \<and>
     (\<exists>before later i e0 rs0. [Do (Place sample_intent)] = before @ Do (Place i) # later \<and> executes sample_engine before e0 rs0 \<and>
        sample_intent = i\<lparr>in_qty := in_qty sample_intent\<rparr> \<and> (opens_exposure i \<longrightarrow> \<not> instrument_locked (en_book e0) (in_instrument i)))"
proof -
  obtain e1 where e1: "submit (Place sample_intent) sample_engine = (Inr (), e1)" "en_uncommitted e1 = [Submit sample_intent]"
    using sample_place by blast
  then have run: "executes sample_engine [Do (Place sample_intent)] e1 []"
    using executes.more [OF executes.start, of "Do (Place sample_intent)" sample_engine e1 "[]"] by (simp add: act_def)
  have mem: "sample_intent \<in> set (submits ([] @ en_uncommitted e1))" using e1(2) by simp
  have "en_uncommitted sample_engine = []" by simp
  from every_submission_was_granted [OF run this mem] show ?thesis using run e1(2) by blast
qed

end
