(* ===== verification/Settlement.thy ===== *)
theory Settlement
  imports Replay
begin

text \<open>
  What an answered lookup settles (\<open>on_looked_up\<close> and \<open>book_the_difference\<close> in \<open>sentinel-engine/src/engine.rs\<close>): the
  order, the executions booked for it and the position of its instrument after the venue's word.

  Shown here: an answer that names the order ends its reconciliation in the venue's state, moves the position by
  exactly what the venue traded and the book had not, and stops trading when the book holds more than the venue; an
  answer that the order is absent closes it and leaves the position alone, whatever had been booked.
\<close>

subsection \<open>What was booked for an order\<close>

definition order_trades :: "book \<Rightarrow> client_order_id \<Rightarrow> int" where
  "order_trades b c = (\<Sum>(_, f)\<leftarrow>bk_fills b. if fl_client_order_id f = c then sint (fl_qty f) else 0)"

lemma skipping_sum:
  assumes "list_all (\<lambda>x. 0 \<le> sint (f x)) xs" "0 \<le> sint s" "sint s + (\<Sum>x\<leftarrow>xs. sint (f x)) \<le> i64_max"
  shows "sint (foldl (\<lambda>sum x. unwrap_or sum (e8_checked_add sum (f x))) s xs) = sint s + (\<Sum>x\<leftarrow>xs. sint (f x))"
  using assms
proof (induction xs arbitrary: s)
  case (Cons x xs)
  have "0 \<le> (\<Sum>x\<leftarrow>xs. sint (f x))" using Cons.prems by (intro sum_list_nonneg) (auto simp: list_all_iff)
  then have "in_i64 (sint s + sint (f x))" using Cons.prems by (simp add: in_i64_def i64_min_def)
  then obtain t where t: "e8_checked_add s (f x) = Inr t" by (cases "e8_checked_add s (f x)") (simp_all add: e8_checked_add_Inl)
  then have "sint t = sint s + sint (f x)" by (simp add: e8_checked_add_Inr)
  then show ?case using Cons t by simp
qed simp

lemma fills_for_trades: "(\<Sum>f\<leftarrow>fills_for b c. sint (fl_qty f)) = order_trades b c"
proof -
  have "(\<Sum>f\<leftarrow>fills_for b c. sint (fl_qty f)) =
      sum_list (map (\<lambda>(_, f). if fl_client_order_id f = c then sint (fl_qty f) else 0) (hm_sorted (bk_fills b)))"
    by (simp add: fills_for_def all_fills_def filter_map comp_def sum_list_map_filter' split_def)
  also have "\<dots> = order_trades b c"
    unfolding order_trades_def hm_sorted_def
    by (simp only: sum_mset_sum_list [symmetric] mset_map mset_sort)
  finally show ?thesis .
qed

lemma booked_exact:
  assumes "book_inv b" "order_trades b c \<le> i64_max"
  shows "sint (booked_qty b c) = order_trades b c"
proof -
  have "list_all (\<lambda>f. 0 \<le> sint (fl_qty f)) (fills_for b c)"
    using assms(1) by (auto simp: book_inv_def list_all_iff fills_for_def all_fills_def hm_sorted_def)
  from skipping_sum [OF this, of e8_zero] show ?thesis
    using assms(2) by (simp add: booked_qty_def fills_for_trades)
qed

lemma order_trades_insert:
  assumes "hm_get (bk_fills b) x = None" "bk_fills b' = hm_insert x f (bk_fills b)"
  shows "order_trades b' c = order_trades b c + (if fl_client_order_id f = c then sint (fl_qty f) else 0)"
  using assms by (simp add: order_trades_def hm_insert_fresh)

subsection \<open>What a write that went through did\<close>

definition account_kept :: "book \<Rightarrow> book \<Rightarrow> bool" where
  "account_kept b b' \<longleftrightarrow> bk_orders b' = bk_orders b \<and> bk_fills b' = bk_fills b \<and> bk_positions b' = bk_positions b"

lemma account_kept_stamp [simp]: "account_kept b (book_stamp h b')  = account_kept b b'" "account_kept b b"
  "book_position (book_stamp h b) i = book_position b i"
  by (simp_all add: account_kept_def book_stamp_def book_position_def)

lemma written:
  assumes "write_record r e = (Inr x, e')"
  shows "en_halted e' = en_halted e \<and> (\<exists>h. book_apply h r (en_book e) = (Inr x :: journal_error ledger_error + applied, en_book e'))"
proof -
  have w: "write_at (bk_now (en_book e)) r e = (Inr x, e')" using assms by (simp add: write_record_def op_read_def)
  have "en_halted e' = en_halted e" using write_at_fields(4) w by (metis snd_conv)
  moreover have "\<exists>h. book_apply h r (en_book e) = (Inr x :: journal_error ledger_error + applied, en_book e')"
    using w by (auto simp: write_at_def on_journal_def on_book_def op_bind_def op_read_def map_err_def
        split: prod.splits sum.splits)
  ultimately show ?thesis by blast
qed

lemma decide_still:
  assumes "decide i a k t v n e = (Inr u, e')"
  shows "account_kept (en_book e) (en_book e') \<and> en_halted e' = en_halted e"
proof -
  obtain x where "write_record (Decision i a k t v n) e = (Inr x, e')"
    using assms by (auto simp: decide_def op_seq_Inr)
  from written [OF this] obtain h where h: "en_halted e' = en_halted e"
    "book_apply h (Decision i a k t v n) (en_book e) = (Inr x :: journal_error ledger_error + applied, en_book e')" by blast
  have "en_book e' = snd (book_apply h (Decision i a k t v n) (en_book e) :: (journal_error ledger_error + applied) \<times> book)"
    by (simp add: h(2))
  then show ?thesis
    using h(1) by (cases k) (simp_all add: book_apply_def apply_record_def op_defs account_kept_def book_stamp_def)
qed

lemma halt_still:
  assumes "on_halt n e = (Inr u, e')"
  shows "account_kept (en_book e) (en_book e') \<and> en_halted e'"
  using assms by (auto simp: on_halt_def op_read_def op_seq_Inr dest!: decide_still split: if_splits)

text \<open>Only the order \<open>c\<close> itself moved.\<close>

definition moves_only :: "client_order_id \<Rightarrow> book \<Rightarrow> book \<Rightarrow> bool" where
  "moves_only c b b' \<longleftrightarrow> (\<forall>d. d \<noteq> c \<longrightarrow> book_order b' d = book_order b d) \<and>
     bk_fills b' = bk_fills b \<and> bk_positions b' = bk_positions b"

lemma account_kept_moves: "account_kept b b' \<Longrightarrow> moves_only c b b' \<and> book_order b' d = book_order b d"
  by (simp add: account_kept_def moves_only_def book_order_def)

lemma moves_only_trans: "moves_only c b b' \<Longrightarrow> moves_only c b' b'' \<Longrightarrow> moves_only c b b''"
  by (simp add: moves_only_def)

lemma event_written:
  assumes "write_event c t ev e = (Inr a, e')"
  shows "en_halted e' = en_halted e \<and>
    (\<exists>h. book_apply h (event_record (en_book e) c t ev) (en_book e) = (Inr a :: journal_error ledger_error + applied, en_book e'))"
  using assms by (intro written) (simp add: write_event_def op_read_def)

lemma step_written:
  assumes "write_event c t ev e = (Inr a, e')" "book_order (en_book e) c = Some o'"
    "\<forall>x q pr. ev \<noteq> FillReceived x q pr" "\<And>err. transition (od_core o') ev = Inl err \<Longrightarrow> \<not> needs_reconciliation err"
  shows "\<exists>h nxt. transition (od_core o') ev = Inr nxt \<and> en_halted e' = en_halted e \<and>
    book_order (en_book e') c = Some (stored_order h nxt ev o') \<and> moves_only c (en_book e) (en_book e')"
proof -
  obtain h where h: "en_halted e' = en_halted e"
    "book_apply h (event_record (en_book e) c t ev) (en_book e) = (Inr a :: journal_error ledger_error + applied, en_book e')"
    using event_written [OF assms(1)] by blast
  have known: "\<not> is_known_fill b ev" for b using assms(3) by (auto simp: is_known_fill_def split: order_event.splits)
  have got: "hm_get (bk_orders (book_stamp h (en_book e))) c = Some o'" using assms(2) by (simp add: book_order_def book_stamp_def)
  show ?thesis
  proof (cases "transition (od_core o') ev")
    case (Inl err)
    then have False using h(2) assms(2) assms(4) [OF Inl] got known
      by (simp add: event_record_def Let_def book_apply_def op_seq_modify apply_record_def apply_order_event_def op_read_def op_err_def)
    then show ?thesis ..
  next
    case (Inr nxt)
    have "book_apply h (event_record (en_book e) c t ev) (en_book e) =
        (op_seq (book_record_fill h c o' ev) (book_store_order h c nxt ev) (book_stamp h (en_book e))
          :: (journal_error ledger_error + applied) \<times> book)"
      using Inr assms(2) got known
      by (simp add: event_record_def Let_def book_apply_def op_seq_modify apply_record_def apply_order_event_def op_read_def)
    then have "en_book e' = (book_stamp h (en_book e))\<lparr>bk_orders := hm_insert c (stored_order h nxt ev o') (bk_orders (book_stamp h (en_book e)))\<rparr>"
      using h(2) by (simp add: applied_event(1) [OF got assms(3)])
    then show ?thesis using Inr h(1) by (auto simp: moves_only_def book_order_def book_stamp_def)
  qed
qed

lemma fill_written:
  assumes "write_event c t (FillReceived x q pr) e = (Inr a, e')" "book_order (en_book e) c = Some o'"
    "oc_state (od_core o') = Reconciling"
  shows "en_halted e' = en_halted e \<and>
    (book_fill (en_book e) x \<noteq> None \<and> account_kept (en_book e) (en_book e') \<or>
     book_fill (en_book e) x = None \<and> (\<exists>h nxt p'. transition (od_core o') (FillReceived x q pr) = Inr nxt \<and>
       position_apply_fill (oc_side (od_core o')) q pr (book_position (en_book e) (oc_instrument (od_core o'))) = (Inr (), p') \<and>
       bk_orders (en_book e') = hm_insert c (stored_order h nxt (FillReceived x q pr) o') (bk_orders (en_book e)) \<and>
       bk_fills (en_book e') = hm_insert x (fill_entry h c o' q pr) (bk_fills (en_book e)) \<and>
       bk_positions (en_book e') = hm_insert (oc_instrument (od_core o')) p' (bk_positions (en_book e))))"
proof -
  let ?ev = "FillReceived x q pr"
  obtain h where h: "en_halted e' = en_halted e"
    "book_apply h (event_record (en_book e) c t ?ev) (en_book e) = (Inr a :: journal_error ledger_error + applied, en_book e')"
    using event_written [OF assms(1)] by blast
  let ?b = "book_stamp h (en_book e)"
  have got: "hm_get (bk_orders ?b) c = Some o'" using assms(2) by (simp add: book_order_def book_stamp_def)
  have fills: "hm_get (bk_fills ?b) x = book_fill (en_book e) x" by (simp add: book_fill_def book_stamp_def)
  note unfold = event_record_def Let_def book_apply_def op_seq_modify apply_record_def apply_order_event_def op_read_def is_known_fill_def
  show ?thesis
  proof (cases "book_fill (en_book e) x")
    case (Some f)
    then have "en_book e' = ?b" using h(2) got fills assms(2) by (simp add: unfold op_ok_def)
    then show ?thesis using Some h(1) by simp
  next
    case None
    show ?thesis
    proof (cases "transition (od_core o') ?ev")
      case (Inl err)
      then have "\<not> needs_reconciliation err"
        using assms(3) by (auto simp: transition_fill transition_apply_fill_def Let_def state_is_terminal_def needs_reconciliation_def
            res_bind_def map_err_def i64_simps split: if_splits sum.splits)
      then have False using h(2) None got fills assms(2) Inl by (simp add: unfold op_err_def)
      then show ?thesis ..
    next
      case (Inr nxt)
      have eq: "book_apply h (event_record (en_book e) c t ?ev) (en_book e) =
          (op_seq (book_record_fill h c o' ?ev) (book_store_order h c nxt ?ev) ?b :: (journal_error ledger_error + applied) \<times> book)"
        using Inr None assms(2) got fills by (simp add: unfold)
      obtain r1 p' where ap: "position_apply_fill (oc_side (od_core o')) q pr (book_position ?b (oc_instrument (od_core o'))) = (r1, p')"
        by fastforce
      have r1: "r1 = Inr ()"
      proof (cases r1)
        case (Inl err)
        have "fst (Inr a :: journal_error ledger_error + applied, en_book e') = Inl (PositionOverflow (oc_instrument (od_core o')))"
          unfolding h(2) [symmetric] eq using ap Inl by (intro applied_event(3) [OF got]) simp
        then show ?thesis by simp
      qed simp
      then have "en_book e' = ?b\<lparr>bk_fills := hm_insert x (fill_entry h c o' q pr) (bk_fills ?b),
          bk_positions := hm_insert (oc_instrument (od_core o')) p' (bk_positions ?b),
          bk_orders := hm_insert c (stored_order h nxt ?ev o') (bk_orders ?b)\<rparr>"
        using h(2) ap by (simp add: eq applied_event(2) [OF got])
      then show ?thesis using None Inr ap r1 h(1) by (auto simp: book_stamp_def book_position_def)
    qed
  qed
qed

subsection \<open>The steps of a settlement\<close>

lemma ensure_written:
  assumes "ensure_reconciling c t cause e = (Inr u, e')" "book_order (en_book e) c = Some o'"
  shows "\<exists>o1. book_order (en_book e') c = Some o1 \<and> od_core o1 = (od_core o')\<lparr>oc_state := Reconciling\<rparr> \<and>
    moves_only c (en_book e) (en_book e') \<and> en_halted e' = en_halted e"
proof (cases "oc_state (od_core o') = Reconciling")
  case True
  then have "od_core o' = (od_core o')\<lparr>oc_state := Reconciling\<rparr>" by (cases "od_core o'") simp
  then show ?thesis using assms True by (simp add: ensure_reconciling_def op_read_def is_some_and_def moves_only_def)
next
  case False
  then obtain a e1 where w: "write_event c t (ReconcileStarted cause) e = (Inr a, e1)"
    and d: "decide (case book_order (en_book e1) c of None \<Rightarrow> inline_empty 16 | Some o' \<Rightarrow> oc_instrument (od_core o'))
       Reconciler ReconcileScheduled t e8_zero (note_new (cause_as_str cause)) e1 = (Inr u, e')"
    using assms by (auto simp: ensure_reconciling_def op_read_def op_seq_Inr is_some_and_def)
  have "\<not> needs_reconciliation err" if "transition (od_core o') (ReconcileStarted cause) = Inl err" for err
    using that by (auto simp: transition_def Let_def needs_reconciliation_def res_bind_def guard_def split: if_splits)
  then obtain h nxt where s: "transition (od_core o') (ReconcileStarted cause) = Inr nxt" "en_halted e1 = en_halted e"
    "book_order (en_book e1) c = Some (stored_order h nxt (ReconcileStarted cause) o')" "moves_only c (en_book e) (en_book e1)"
    using step_written [OF w assms(2)] by auto
  show ?thesis
    using s decide_still [OF d] account_kept_moves moves_only_trans by (auto simp: transition_Inr_simps)
qed

lemma resolve_written:
  assumes "write_event c t (ReconcileResolved st v q) e = (Inr a, e')" "book_order (en_book e) c = Some o'"
  shows "\<exists>o1. book_order (en_book e') c = Some o1 \<and> oc_state (od_core o1) = st \<and> same_identity (od_core o') (od_core o1) \<and>
    oc_venue_order_id (od_core o1) = (if v = None then oc_venue_order_id (od_core o') else v) \<and>
    sint (oc_filled_qty (od_core o1)) = min (sint q) (sint (oc_qty (od_core o'))) \<and>
    moves_only c (en_book e) (en_book e') \<and> en_halted e' = en_halted e"
proof -
  let ?ev = "ReconcileResolved st v q"
  have "\<not> needs_reconciliation err" if "transition (od_core o') ?ev = Inl err" for err
    using that by (auto simp: transition_def Let_def needs_reconciliation_def res_bind_def guard_def i64_simps
        split: if_splits sum.splits)
  then obtain h nxt where s: "transition (od_core o') ?ev = Inr nxt" "en_halted e' = en_halted e"
    "book_order (en_book e') c = Some (stored_order h nxt ?ev o')" "moves_only c (en_book e) (en_book e')"
    using step_written [OF assms] by auto
  have "oc_venue_order_id nxt = (if v = None then oc_venue_order_id (od_core o') else v)"
    using s(1) by (auto simp: transition_def Let_def split: if_splits)
  then show ?thesis using s resolve_InrD [OF s(1)] by simp
qed

text \<open>The correction, on each branch: nothing to do, exposure the venue does not have, or an execution to book.\<close>

definition corrects :: "client_order_id \<Rightarrow> order_core \<Rightarrow> qty \<Rightarrow> engine \<Rightarrow> engine \<Rightarrow> bool" where
  "corrects c core venue_filled e e' \<longleftrightarrow>
     (let b = en_book e; b' = en_book e'; ours = booked_qty b c;
          untouched = (bk_fills b' = bk_fills b \<and> bk_positions b' = bk_positions b) in
      (venue_filled = ours \<longrightarrow> untouched \<and> en_halted e' = en_halted e) \<and>
      (sint venue_filled < sint ours \<longrightarrow> untouched \<and> en_halted e') \<and>
      (sint ours < sint venue_filled \<longrightarrow> en_halted e' = en_halted e \<and>
        (\<exists>x. reconciliation_exec_id c venue_filled = Some x \<and>
          (book_fill b x \<noteq> None \<and> untouched \<or>
           book_fill b x = None \<and>
           (\<exists>f. bk_fills b' = hm_insert x f (bk_fills b) \<and> fl_client_order_id f = c \<and> sint (fl_qty f) = sint venue_filled - sint ours) \<and>
           (\<forall>i. sint (ps_qty (book_position b' i)) = sint (ps_qty (book_position b i)) +
              (if i = oc_instrument core then sgn_of (oc_side core) * (sint venue_filled - sint ours) else 0))))))"

text \<open>An execution booked while the question is open: known already, or carried into the position in full.\<close>

lemma correction_written:
  assumes "write_event c t (FillReceived x q pr) e = (Inr a, e')" "book_order (en_book e) c = Some o'"
    "oc_state (od_core o') = Reconciling"
  shows "(\<exists>o1. book_order (en_book e') c = Some o1 \<and> same_identity (od_core o') (od_core o1) \<and>
      oc_venue_order_id (od_core o1) = oc_venue_order_id (od_core o') \<and> oc_state (od_core o1) = Reconciling) \<and>
    (\<forall>d. d \<noteq> c \<longrightarrow> book_order (en_book e') d = book_order (en_book e) d) \<and>
    (book_fill (en_book e) x \<noteq> None \<and> bk_fills (en_book e') = bk_fills (en_book e) \<and> bk_positions (en_book e') = bk_positions (en_book e) \<or>
     book_fill (en_book e) x = None \<and> 0 < sint q \<and>
     (\<exists>f. bk_fills (en_book e') = hm_insert x f (bk_fills (en_book e)) \<and> fl_client_order_id f = c \<and> sint (fl_qty f) = sint q) \<and>
     (\<forall>i. sint (ps_qty (book_position (en_book e') i)) = sint (ps_qty (book_position (en_book e) i)) +
        (if i = oc_instrument (od_core o') then sgn_of (oc_side (od_core o')) * sint q else 0)))"
proof -
  consider "book_fill (en_book e) x \<noteq> None" "account_kept (en_book e) (en_book e')"
    | h nxt p' where "book_fill (en_book e) x = None" "transition (od_core o') (FillReceived x q pr) = Inr nxt"
     "position_apply_fill (oc_side (od_core o')) q pr (book_position (en_book e) (oc_instrument (od_core o'))) = (Inr (), p')"
     "bk_orders (en_book e') = hm_insert c (stored_order h nxt (FillReceived x q pr) o') (bk_orders (en_book e))"
     "bk_fills (en_book e') = hm_insert x (fill_entry h c o' q pr) (bk_fills (en_book e))"
     "bk_positions (en_book e') = hm_insert (oc_instrument (od_core o')) p' (bk_positions (en_book e))"
    using fill_written [OF assms] by blast
  then show ?thesis
  proof cases
    case 1
    then show ?thesis using assms(2,3) by (auto simp: account_kept_def book_order_def same_identity_def)
  next
    case 2
    have pos: "0 < sint q" and kept: "oc_venue_order_id nxt = oc_venue_order_id (od_core o')" "oc_state nxt = Reconciling"
      using fill_InrD(2,5,7) 2(2) assms(3) by (auto simp: transition_fill fill_target_def)
    have "sint (ps_qty (book_position (en_book e') i)) = sint (ps_qty (book_position (en_book e) i)) +
            (if i = oc_instrument (od_core o') then sgn_of (oc_side (od_core o')) * sint q else 0)" for i
      using apply_fill_qty [OF 2(3) pos] 2(6) by (auto simp: book_position_def)
    moreover have "\<exists>f. bk_fills (en_book e') = hm_insert x f (bk_fills (en_book e)) \<and> fl_client_order_id f = c \<and> sint (fl_qty f) = sint q"
      using 2(5) by (intro exI [of _ "fill_entry h c o' q pr"]) (simp add: fill_entry_def)
    ultimately show ?thesis using 2(1,4) pos kept transition_identity [OF 2(2)] by (simp add: book_order_def)
  qed
qed

lemma difference_written:
  assumes "book_the_difference c t v avg e = (Inr u, e')" "book_order (en_book e) c = Some o'"
    "oc_state (od_core o') = Reconciling"
  shows "corrects c (od_core o') v e e' \<and> (\<exists>o1. book_order (en_book e') c = Some o1 \<and> same_identity (od_core o') (od_core o1) \<and>
    oc_venue_order_id (od_core o1) = oc_venue_order_id (od_core o') \<and> oc_state (od_core o1) = Reconciling) \<and>
    (\<forall>d. d \<noteq> c \<longrightarrow> book_order (en_book e') d = book_order (en_book e) d)"
proof -
  let ?ours = "booked_qty (en_book e) c"
  have kept: ?thesis if "account_kept (en_book e) (en_book e')" "v = ?ours \<and> en_halted e' = en_halted e \<or> sint v < sint ?ours \<and> en_halted e'"
    using that assms(2,3) by (auto simp: corrects_def account_kept_def book_order_def same_identity_def)
  consider "v = ?ours" | "v \<noteq> ?ours" "sint v < sint ?ours" | "v \<noteq> ?ours" "sint ?ours < sint v" "\<not> sint v < sint ?ours"
    by (metis linorder_neqE not_less_iff_gr_or_eq signed_word_eqI)
  then show ?thesis
  proof cases
    case 1
    then have "e' = e" using assms by (simp add: book_the_difference_def op_read_def Let_def)
    then show ?thesis using kept 1 by simp
  next
    case 2
    then obtain n where "on_halt n e = (Inr u, e')"
      using assms by (auto simp: book_the_difference_def op_read_def Let_def)
    then show ?thesis using kept halt_still 2 by blast
  next
    case 3
    let ?q = "unwrap_or e8_zero (e8_checked_sub v ?ours)"
    obtain x pr a e1 i k n where x: "reconciliation_exec_id c v = Some x"
      and w: "write_event c t (FillReceived x ?q pr) e = (Inr a, e1)"
      and d: "decide i Reconciler ReconcileScheduled t k n e1 = (Inr u, e')"
      using assms(1,2) 3
      by (auto simp: book_the_difference_def op_read_def Let_def op_bind_Inr op_seq_Inr or_panic_def split: option.splits if_splits)
    have q: "0 < sint ?q \<Longrightarrow> sint ?q = sint v - sint ?ours"
      using e8_checked_sub_Inr [of v ?ours ?q] by (cases "e8_checked_sub v ?ours") simp_all
    have "account_kept (en_book e1) (en_book e')" "en_halted e' = en_halted e"
      using decide_still [OF d] event_written [OF w] by auto
    then show ?thesis
      using correction_written [OF w assms(2,3)] q x 3
      by (auto simp: corrects_def Let_def account_kept_def book_order_def book_position_def)
  qed
qed

lemma corrects_cong:
  assumes "bk_fills (en_book e1) = bk_fills (en_book e)" "bk_positions (en_book e1) = bk_positions (en_book e)" "en_halted e1 = en_halted e"
    "bk_fills (en_book e2) = bk_fills (en_book e')" "bk_positions (en_book e2) = bk_positions (en_book e')" "en_halted e2 = en_halted e'"
    "oc_instrument core1 = oc_instrument core" "oc_side core1 = oc_side core"
  shows "corrects c core1 v e1 e2 = corrects c core v e e'"
  unfolding corrects_def Let_def booked_qty_def fills_for_def all_fills_def book_fill_def book_position_def assms ..

lemma found_written:
  assumes "on_looked_up c (Found s) e = (Inr u, e')" "book_order (en_book e) c = Some o'"
  shows "corrects c (od_core o') (sn_filled_qty s) e e' \<and> (\<exists>o1. book_order (en_book e') c = Some o1 \<and>
      oc_state (od_core o1) = sn_state s \<and> same_identity (od_core o') (od_core o1) \<and>
      oc_venue_order_id (od_core o1) = (if sn_venue_order_id s = None then oc_venue_order_id (od_core o') else sn_venue_order_id s) \<and>
      sint (oc_filled_qty (od_core o1)) = min (sint (sn_filled_qty s)) (sint (oc_qty (od_core o')))) \<and>
    (\<forall>d. d \<noteq> c \<longrightarrow> book_order (en_book e') d = book_order (en_book e) d) \<and> hm_get (en_reconciling e') c = None"
proof -
  let ?t = "trace_of e c"
  obtain u1 e1 u2 e2 a e3 where s1: "ensure_reconciling c ?t PositionDisagreement e = (Inr u1, e1)"
    and s2: "book_the_difference c ?t (sn_filled_qty s) (sn_avg_price s) e1 = (Inr u2, e2)"
    and s3: "write_event c ?t (ReconcileResolved (sn_state s) (sn_venue_order_id s) (sn_filled_qty s)) e2 = (Inr a, e3)"
    and s4: "e' = e3\<lparr>en_reconciling := hm_remove c (en_reconciling e3)\<rparr>"
    using assms(1) by (auto simp: on_looked_up_def op_read_def op_seq_Inr Let_def forget_reconciliation_def)
  obtain o1 where o1: "book_order (en_book e1) c = Some o1" "od_core o1 = (od_core o')\<lparr>oc_state := Reconciling\<rparr>"
    "moves_only c (en_book e) (en_book e1)" "en_halted e1 = en_halted e"
    using ensure_written [OF s1 assms(2)] by blast
  obtain o2 where o2: "corrects c (od_core o1) (sn_filled_qty s) e1 e2" "book_order (en_book e2) c = Some o2"
    "same_identity (od_core o1) (od_core o2)" "oc_venue_order_id (od_core o2) = oc_venue_order_id (od_core o1)"
    "\<forall>d. d \<noteq> c \<longrightarrow> book_order (en_book e2) d = book_order (en_book e1) d"
    using difference_written [OF s2 o1(1)] o1(2) by auto
  obtain o3 where r: "book_order (en_book e3) c = Some o3" "oc_state (od_core o3) = sn_state s" "same_identity (od_core o2) (od_core o3)"
    "oc_venue_order_id (od_core o3) = (if sn_venue_order_id s = None then oc_venue_order_id (od_core o2) else sn_venue_order_id s) \<and>
     sint (oc_filled_qty (od_core o3)) = min (sint (sn_filled_qty s)) (sint (oc_qty (od_core o2)))"
    "moves_only c (en_book e2) (en_book e3)" "en_halted e3 = en_halted e2"
    using resolve_written [OF s3 o2(2)] by blast
  have "corrects c (od_core o') (sn_filled_qty s) e e'"
    using o2(1) o1(2-4) r(5,6) s4 by (subst (asm) corrects_cong [where e = e and e' = e']) (simp_all add: moves_only_def)
  then show ?thesis
    using o1(2,3) o2(3-5) r s4 by (simp add: moves_only_def same_identity_def)
qed

lemma corrects_traded:
  assumes "corrects c core v e e'" "book_inv (en_book e)" "order_trades (en_book e) c \<le> i64_max"
  shows "let b = en_book e; b' = en_book e'; venue = sint v; ours = order_trades b c;
         untouched = (bk_fills b' = bk_fills b \<and> bk_positions b' = bk_positions b) in
     (venue = ours \<longrightarrow> untouched \<and> en_halted e' = en_halted e) \<and>
     (venue < ours \<longrightarrow> untouched \<and> en_halted e') \<and>
     (ours < venue \<longrightarrow> en_halted e' = en_halted e \<and>
       (\<exists>x. reconciliation_exec_id c v = Some x \<and>
         (book_fill b x \<noteq> None \<and> untouched \<or>
          book_fill b x = None \<and> book_fill b' x \<noteq> None \<and> order_trades b' c = venue \<and>
          (\<forall>i. sint (ps_qty (book_position b' i)) = sint (ps_qty (book_position b i)) +
             (if i = oc_instrument core then sgn_of (oc_side core) * (venue - ours) else 0)))))"
proof -
  let ?b = "en_book e" and ?b' = "en_book e'"
  have ours: "sint (booked_qty ?b c) = order_trades ?b c" by (rule booked_exact [OF assms(2,3)])
  then have eq: "sint v = order_trades ?b c \<longleftrightarrow> v = booked_qty ?b c" by (metis signed_word_eqI)
  have booked: "book_fill ?b' x \<noteq> None \<and> order_trades ?b' c = sint v"
    if "book_fill ?b x = None" "bk_fills ?b' = hm_insert x f (bk_fills ?b)" "fl_client_order_id f = c"
      "sint (fl_qty f) = sint v - order_trades ?b c" for x f
    using order_trades_insert [of ?b x ?b' f c] that by (simp add: book_fill_def)
  note c = assms(1) [unfolded corrects_def Let_def ours]
  show ?thesis unfolding Let_def eq using c booked by (intro conjI impI) blast+
qed

lemma absent_written:
  assumes "on_looked_up c LookupAbsent e = (Inr u, e')" "book_order (en_book e) c = Some o'"
  shows "moves_only c (en_book e) (en_book e') \<and> en_halted e' = en_halted e \<and> hm_get (en_reconciling e') c = None \<and>
    (\<exists>o1. book_order (en_book e') c = Some o1 \<and> oc_state (od_core o1) = Canceled \<and> same_identity (od_core o') (od_core o1) \<and>
      sint (oc_filled_qty (od_core o1)) = min 0 (sint (oc_qty (od_core o'))))"
proof -
  let ?t = "trace_of e c"
  obtain u1 e1 a e2 where s1: "ensure_reconciling c ?t SubmissionTimeout e = (Inr u1, e1)"
    and s2: "write_event c ?t (ReconcileResolved Canceled None e8_zero) e1 = (Inr a, e2)"
    and s3: "e' = e2\<lparr>en_reconciling := hm_remove c (en_reconciling e2)\<rparr>"
    using assms(1) by (auto simp: on_looked_up_def op_read_def op_seq_Inr Let_def forget_reconciliation_def)
  obtain o1 where o1: "book_order (en_book e1) c = Some o1" "od_core o1 = (od_core o')\<lparr>oc_state := Reconciling\<rparr>"
    "moves_only c (en_book e) (en_book e1)" "en_halted e1 = en_halted e"
    using ensure_written [OF s1 assms(2)] by blast
  then show ?thesis using resolve_written [OF s2 o1(1)] s3 by (auto simp: moves_only_def same_identity_def)
qed

subsection \<open>A settlement that goes through\<close>

text \<open>An event the transition function accepts is written, unless its execution is known or the position overflows.\<close>

lemma event_goes_through:
  assumes "sound e" "event_wf ev" "book_order (en_book e) c = Some o'" "transition (od_core o') ev = Inr nxt" "\<not> is_known_fill (en_book e) ev"
    "\<And>x q pr. ev = FillReceived x q pr \<Longrightarrow>
       fst (position_apply_fill (oc_side (od_core o')) q pr (book_position (en_book e) (oc_instrument (od_core o')))) = Inr ()"
  shows "\<exists>a e'. write_event c t ev e = (Inr a, e') \<and> sound e'"
proof -
  let ?r = "event_record (en_book e) c t ev"
  have "is_ok (fst (book_apply h ?r (en_book e) :: (journal_error ledger_error + applied) \<times> book))" for h
  proof -
    let ?b = "book_stamp h (en_book e)"
    have got: "hm_get (bk_orders ?b) c = Some o'" using assms(3) by (simp add: book_order_def book_stamp_def)
    have known: "is_known_fill ?b ev = is_known_fill (en_book e) ev" by (auto simp: is_known_fill_def book_stamp_def split: order_event.split)
    have eq: "book_apply h ?r (en_book e) =
        (op_seq (book_record_fill h c o' ev) (book_store_order h c nxt ev) ?b :: (journal_error ledger_error + applied) \<times> book)"
      using assms(3-5) got known
      by (simp add: event_record_def Let_def book_apply_def op_seq_modify apply_record_def apply_order_event_def op_read_def)
    show ?thesis
    proof (cases "\<exists>x q pr. ev = FillReceived x q pr")
      case True
      then obtain x q pr where ev: "ev = FillReceived x q pr" by blast
      obtain p' where "position_apply_fill (oc_side (od_core o')) q pr (book_position ?b (oc_instrument (od_core o'))) = (Inr (), p')"
        using assms(6) [OF ev] by (metis prod.collapse account_kept_stamp(3))
      then show ?thesis by (simp add: eq [unfolded ev] ev applied_event(2) [OF got])
    next
      case False
      then have "\<forall>x q pr. ev \<noteq> FillReceived x q pr" by blast
      then show ?thesis by (simp add: eq applied_event(1) [OF got])
    qed
  qed
  moreover have "record_wf ?r" using event_record_wf order_texts [OF assms(1,3)] assms(2) by blast
  ultimately show ?thesis using write_record_ok [OF assms(1)] by (fastforce simp: write_event_def op_read_def)
qed

lemma ensure_goes_through:
  assumes "sound e" "book_order (en_book e) c = Some o'"
  shows "\<exists>e'. ensure_reconciling c t cause e = (Inr (), e') \<and> sound e'"
proof (cases "oc_state (od_core o') = Reconciling")
  case True
  then show ?thesis using assms by (simp add: ensure_reconciling_def op_read_def is_some_and_def)
next
  case False
  obtain a e1 where e1: "write_event c t (ReconcileStarted cause) e = (Inr a, e1)" "sound e1"
    using event_goes_through [OF assms(1) _ assms(2), of "ReconcileStarted cause" "(od_core o')\<lparr>oc_state := Reconciling\<rparr>" t] False
    by (auto simp: transition_Inr_simps is_known_fill_def)
  let ?i = "case book_order (en_book e1) c of None \<Rightarrow> inline_empty 16 | Some o' \<Rightarrow> oc_instrument (od_core o')"
  have "text_ok 16 ?i" using order_texts [OF e1(2)] by (auto split: option.split)
  moreover have "text_ok 96 (note_new (cause_as_str cause))" by simp
  ultimately obtain e2 where "decide ?i Reconciler ReconcileScheduled t e8_zero (note_new (cause_as_str cause)) e1 = (Inr (), e2)" "sound e2"
    using decide_ok [OF e1(2)] by blast
  then show ?thesis using e1 False assms(2) by (auto simp: ensure_reconciling_def op_read_def op_seq_Inr is_some_and_def)
qed


text \<open>The account can take the execution the venue has and the book has not.\<close>

definition takes_correction :: "book \<Rightarrow> client_order_id \<Rightarrow> order_core \<Rightarrow> qty \<Rightarrow> price option \<Rightarrow> bool" where
  "takes_correction b c core v avg \<longleftrightarrow>
     (sint (booked_qty b c) < sint v \<longrightarrow>
      (let q = unwrap_or e8_zero (e8_checked_sub v (booked_qty b c));
           pr = (case avg of Some p \<Rightarrow> p
                 | None \<Rightarrow> (case book_mark b (oc_instrument core) of Some p \<Rightarrow> p | None \<Rightarrow> e8_zero)) in
       (\<exists>x. reconciliation_exec_id c v = Some x \<and> book_fill b x = None \<and> is_ok (transition core (FillReceived x q pr)) \<and>
         fst (position_apply_fill (oc_side core) q pr (book_position b (oc_instrument core))) = Inr ())))"

lemma halt_goes_through:
  assumes "sound e" "text_ok 96 n"
  shows "\<exists>e'. on_halt n e = (Inr (), e') \<and> sound e'"
proof -
  have "sound (e\<lparr>en_halted := True\<rparr>)" using assms(1) by (simp add: sound_def)
  from decide_ok [OF this, of "inline_empty 16" n Supervisor Halted 0 e8_zero] show ?thesis
    using assms by (auto simp: on_halt_def op_read_def op_seq_modify op_ok_def)
qed

lemma difference_goes_through:
  assumes "sound e" "book_order (en_book e) c = Some o'" "takes_correction (en_book e) c (od_core o') v avg"
  shows "\<exists>e'. book_the_difference c t v avg e = (Inr (), e') \<and> sound e'"
proof -
  let ?ours = "booked_qty (en_book e) c"
  let ?q = "unwrap_or e8_zero (e8_checked_sub v ?ours)"
  let ?pr = "case avg of Some p \<Rightarrow> p
     | None \<Rightarrow> (case book_mark (en_book e) (oc_instrument (od_core o')) of Some p \<Rightarrow> p | None \<Rightarrow> e8_zero)"
  consider "v = ?ours" | "v \<noteq> ?ours" "sint v < sint ?ours" | "v \<noteq> ?ours" "sint ?ours < sint v" "\<not> sint v < sint ?ours"
    by (metis linorder_neqE not_less_iff_gr_or_eq signed_word_eqI)
  then show ?thesis
  proof cases
    case 1
    then show ?thesis using assms by (simp add: book_the_difference_def op_read_def Let_def op_ok_def)
  next
    case 2
    then show ?thesis
      using assms(2) order_texts [OF assms(1,2)]
      by (auto simp: book_the_difference_def op_read_def Let_def intro!: halt_goes_through [OF assms(1)])
  next
    case 3
    then obtain x nxt where x: "reconciliation_exec_id c v = Some x" "book_fill (en_book e) x = None"
      "transition (od_core o') (FillReceived x ?q ?pr) = Inr nxt"
      "fst (position_apply_fill (oc_side (od_core o')) ?q ?pr (book_position (en_book e) (oc_instrument (od_core o')))) = Inr ()"
      using assms(3) by (auto simp: takes_correction_def Let_def is_ok_iff)
    have "event_wf (FillReceived x ?q ?pr)" using exec_id_ok [OF x(1)] order_texts [OF assms(1,2)] by simp
    then obtain a e1 where e1: "write_event c t (FillReceived x ?q ?pr) e = (Inr a, e1)" "sound e1"
      using event_goes_through [OF assms(1) _ assms(2) x(3), of t] x(2,4) by (auto simp: is_known_fill_def book_fill_def)
    have "\<exists>e2. decide (oc_instrument (od_core o')) Reconciler ReconcileScheduled t ?q n e1 = (Inr (), e2) \<and> sound e2"
      if "text_ok 96 n" for n
      using decide_ok [OF e1(2)] order_texts [OF assms(1,2)] that by blast
    then show ?thesis
      using 3 x(1) e1(1) assms(2) by (simp add: book_the_difference_def op_read_def Let_def or_panic_def op_bind_def op_seq_def op_ok_def)
  qed
qed

lemma resolve_goes_through:
  assumes "sound e" "book_order (en_book e) c = Some o'" "oc_state (od_core o') = Reconciling" "permits Reconciling st"
    "0 \<le> sint q" "sint q \<le> 2 * sint (oc_qty (od_core o'))" "in_i64 (2 * sint (oc_qty (od_core o')))"
    "event_wf (ReconcileResolved st v q)"
  shows "\<exists>a e'. write_event c t (ReconcileResolved st v q) e = (Inr a, e') \<and> sound e'"
proof -
  obtain ceiling where "gross_ceiling (oc_qty (od_core o')) = Inr ceiling"
    using assms(7) gross_ceiling_Inl by (cases "gross_ceiling (oc_qty (od_core o'))") auto
  moreover from this have "sint ceiling = 2 * sint (oc_qty (od_core o'))" by (simp add: gross_ceiling_Inr)
  ultimately obtain nxt where "transition (od_core o') (ReconcileResolved st v q) = Inr nxt"
    using assms(3-6) by (simp add: transition_def guard_def e8_is_negative_def)
  then show ?thesis using event_goes_through [OF assms(1,8,2)] by (simp add: is_known_fill_def)
qed

text \<open>
  The answer settles the order whenever the venue's figures fit it: a state a reconciliation may end in, a quantity within
  twice its size, and, where an execution is missing, an account that can take it.
\<close>

lemma found_goes_through:
  assumes "sound e" "command_wf (LookedUp c (Found s))" "book_order (en_book e) c = Some o'"
    "permits Reconciling (sn_state s)" "0 \<le> sint (sn_filled_qty s)" "sint (sn_filled_qty s) \<le> 2 * sint (oc_qty (od_core o'))"
    "in_i64 (2 * sint (oc_qty (od_core o')))"
    "\<And>b'. bk_fills b' = bk_fills (en_book e) \<Longrightarrow> bk_positions b' = bk_positions (en_book e) \<Longrightarrow>
       takes_correction b' c ((od_core o')\<lparr>oc_state := Reconciling\<rparr>) (sn_filled_qty s) (sn_avg_price s)"
  shows "\<exists>e'. submit (LookedUp c (Found s)) e = (Inr (), e') \<and> sound e'"
proof -
  let ?t = "trace_of e c" and ?ev = "ReconcileResolved (sn_state s) (sn_venue_order_id s) (sn_filled_qty s)"
  obtain e1 where e1: "ensure_reconciling c ?t PositionDisagreement e = (Inr (), e1)" "sound e1"
    using ensure_goes_through [OF assms(1,3)] by blast
  obtain o1 where o1: "book_order (en_book e1) c = Some o1" "od_core o1 = (od_core o')\<lparr>oc_state := Reconciling\<rparr>"
    "moves_only c (en_book e) (en_book e1)"
    using ensure_written [OF e1(1) assms(3)] by blast
  then have "takes_correction (en_book e1) c (od_core o1) (sn_filled_qty s) (sn_avg_price s)"
    using assms(8) [of "en_book e1"] by (simp add: moves_only_def)
  then obtain e2 where e2: "book_the_difference c ?t (sn_filled_qty s) (sn_avg_price s) e1 = (Inr (), e2)" "sound e2"
    using difference_goes_through [OF e1(2) o1(1)] by blast
  have "oc_state (od_core o1) = Reconciling" using o1(2) by simp
  then obtain o2 where o2: "book_order (en_book e2) c = Some o2" "same_identity (od_core o1) (od_core o2)"
    "oc_state (od_core o2) = Reconciling"
    using difference_written [OF e2(1) o1(1)] by blast
  then obtain a e3 where "write_event c ?t ?ev e2 = (Inr a, e3)" "sound e3"
    using resolve_goes_through [OF e2(2) o2(1,3) assms(4,5), of "sn_venue_order_id s" ?t] assms(2,6,7) o1(2)
    by (auto simp: same_identity_def command_wf_def)
  then show ?thesis
    using e1(1) e2(1) by (simp add: submit_def on_looked_up_def op_read_def op_seq_def op_bind_def Let_def forget_reconciliation_def
        op_modify_def sound_def)
qed

lemma absent_goes_through:
  assumes "sound e" "book_order (en_book e) c = Some o'" "in_i64 (2 * sint (oc_qty (od_core o')))"
  shows "\<exists>e'. submit (LookedUp c LookupAbsent) e = (Inr (), e') \<and> sound e'"
proof -
  let ?t = "trace_of e c"
  obtain e1 where e1: "ensure_reconciling c ?t SubmissionTimeout e = (Inr (), e1)" "sound e1"
    using ensure_goes_through [OF assms(1,2)] by blast
  obtain o1 where o1: "book_order (en_book e1) c = Some o1" "od_core o1 = (od_core o')\<lparr>oc_state := Reconciling\<rparr>"
    using ensure_written [OF e1(1) assms(2)] by blast
  have "0 \<le> sint (oc_qty (od_core o'))"
    using book_inv_order [OF sound_book_inv [OF assms(1)], of c o'] assms(2) by (simp add: book_order_def order_inv_def)
  then obtain a e2 where "write_event c ?t (ReconcileResolved Canceled None e8_zero) e1 = (Inr a, e2)" "sound e2"
    using resolve_goes_through [OF e1(2) o1(1), of Canceled e8_zero None ?t] o1(2) assms(3) by (auto simp: permits_iff)
  then show ?thesis
    using e1(1) by (simp add: submit_def on_looked_up_def op_read_def op_seq_def op_bind_def Let_def forget_reconciliation_def
        op_modify_def sound_def)
qed

lemma sample_waiting_account:
  "bk_fills (en_book sample_waiting) = []" "bk_positions (en_book sample_waiting) = []" "order_trades (en_book sample_waiting) c = 0"
  "book_inv (en_book sample_waiting)"
proof -
  obtain x e h where w: "write_record (IntentPersisted sample_intent) sample_engine = (Inr x, e)"
    "en_book e = snd (book_apply h (IntentPersisted sample_intent) (en_book sample_engine) :: (journal_error ledger_error + applied) \<times> book)"
    using write_record_ok [OF sample_sound sample_record intent_applies] by blast
  then show f: "bk_fills (en_book sample_waiting) = []" and "bk_positions (en_book sample_waiting) = []"
    by (simp_all add: sample_waiting_def book_apply_def apply_record_def apply_intent_def op_defs book_stamp_def book_new_def)
  show "order_trades (en_book sample_waiting) c = 0" using f by (simp add: order_trades_def)
  show "book_inv (en_book sample_waiting)" using sound_book_inv sample_waiting_ok(1) by blast
qed

definition sample_snapshot :: order_snapshot where
  "sample_snapshot = \<lparr>sn_state = Working, sn_venue_order_id = None, sn_filled_qty = 100000000, sn_avg_price = Some 100000000\<rparr>"

lemma sample_takes_correction:
  assumes "bk_fills b = []" "bk_positions b = []"
  shows "takes_correction b (in_client_order_id sample_intent) ((od_core (order_of_intent h sample_intent))\<lparr>oc_state := Reconciling\<rparr>)
    100000000 (Some 100000000)"
proof -
  have "booked_qty b c = e8_zero" for c using assms by (simp add: booked_qty_def fills_for_def all_fills_def hm_sorted_def)
  moreover have "reconciliation_exec_id (in_client_order_id sample_intent) 100000000 \<noteq> None"
  proof -
    have "str_prefix (min (inline_len (in_client_order_id sample_intent)) 26) (as_str (in_client_order_id sample_intent)) \<noteq> None" by code_simp
    moreover have "dec_i64 100000000 = [49, 48, 48, 48, 48, 48, 48, 48, 48]" by (simp add: dec_i64_def dec.simps)
    ultimately show ?thesis by (simp add: reconciliation_exec_id_def Let_def)
  qed
  moreover have "is_ok (transition_apply_fill ((created (in_client_order_id sample_intent) (in_instrument sample_intent) Buy
      500000000)\<lparr>oc_state := Reconciling\<rparr>) 100000000 KFillReceived)" by code_simp
  moreover have "fst (position_apply_fill Buy 100000000 100000000 position_default) = Inr ()" by code_simp
  moreover have "e8_checked_sub 100000000 e8_zero = Inr 100000000" by (simp add: e8_checked_sub_Inr)
  moreover have "order_of_intent h sample_intent = (order_of_intent h sample_intent)\<lparr>od_core :=
      created (in_client_order_id sample_intent) (in_instrument sample_intent) Buy 500000000\<rparr>"
    by (simp add: order_of_intent_def sample_intent_def)
  ultimately show ?thesis using assms
    by (auto simp: takes_correction_def Let_def book_fill_def transition_fill book_position_def created_def order_of_intent_def)
qed

lemma sample_settled:
  "\<exists>e' o1. submit (LookedUp (in_client_order_id sample_intent) (Found sample_snapshot)) sample_waiting = (Inr (), e') \<and> sound e' \<and>
     book_order (en_book e') (in_client_order_id sample_intent) = Some o1 \<and> oc_qty (od_core o1) = 500000000 \<and>
     order_trades (en_book e') (in_client_order_id sample_intent) = 100000000 \<and> en_halted e' = en_halted sample_waiting"
proof -
  obtain h where o': "book_order (en_book sample_waiting) (in_client_order_id sample_intent) = Some (order_of_intent h sample_intent)"
    using sample_waiting_ok(2) by blast
  have core: "oc_qty (od_core (order_of_intent h sample_intent)) = 500000000"
    by (simp add: order_of_intent_def created_def sample_intent_def)
  obtain e' where e': "submit (LookedUp (in_client_order_id sample_intent) (Found sample_snapshot)) sample_waiting = (Inr (), e')" "sound e'"
    using found_goes_through [OF sample_waiting_ok(1) _ o', of sample_snapshot] sample_takes_correction sample_waiting_account(1,2)
    by (auto simp: sample_snapshot_def command_wf_def core permits_iff in_i64_def i64_max_def i64_min_def)
  then have l: "on_looked_up (in_client_order_id sample_intent) (Found sample_snapshot) sample_waiting = (Inr (), e')"
    by (simp add: submit_def)
  note w = found_written [OF l o']
  have "book_fill (en_book sample_waiting) x = None" for x by (simp add: book_fill_def sample_waiting_account)
  then show ?thesis
    using e' w core corrects_traded [OF conjunct1 [OF w] sample_waiting_account(4)]
    by (auto simp: Let_def sample_waiting_account sample_snapshot_def i64_max_def same_identity_def)
qed

subsection \<open>Properties\<close>



text \<open>
  An order the venue never had is closed and moves nothing. When the answer to a lookup says that the order is absent,
  its reconciliation is over, the order is cancelled with nothing filled, and no other order, execution, position or
  halt changes. That holds also when executions had been booked for it: the position they built stays, and trading goes on.
\<close>

theorem absent_order_is_closed:
  assumes "submit (LookedUp c LookupAbsent) e = (Inr (), e')" "book_order (en_book e) c = Some o'" "book_inv (en_book e)"
  shows "(\<exists>o1. book_order (en_book e') c = Some o1 \<and> oc_state (od_core o1) = Canceled \<and> sint (oc_filled_qty (od_core o1)) = 0 \<and>
      same_identity (od_core o') (od_core o1)) \<and> hm_get (en_reconciling e') c = None \<and>
    (\<forall>d. d \<noteq> c \<longrightarrow> book_order (en_book e') d = book_order (en_book e) d) \<and>
    bk_fills (en_book e') = bk_fills (en_book e) \<and> bk_positions (en_book e') = bk_positions (en_book e) \<and>
    order_trades (en_book e') c = order_trades (en_book e) c \<and> en_halted e' = en_halted e"
proof -
  have l: "on_looked_up c LookupAbsent e = (Inr (), e')" using assms(1) by (simp add: submit_def)
  have "order_inv (od_core o')" using book_inv_order [OF assms(3)] assms(2) by (simp add: book_order_def)
  then have "0 \<le> sint (oc_qty (od_core o'))" by (auto simp: order_inv_def)
  then show ?thesis using absent_written [OF l assms(2)] by (auto simp: moves_only_def order_trades_def)
qed

theorem absent_order_is_closed_witness:
  "\<exists>e e'. order_trades (en_book e) (in_client_order_id sample_intent) = 100000000 \<and> \<not> en_halted e \<and>
     submit (LookedUp (in_client_order_id sample_intent) LookupAbsent) e = (Inr (), e') \<and>
     order_trades (en_book e') (in_client_order_id sample_intent) = 100000000 \<and> \<not> en_halted e' \<and>
     (\<exists>o1. book_order (en_book e') (in_client_order_id sample_intent) = Some o1 \<and> oc_state (od_core o1) = Canceled \<and>
        sint (oc_filled_qty (od_core o1)) = 0)"
proof -
  obtain e o1 where e: "sound e" "book_order (en_book e) (in_client_order_id sample_intent) = Some o1" "oc_qty (od_core o1) = 500000000"
    "order_trades (en_book e) (in_client_order_id sample_intent) = 100000000" "en_halted e = en_halted sample_waiting"
    using sample_settled by blast
  have "\<not> en_halted sample_waiting"
    by (simp add: sample_waiting_def write_record_def op_read_def write_at_fields sample_engine_def)
  moreover obtain e' where e': "submit (LookedUp (in_client_order_id sample_intent) LookupAbsent) e = (Inr (), e')"
    using absent_goes_through [OF e(1,2)] e(3) by (auto simp: in_i64_def i64_max_def i64_min_def)
  ultimately show ?thesis using absent_order_is_closed [OF e' e(2) sound_book_inv [OF e(1)]] e(4,5) e' by metis
qed

end
