(* ===== verification/Adoption.thy ===== *)
theory Adoption
  imports Settlement
begin

text \<open>
  What a report of the venue's positions settles (\<open>on_positions\<close> and \<open>adopt_position\<close> in \<open>sentinel-engine/src/engine.rs\<close>).

  Shown here: after a report, every reported instrument has the venue's position in the book, or an order in flight that
  may explain the difference, or trading is stopped; and what the report leaves out is never compared.
\<close>

subsection \<open>The names of an adoption\<close>

definition adoption_name :: "epoch \<Rightarrow> instrument \<Rightarrow> str" where
  "adoption_name epoch i = lit ''ADOPT-'' @ take (min (inline_len i) 20) (as_str i) @ 45 # dec (unat epoch)"

abbreviation adoption_order :: "epoch \<Rightarrow> instrument \<Rightarrow> client_order_id" where
  "adoption_order epoch i \<equiv> inline_or_default 36 (adoption_name epoch i)"

abbreviation adoption_exec :: "epoch \<Rightarrow> instrument \<Rightarrow> exec_id" where
  "adoption_exec epoch i \<equiv> inline_or_default 40 (adoption_name epoch i)"

lemma inline_or_default_inj:
  assumes "inline_or_default N s = inline_or_default N t" "length s \<le> N" "length t \<le> N" "N \<le> 255"
  shows "s = t"
proof -
  have "s @ replicate (N - length s) 0 = t @ replicate (N - length t) 0" "(of_nat (length s) :: u8) = of_nat (length t)"
    using assms by (auto simp: inline_or_default_def inline_new_def unwrap_or_def)
  moreover from this have "length s = length t" using assms by (metis le_trans unat_of_nat_u8)
  ultimately show ?thesis by simp
qed

lemma as_str_length: "inline_wf N i \<Longrightarrow> length (as_str i) = inline_len i \<and> inline_len i \<le> N"
  by (auto simp: inline_wf_def as_str_def inline_len_def Let_def)

lemma adoption_name_props:
  assumes "text_ok 16 i" "unat epoch < 10 ^ 13"
  shows "adoption_name epoch i = lit ''ADOPT-'' @ as_str i @ 45 # dec (unat epoch)" "length (adoption_name epoch i) \<le> 36"
proof -
  have i: "length (as_str i) = inline_len i" "inline_len i \<le> 16" using assms(1) as_str_length by (auto simp: text_ok_def)
  then show eq: "adoption_name epoch i = lit ''ADOPT-'' @ as_str i @ 45 # dec (unat epoch)"
    by (simp add: adoption_name_def)
  have "length (dec (unat epoch)) \<le> 13" using dec_length [of "unat epoch" 13] assms(2) by simp
  then show "length (adoption_name epoch i) \<le> 36" using i by (simp add: eq lit_def)
qed

lemma adoption_names_differ:
  assumes "text_ok 16 i" "text_ok 16 j" "unat epoch < 10 ^ 13" "i \<noteq> j"
  shows "adoption_order epoch i \<noteq> adoption_order epoch j" "adoption_exec epoch i \<noteq> adoption_exec epoch j"
proof -
  have "as_str i \<noteq> as_str j"
    using assms inline_new_as_str [of 16 i] inline_new_as_str [of 16 j] by (auto simp: text_ok_def)
  then have "adoption_name epoch i \<noteq> adoption_name epoch j"
    using adoption_name_props(1) assms by simp
  moreover have "length (adoption_name epoch i) \<le> 36" "length (adoption_name epoch j) \<le> 36"
    using adoption_name_props(2) assms by blast+
  ultimately show "adoption_order epoch i \<noteq> adoption_order epoch j" "adoption_exec epoch i \<noteq> adoption_exec epoch j"
    using inline_or_default_inj [of 36 "adoption_name epoch i" "adoption_name epoch j"]
      inline_or_default_inj [of 40 "adoption_name epoch i" "adoption_name epoch j"] by auto
qed

subsection \<open>What an adoption writes\<close>

lemma intent_written:
  assumes "write_record (IntentPersisted i) e = (Inr a, e')" "book_order (en_book e) (in_client_order_id i) = None"
  shows "en_halted e' = en_halted e \<and> moves_only (in_client_order_id i) (en_book e) (en_book e') \<and>
    (\<exists>h. book_order (en_book e') (in_client_order_id i) = Some (order_of_intent h i))"
proof -
  obtain h where h: "en_halted e' = en_halted e"
    "book_apply h (IntentPersisted i) (en_book e) = (Inr a :: journal_error ledger_error + applied, en_book e')"
    using written [OF assms(1)] by blast
  have "en_book e' = snd (book_apply h (IntentPersisted i) (en_book e) :: (journal_error ledger_error + applied) \<times> book)"
    by (simp add: h(2))
  then show ?thesis
    using h(1) assms(2) by (auto simp: book_apply_def apply_record_def apply_intent_def op_defs book_stamp_def book_order_def moves_only_def)
qed

text \<open>What the report of one instrument may touch: one order, one execution and one position, and no halt is lifted.\<close>

definition touches :: "epoch \<Rightarrow> instrument \<Rightarrow> engine \<Rightarrow> engine \<Rightarrow> bool" where
  "touches k i e e' \<longleftrightarrow>
     (\<forall>d. d \<noteq> adoption_order k i \<longrightarrow> book_order (en_book e') d = book_order (en_book e) d) \<and>
     (\<forall>x. x \<noteq> adoption_exec k i \<longrightarrow> book_fill (en_book e') x = book_fill (en_book e) x) \<and>
     (\<forall>j. j \<noteq> i \<longrightarrow> sint (ps_qty (book_position (en_book e') j)) = sint (ps_qty (book_position (en_book e) j))) \<and>
     (en_halted e \<longrightarrow> en_halted e')"

lemma account_kept_touches: "account_kept (en_book e) (en_book e') \<Longrightarrow> (en_halted e \<longrightarrow> en_halted e') \<Longrightarrow> touches k i e e'"
  by (simp add: touches_def account_kept_def book_order_def book_fill_def book_position_def)

lemma adopt_records_written:
  assumes "adopt_records intent x q pr e = (Inr u, e')" "book_order (en_book e) (in_client_order_id intent) = None"
    "book_fill (en_book e) x = None"
  shows "en_halted e' = en_halted e \<and>
    (\<forall>d. d \<noteq> in_client_order_id intent \<longrightarrow> book_order (en_book e') d = book_order (en_book e) d) \<and>
    (\<forall>y. y \<noteq> x \<longrightarrow> book_fill (en_book e') y = book_fill (en_book e) y) \<and>
    (\<forall>j. sint (ps_qty (book_position (en_book e') j)) = sint (ps_qty (book_position (en_book e) j)) +
       (if j = in_instrument intent then sgn_of (in_side intent) * sint (in_qty intent) else 0))"
proof -
  let ?c = "in_client_order_id intent" and ?t = "in_trace_id intent"
  obtain a1 e1 a2 e2 a3 e3 a4 e4 k n where w: "write_record (IntentPersisted intent) e = (Inr a1, e1)"
    "write_event ?c ?t (ReconcileStarted PositionDisagreement) e1 = (Inr a2, e2)"
    "write_event ?c ?t (FillReceived x (in_qty intent) pr) e2 = (Inr a3, e3)"
    "write_event ?c ?t (ReconcileResolved Filled None (in_qty intent)) e3 = (Inr a4, e4)"
    "decide (in_instrument intent) Reconciler EntryPlaced k q n e4 = (Inr u, e')"
    using assms(1) by (auto simp: adopt_records_def Let_def op_seq_Inr)
  obtain h where o1: "en_halted e1 = en_halted e" "moves_only ?c (en_book e) (en_book e1)"
    "book_order (en_book e1) ?c = Some (order_of_intent h intent)"
    using intent_written [OF w(1) assms(2)] by blast
  have "\<not> needs_reconciliation err"
    if "transition (od_core (order_of_intent h intent)) (ReconcileStarted PositionDisagreement) = Inl err" for err
    using that by (auto simp: transition_def Let_def needs_reconciliation_def res_bind_def guard_def split: if_splits)
  then obtain h2 nxt where o2: "transition (od_core (order_of_intent h intent)) (ReconcileStarted PositionDisagreement) = Inr nxt"
    "en_halted e2 = en_halted e1" "moves_only ?c (en_book e1) (en_book e2)"
    "book_order (en_book e2) ?c = Some (stored_order h2 nxt (ReconcileStarted PositionDisagreement) (order_of_intent h intent))"
    using step_written [OF w(2) o1(3)] by auto
  have nxt: "oc_state nxt = Reconciling" "oc_side nxt = in_side intent" "oc_instrument nxt = in_instrument intent"
    using o2(1) by (auto simp: transition_Inr_simps order_of_intent_def created_def)
  have fresh: "book_fill (en_book e2) x = None" using o1(2) o2(3) assms(3) by (simp add: moves_only_def book_fill_def)
  note c = correction_written [OF w(3) o2(4), unfolded stored_order_core, OF nxt(1)]
  obtain o3 f where o3: "book_order (en_book e3) ?c = Some o3" "\<forall>d. d \<noteq> ?c \<longrightarrow> book_order (en_book e3) d = book_order (en_book e2) d"
    "bk_fills (en_book e3) = hm_insert x f (bk_fills (en_book e2))"
    "\<forall>j. sint (ps_qty (book_position (en_book e3) j)) = sint (ps_qty (book_position (en_book e2) j)) +
        (if j = in_instrument intent then sgn_of (in_side intent) * sint (in_qty intent) else 0)"
    using c fresh nxt(2,3) by auto
  have o4: "en_halted e4 = en_halted e3" "moves_only ?c (en_book e3) (en_book e4)" using resolve_written [OF w(4) o3(1)] by auto
  have "en_halted e3 = en_halted e2" using event_written [OF w(3)] by blast
  then have "en_halted e' = en_halted e" using o1(1) o2(2) o4(1) decide_still [OF w(5)] by simp
  then show ?thesis
    using o1(2) o2(3) o3(2-4) o4(2) decide_still [OF w(5)]
    by (auto simp: moves_only_def account_kept_def book_order_def book_fill_def book_position_def)
qed

definition settled :: "engine \<Rightarrow> venue_position \<Rightarrow> bool" where
  "settled e p \<longleftrightarrow> sint (ps_qty (book_position (en_book e) (vp_instrument p))) = sint (vp_qty p) \<or>
     live_orders_on (en_book e) (vp_instrument p) \<noteq> [] \<or> en_halted e"

lemma adopt_written:
  assumes "adopt_position p e = (Inr u, e')" "sint (ps_qty (book_position (en_book e) (vp_instrument p))) = 0" "i64_min < sint (vp_qty p)"
    "book_order (en_book e) (adoption_order (jn_epoch (en_journal e)) (vp_instrument p)) = None"
    "book_fill (en_book e) (adoption_exec (jn_epoch (en_journal e)) (vp_instrument p)) = None"
  shows "settled e' p \<and> touches (jn_epoch (en_journal e)) (vp_instrument p) e e'"
proof -
  let ?i = "vp_instrument p" and ?k = "jn_epoch (en_journal e)"
  let ?side = "if e8_is_positive (vp_qty p) then Buy else Sell"
  let ?m = "intent_market (adoption_order ?k ?i) ?i ?side (e8_abs (vp_qty p)) Entry (adoption_trace ?k)"
  let ?n = "\<lambda>err. note_new (as_str ?i @ lit '': cannot adopt '' @ format_e8 (vp_qty p) @ lit '': '' @ intent_error_text err)"
  let ?pr = "case vp_entry_price p of Some p \<Rightarrow> p
    | None \<Rightarrow> (case book_mark (en_book e) ?i of Some p \<Rightarrow> p | None \<Rightarrow> e8_zero)"
  have head: "str_prefix (min (inline_len ?i) 20) (as_str ?i) = Some (take (min (inline_len ?i) 20) (as_str ?i))"
    using assms(1) by (auto simp: adopt_position_def Let_def op_read_def op_bind_Inr or_panic_def str_prefix_def split: if_splits)
  have run: "(case ?m of Inl err \<Rightarrow> on_halt (?n err)
      | Inr intent \<Rightarrow> adopt_records intent (adoption_exec ?k ?i) (vp_qty p) ?pr) e = (Inr u, e')"
    using assms(1) unfolding adopt_position_def Let_def op_read_def head or_panic_def adoption_name_def
    by (simp add: op_bind_def op_ok_def)
  show ?thesis
  proof (cases ?m)
    case (Inl err)
    then show ?thesis using run halt_still account_kept_touches by (force simp: settled_def)
  next
    case (Inr intent)
    then have i: "in_client_order_id intent = adoption_order ?k ?i" "in_instrument intent = ?i" "in_side intent = ?side"
      "in_qty intent = e8_abs (vp_qty p)" by (auto simp: intent_market_Inr)
    have "sgn_of ?side * sint (e8_abs (vp_qty p)) = sint (vp_qty p)"
      using assms(3) sint_i64_range [of "vp_qty p"] by (auto simp: sint_e8_abs e8_is_positive_def i64_min_def i64_max_def)
    moreover have "adopt_records intent (adoption_exec ?k ?i) (vp_qty p) ?pr e = (Inr u, e')" using run Inr by simp
    ultimately show ?thesis
      using adopt_records_written [of intent "adoption_exec ?k ?i" "vp_qty p" ?pr e u e'] i assms(2,4,5)
      by (auto simp: settled_def touches_def)
  qed
qed

lemma reported_written:
  assumes "on_reported_position first_report p e = (Inr u, e')" "sound e" "text_ok 16 (vp_instrument p)" "i64_min < sint (vp_qty p)"
    "book_order (en_book e) (adoption_order (jn_epoch (en_journal e)) (vp_instrument p)) = None"
    "book_fill (en_book e) (adoption_exec (jn_epoch (en_journal e)) (vp_instrument p)) = None"
  shows "settled e' p \<and> touches (jn_epoch (en_journal e)) (vp_instrument p) e e' \<and> sound e'"
proof -
  let ?i = "vp_instrument p" and ?b = "en_book e"
  have snd': "sound e'" using replayable_reported [OF assms(3)] assms(1,2) by (auto simp: replayable_def)
  consider "ps_qty (book_position ?b ?i) = vp_qty p" "e' = e"
    | "has_never_traded ?b ?i" "adopt_position p e = (Inr u, e')"
    | k n where "live_orders_on ?b ?i \<noteq> []" "decide ?i Reconciler ReconcileScheduled 0 k n e = (Inr u, e')"
    | k n n' x e1 where "decide ?i Reconciler ReconcileScheduled 0 k n e = (Inr x, e1)" "on_halt n' e1 = (Inr u, e')"
    using assms(1) by (auto simp: on_reported_position_def op_read_def Let_def op_seq_Inr split: if_splits)
  then have "settled e' p \<and> touches (jn_epoch (en_journal e)) ?i e e'"
  proof cases
    case 1
    then show ?thesis by (simp add: settled_def touches_def)
  next
    case 2
    then show ?thesis using adopt_written [OF 2(2) _ assms(4-6)] by (simp add: has_never_traded_def e8_is_zero_iff)
  next
    case 3
    have kept: "account_kept ?b (en_book e')" "en_halted e' = en_halted e" using decide_still [OF 3(2)] by auto
    obtain o' where "o' \<in> set (live_orders_on ?b ?i)" using 3(1) by (meson ex_in_conv set_empty)
    then have "o' \<in> set (live_orders_on (en_book e') ?i)"
      using kept(1) live_on_mem [OF sound_book_inv [OF assms(2)]] live_on_mem [OF sound_book_inv [OF snd']]
      by (simp add: account_kept_def)
    then have "live_orders_on (en_book e') ?i \<noteq> []" by auto
    then show ?thesis using account_kept_touches [OF kept(1)] kept(2) by (simp add: settled_def)
  next
    case 4
    have "account_kept ?b (en_book e')" "en_halted e'"
      using decide_still [OF 4(1)] halt_still [OF 4(2)] by (auto simp: account_kept_def)
    then show ?thesis using account_kept_touches by (simp add: settled_def)
  qed
  then show ?thesis using snd' by simp
qed

text \<open>What is settled for one instrument stays settled while another is reported.\<close>

lemma settled_kept:
  assumes "settled e q" "touches k i e e'" "vp_instrument q \<noteq> i" "book_order (en_book e) (adoption_order k i) = None" "sound e" "sound e'"
  shows "settled e' q"
proof (cases "live_orders_on (en_book e) (vp_instrument q) = []")
  case True
  then show ?thesis using assms(1-3) by (auto simp: settled_def touches_def)
next
  case False
  then obtain o' c where o': "hm_get (bk_orders (en_book e)) c = Some o'" "o' \<in> set (live_orders_on (en_book e) (vp_instrument q))"
    using live_on_mem [OF sound_book_inv [OF assms(5)]] by (metis list.set_intros(1) neq_Nil_conv)
  then have "c \<noteq> adoption_order k i" using assms(4) by (auto simp: book_order_def)
  then have "hm_get (bk_orders (en_book e')) c = Some o'" using o'(1) assms(2) by (simp add: touches_def book_order_def)
  then have "o' \<in> set (live_orders_on (en_book e') (vp_instrument q))"
    using o'(2) live_on_mem [OF sound_book_inv [OF assms(5)]] live_on_mem [OF sound_book_inv [OF assms(6)]] by blast
  then show ?thesis by (auto simp: settled_def)
qed

lemma append_epoch: "jn_epoch (snd (journal_append kind now payload j)) = jn_epoch j"
  by (auto simp: journal_append_def Let_def split: option.split)

interpretation keep_epoch: write_closed "same_of (\<lambda>e. jn_epoch (en_journal e))"
  by unfold_locales (auto simp: keeps_def same_of_def write_at_journal append_epoch)

lemma confirmed_kept: "en_position_confirmed (snd (op_for (on_reported_position first_report) ps e)) = en_position_confirmed e"
proof -
  let ?R = "same_of en_position_confirmed"
  have w [keeps_intros]: "keeps ?R (write_at now r)" for now r by (simp add: keeps_def same_of_def write_at_fields)
  have r [keeps_intros]: "keeps ?R (write_record r)" for r unfolding write_record_def by (intro keeps_intros)
  have [keeps_intros]: "keeps ?R (write_event c t ev)" for c t ev unfolding write_event_def by (intro keeps_intros)
  have [keeps_intros]: "keeps ?R (decide i a k t v n)" for i a k t v n
    unfolding decide_def by (intro keeps_intros preorder_same_of)
  have [keeps_intros]: "keeps ?R (on_halt n)" for n
    unfolding on_halt_def by (intro keeps_read_all) (auto intro!: keeps_intros preorder_same_of simp: same_of_def)
  have [keeps_intros]: "keeps ?R (adopt_records i x q pr)" for i x q pr
    unfolding adopt_records_def Let_def by (intro keeps_intros preorder_same_of)
  have [keeps_intros]: "keeps ?R (or_panic x)" for x :: "'a option"
    by (cases x) (auto simp: or_panic_def intro!: keeps_intros preorder_same_of)
  have [keeps_intros]: "keeps ?R (adopt_position p)" for p
    unfolding adopt_position_def Let_def by (auto intro!: keeps_intros preorder_same_of split: sum.split)
  have "keeps ?R (on_reported_position first_report p)" for p
    unfolding on_reported_position_def Let_def by (auto intro!: keeps_intros preorder_same_of)
  then have "keeps ?R (op_for (on_reported_position first_report) ps)" by (intro keeps_for preorder_same_of)
  then show ?thesis by (simp add: keeps_def same_of_def)
qed

text \<open>The names an adoption would take are not taken.\<close>

definition unnamed :: "engine \<Rightarrow> venue_position \<Rightarrow> bool" where
  "unnamed e p \<longleftrightarrow> (let k = jn_epoch (en_journal e) in
     book_order (en_book e) (adoption_order k (vp_instrument p)) = None \<and> book_fill (en_book e) (adoption_exec k (vp_instrument p)) = None)"

lemma unnamed_kept:
  assumes "unnamed e q" "touches (jn_epoch (en_journal e)) i e e'" "jn_epoch (en_journal e') = jn_epoch (en_journal e)"
    "vp_instrument q \<noteq> i" "text_ok 16 i" "text_ok 16 (vp_instrument q)" "unat (jn_epoch (en_journal e)) < 10 ^ 13"
  shows "unnamed e' q"
  using assms adoption_names_differ [OF assms(6,5,7,4)] by (simp add: unnamed_def touches_def)

lemma reports_written:
  assumes "op_for (on_reported_position first_report) ps e = (Inr u, e')" "sound e" "unat (jn_epoch (en_journal e)) < 10 ^ 13"
    "distinct (map vp_instrument ps)" "\<forall>p \<in> set ps. text_ok 16 (vp_instrument p) \<and> i64_min < sint (vp_qty p) \<and> unnamed e p"
  shows "(\<forall>p \<in> set ps. settled e' p) \<and> (\<forall>q. vp_instrument q \<notin> vp_instrument ` set ps \<longrightarrow> settled e q \<longrightarrow> settled e' q)"
  using assms
proof (induction ps arbitrary: e)
  case (Cons p ps)
  obtain x e1 where s: "on_reported_position first_report p e = (Inr x, e1)" "op_for (on_reported_position first_report) ps e1 = (Inr u, e')"
    using Cons.prems(1) by (auto simp: op_seq_Inr)
  have p: "text_ok 16 (vp_instrument p)" "i64_min < sint (vp_qty p)"
    "book_order (en_book e) (adoption_order (jn_epoch (en_journal e)) (vp_instrument p)) = None"
    "book_fill (en_book e) (adoption_exec (jn_epoch (en_journal e)) (vp_instrument p)) = None"
    using Cons.prems(5) by (auto simp: unnamed_def Let_def)
  have w: "settled e1 p" "touches (jn_epoch (en_journal e)) (vp_instrument p) e e1" "sound e1"
    using reported_written [OF s(1) Cons.prems(2) p] by auto
  have k: "jn_epoch (en_journal e1) = jn_epoch (en_journal e)"
    using keep_epoch.on_reported_position [of first_report p] s(1) by (auto simp: keeps_def same_of_def) (metis snd_conv)
  have "unnamed e1 q" if "q \<in> set ps" for q
  proof -
    have "vp_instrument q \<noteq> vp_instrument p" using that Cons.prems(4) by (force simp: image_iff)
    then show ?thesis using unnamed_kept [OF _ w(2) k _ p(1) _ Cons.prems(3)] that Cons.prems(5) by auto
  qed
  then have IH: "(\<forall>p \<in> set ps. settled e' p) \<and> (\<forall>q. vp_instrument q \<notin> vp_instrument ` set ps \<longrightarrow> settled e1 q \<longrightarrow> settled e' q)"
    using Cons.IH [OF s(2) w(3)] k Cons.prems(3-5) by auto
  moreover have "settled e1 q" if "vp_instrument q \<noteq> vp_instrument p" "settled e q" for q
    using settled_kept [OF that(2) w(2) that(1) p(3) Cons.prems(2) w(3)] .
  ultimately show ?case using w(1) Cons.prems(4) by auto
qed simp

subsection \<open>An adoption that goes through\<close>

lemma adopt_records_goes_through:
  assumes "sound e" "record_wf (IntentPersisted i)" "text_ok 40 x" "book_order (en_book e) (in_client_order_id i) = None"
    "book_fill (en_book e) x = None" "in_i64 (2 * sint (in_qty i))"
    "fst (position_apply_fill (in_side i) (in_qty i) pr (book_position (en_book e) (in_instrument i))) = Inr ()"
  shows "\<exists>e'. adopt_records i x q pr e = (Inr (), e') \<and> sound e'"
proof -
  let ?c = "in_client_order_id i" and ?t = "in_trace_id i"
  have qty: "0 < sint (in_qty i)" using assms(2) by (simp add: intent_wf_def)
  obtain a1 e1 where e1: "write_record (IntentPersisted i) e = (Inr a1, e1)" "sound e1"
    using write_record_ok [OF assms(1,2) intent_applies] by blast
  obtain h where o1: "book_order (en_book e1) ?c = Some (order_of_intent h i)" "moves_only ?c (en_book e) (en_book e1)"
    using intent_written [OF e1(1) assms(4)] by blast
  have state: "oc_state (od_core (order_of_intent h i)) = Created" by (simp add: order_of_intent_def created_def)
  obtain a2 e2 where e2: "write_event ?c ?t (ReconcileStarted PositionDisagreement) e1 = (Inr a2, e2)" "sound e2"
    using event_goes_through [OF e1(2) _ o1(1), of "ReconcileStarted PositionDisagreement" _ ?t] state
    by (force simp: transition_Inr_simps is_known_fill_def)
  let ?core = "(od_core (order_of_intent h i))\<lparr>oc_state := Reconciling\<rparr>"
  have "\<not> needs_reconciliation err" if "transition (od_core (order_of_intent h i)) (ReconcileStarted PositionDisagreement) = Inl err" for err
    using that by (auto simp: transition_def Let_def needs_reconciliation_def res_bind_def guard_def split: if_splits)
  then obtain o2 where o2: "book_order (en_book e2) ?c = Some o2" "od_core o2 = ?core" "moves_only ?c (en_book e1) (en_book e2)"
    using step_written [OF e2(1) o1(1)] by (auto simp: transition_Inr_simps)
  have core: "oc_state ?core = Reconciling" "oc_side ?core = in_side i" "oc_instrument ?core = in_instrument i" "oc_qty ?core = in_qty i"
    "oc_filled_qty ?core = e8_zero" by (simp_all add: order_of_intent_def created_def)
  have kept: "book_position (en_book e2) j = book_position (en_book e) j" "book_fill (en_book e2) x = None" for j
    using o1(2) o2(3) assms(5) by (simp_all add: moves_only_def book_position_def book_fill_def)
  obtain nxt where "transition (od_core o2) (FillReceived x (in_qty i) pr) = Inr nxt"
    using fill_accepted [of ?core "in_qty i" x pr] core qty assms(6) o2(2) by auto
  then obtain a3 e3 where e3: "write_event ?c ?t (FillReceived x (in_qty i) pr) e2 = (Inr a3, e3)" "sound e3"
    using event_goes_through [OF e2(2) _ o2(1), of "FillReceived x (in_qty i) pr" nxt ?t] assms(3,7) kept core o2(2)
    by (auto simp: is_known_fill_def book_fill_def)
  obtain o3 where o3: "book_order (en_book e3) ?c = Some o3" "same_identity ?core (od_core o3)" "oc_state (od_core o3) = Reconciling"
    using correction_written [OF e3(1) o2(1)] o2(2) by auto
  obtain a4 e4 where e4: "write_event ?c ?t (ReconcileResolved Filled None (in_qty i)) e3 = (Inr a4, e4)" "sound e4"
    using resolve_goes_through [OF e3(2) o3(1,3), of Filled "in_qty i" None ?t] o3(2) core(4) qty assms(6)
    by (auto simp: permits_iff same_identity_def)
  have "\<exists>e5. decide (in_instrument i) Reconciler EntryPlaced ?t q n e4 = (Inr (), e5) \<and> sound e5" if "text_ok 96 n" for n
    using decide_ok [OF e4(2)] assms(2) that by fastforce
  then show ?thesis
    using e1(1) e2(1) e3(1) e4(1) by (simp add: adopt_records_def Let_def op_seq_def op_bind_def)
qed

definition sample_position :: venue_position where
  "sample_position = \<lparr>vp_instrument = in_instrument sample_intent, vp_qty = - 500000000, vp_entry_price = Some 100000000\<rparr>"

definition sample_fresh :: engine where
  "sample_fresh = sample_engine\<lparr>en_position_confirmed := False\<rparr>"

lemma sample_fresh_simps [simp]: "en_book sample_fresh = book_new" "en_journal sample_fresh = sample_journal" "en_position_confirmed sample_fresh = False"
  "en_halted sample_fresh = False"
  by (simp_all add: sample_fresh_def) (simp add: sample_engine_def)

lemma sample_adoption:
  "\<exists>e'. submit (PositionsReported [Some sample_position, None]) sample_fresh = (Inr (), e') \<and> \<not> en_halted e'"
proof -
  let ?i = "in_instrument sample_intent" and ?e = "sample_fresh\<lparr>en_position_confirmed := True\<rparr>"
  let ?k = "jn_epoch sample_journal"
  have epoch: "?k = 1" by (simp add: sample_journal_def reopened_def)
  then have k: "unat ?k < 10 ^ 13" by simp
  have ok: "text_ok 16 ?i" by simp
  have e: "sound ?e" using sample_sound by (simp add: sound_def sample_fresh_def)
  let ?n = "adoption_name ?k ?i"
  have pos: "vp_qty sample_position = - 500000000" "vp_instrument sample_position = ?i" "vp_entry_price sample_position = Some 100000000"
    by (simp_all add: sample_position_def)
  have empty: "book_order book_new c = None" "book_fill book_new x = None" "book_position book_new j = position_default" for c x j
    by (simp_all add: book_new_def book_order_def book_fill_def book_position_def)
  have never: "has_never_traded book_new ?i"
    by (simp add: has_never_traded_def book_position_def position_default_def book_orders_def filter_map_def book_new_def all_fills_def
        hm_sorted_def List.map_filter_simps e8_is_zero_def)
  have head: "str_prefix (min (inline_len ?i) 20) (as_str ?i) = Some (take (min (inline_len ?i) 20) (as_str ?i))" by code_simp
  have name: "printable ?n" using printable_as_str [OF ok] by (simp add: adoption_name_props(1) [OF ok k])
  have full: "\<not> inline_is_empty (adoption_order ?k ?i)"
  proof -
    have "length ?n \<le> 36" "0 < length ?n" using adoption_name_props(2) [OF ok k] by (simp_all add: adoption_name_def)
    then have "unat (of_nat (length ?n) :: u8) \<noteq> 0" by (subst unat_of_nat_u8) auto
    then have "(of_nat (length ?n) :: u8) \<noteq> 0" by auto
    then show ?thesis using \<open>length ?n \<le> 36\<close> by (simp add: inline_is_empty_def inline_or_default_def inline_new_def unwrap_or_def)
  qed
  have abs: "sint (e8_abs (- 500000000)) = 500000000" by (simp add: sint_e8_abs i64_max_def)
  obtain i where i: "intent_market (adoption_order ?k ?i) ?i Sell (e8_abs (- 500000000)) Entry (adoption_trace ?k) = Inr i"
    "in_client_order_id i = adoption_order ?k ?i" "in_instrument i = ?i" "in_side i = Sell" "in_qty i = e8_abs (- 500000000)"
    using intent_market_Inr full abs by auto
  have wf: "record_wf (IntentPersisted i)" using i ok name by (auto simp: intent_market_def intent_new_Inr printable_inline)
  have fits: "fst (position_apply_fill Sell (e8_abs (- 500000000)) 100000000 position_default) = Inr ()" by code_simp
  obtain e' where e': "adopt_records i (adoption_exec ?k ?i) (- 500000000) 100000000 ?e = (Inr (), e')"
    using adopt_records_goes_through [OF e wf printable_inline [OF name], of 100000000 "- 500000000"] i(2-5) empty fits abs
    by (auto simp: in_i64_def i64_min_def i64_max_def)
  have "adopt_position sample_position ?e = (Inr (), e')"
    unfolding adopt_position_def Let_def op_read_def pos
    using e' i(1) head by (simp add: or_panic_def op_bind_def op_ok_def adoption_name_def e8_is_positive_def)
  then have "on_reported_position True sample_position ?e = (Inr (), e')"
    using never by (simp add: on_reported_position_def op_read_def Let_def pos empty position_default_def)
  then have "submit (PositionsReported [Some sample_position, None]) sample_fresh = (Inr (), e')"
    by (simp add: submit_def on_positions_def op_read_def Let_def op_modify_def filter_map_def List.map_filter_simps
        op_seq_def op_bind_def op_ok_def)
  moreover have "en_halted e' = en_halted ?e"
    using adopt_records_written [OF e'] i(2) empty by simp
  ultimately show ?thesis by simp
qed

subsection \<open>Properties\<close>



text \<open>
  What a report leaves out is not compared. Both venues leave out what is flat. Let the simulated venue be flat in one
  instrument and agree with the book in every other: its report is taken without a decision or a halt, whatever position
  the book holds in that instrument.
\<close>

theorem closed_position_goes_unnoticed:
  assumes "sim_positions v = (Inr rs, v)" "sv_forced_positions v = None" "hm_wf (sv_positions v)"
    "hm_get (sv_positions v) i \<in> {None, Some 0}"
    "\<forall>j q. j \<noteq> i \<longrightarrow> hm_get (sv_positions v) j = Some q \<longrightarrow> ps_qty (book_position (en_book e) j) = q"
  shows "submit (positions_reported rs) e = (Inr (), e\<lparr>en_position_confirmed := True\<rparr>)"
proof -
  have agree: "ps_qty (book_position (en_book e) (vp_instrument p)) = vp_qty p" if "p \<in> set rs" for p
  proof -
    have "hm_get (sv_positions v) (vp_instrument p) = Some (vp_qty p)" "vp_qty p \<noteq> 0"
      using that assms(1-3) by (auto simp: sim_positions_def hm_sorted_def hm_get_def hm_wf_def e8_is_zero_def)
    then show ?thesis using assms(4,5) by (cases "vp_instrument p = i") auto
  qed
  have none: "op_for (on_reported_position b) ps e' = (Inr (), e')"
    if "\<forall>p \<in> set ps. ps_qty (book_position (en_book e') (vp_instrument p)) = vp_qty p" for b ps e'
    using that by (induction ps) (simp_all add: op_seq_def op_bind_def op_ok_def on_reported_position_def op_read_def Let_def)
  have "set (filter_map (\<lambda>x. x) (take 8 (map Some rs @ replicate 8 None))) \<subseteq> set rs"
    by (auto simp: filter_map_def map_filter_def dest!: in_set_takeD split: if_splits)
  then have "op_for (on_reported_position b) (filter_map (\<lambda>x. x) (take 8 (map Some rs @ replicate 8 None))) (e\<lparr>en_position_confirmed := True\<rparr>) =
      (Inr (), e\<lparr>en_position_confirmed := True\<rparr>)" for b
    using agree by (intro none) auto
  then show ?thesis
    unfolding positions_reported_def submit_def on_positions_def op_read_def Let_def by (simp add: op_seq_modify del: take_append)
qed

theorem closed_position_goes_unnoticed_witness:
  "\<exists>e. ps_qty (book_position (en_book e) (in_instrument sample_intent)) = 500000000 \<and> \<not> en_halted e \<and>
     submit (positions_reported []) e = (Inr (), e\<lparr>en_position_confirmed := True\<rparr>)"
proof -
  let ?e = "sample_engine\<lparr>en_book := book_new\<lparr>bk_positions := [(in_instrument sample_intent, position_default\<lparr>ps_qty := 500000000\<rparr>)]\<rparr>\<rparr>"
  have "submit (positions_reported []) ?e = (Inr (), ?e\<lparr>en_position_confirmed := True\<rparr>)"
    by (rule closed_position_goes_unnoticed [where v = sim_new and i = "in_instrument sample_intent"])
      (simp_all add: sim_new_def sim_positions_def hm_sorted_def hm_wf_def)
  moreover have "ps_qty (book_position (en_book ?e) (in_instrument sample_intent)) = 500000000"
    by (simp add: book_position_def hm_get_def)
  moreover have "\<not> en_halted ?e" by (simp add: sample_engine_def)
  ultimately show ?thesis by blast
qed

end
