(* ===== verification/Scenarios.thy ===== *)
theory Scenarios
  imports Book "HOL-Library.Monad_Syntax"
begin

text \<open>
  The scenarios of \<open>sentinel-domain/src/scenarios.rs\<close>: the specification of the lifecycle, driven end to end. Each scenario
  is the function the code has, over \<open>option\<close>: \<open>None\<close> is a panic, so a failed assertion, an \<open>unwrap\<close> of an error and a
  rejected \<open>step\<close> all end it. The breadth-first search of R1.3 is a terminating function.

  Shown here: every scenario runs to its end; the search of R1.3 succeeds from any order that has left
  \<open>CREATED\<close>, with any set of sample events; and the compound chain of R1.14 holds for every way the venue may have split
  its executions.
\<close>

subsection \<open>The functions of the file\<close>

definition unwrap :: "'e + 'a \<Rightarrow> 'a option" where
  "unwrap r = (case r of Inl _ \<Rightarrow> None | Inr x \<Rightarrow> Some x)"

definition unwrap_err :: "'e + 'a \<Rightarrow> 'e option" where
  "unwrap_err r = (case r of Inl x \<Rightarrow> Some x | Inr _ \<Rightarrow> None)"

definition assert_that :: "bool \<Rightarrow> unit option" where
  "assert_that p = (if p then Some () else None)"

definition scenario_order :: "i64 \<Rightarrow> order_core option" where
  "scenario_order qty = do {
     c \<leftarrow> unwrap (inline_new 36 (lit ''SENT-R1-14''));
     i \<leftarrow> unwrap (inline_new 16 (lit ''BTCUSD''));
     Some (created c i Buy (e8_whole qty)) }"

definition scenario_fill :: "string \<Rightarrow> i64 \<Rightarrow> order_event option" where
  "scenario_fill exec qty = do {
     x \<leftarrow> unwrap (inline_new 40 (lit exec));
     p \<leftarrow> unwrap (parse_e8 (lit ''109432.5''));
     Some (FillReceived x (e8_whole qty) p) }"

definition scenario_step :: "order_core \<Rightarrow> order_event \<Rightarrow> order_core option" where
  "scenario_step core e = unwrap (transition core e)"

fun step_all :: "order_core \<Rightarrow> order_event list \<Rightarrow> order_core option" where
  "step_all core [] = Some core"
| "step_all core (e # es) = do { nxt \<leftarrow> scenario_step core e; step_all nxt es }"

definition scenario_replay :: "order_event list \<Rightarrow> order_core option" where
  "scenario_replay events = do { core \<leftarrow> scenario_order 10; step_all core events }"

definition venue_id :: "string \<Rightarrow> venue_order_id option" where
  "venue_id name = unwrap (inline_new 32 (lit name))"

subsection \<open>R1.14, the compound failure chain\<close>

definition r1_14_compound_failure_chain :: "unit option" where
  "r1_14_compound_failure_chain = do {
     ord \<leftarrow> scenario_order 10;
     assert_that (oc_state ord = Created);
     ord \<leftarrow> scenario_step ord SubmissionStarted;
     ord \<leftarrow> scenario_step ord SubmissionTimedOut;
     assert_that (oc_state ord = Unknown);
     assert_that (core_locks_instrument ord);
     assert_that (\<not> is_ok (transition ord SubmissionStarted));
     assert_that (\<not> is_ok (transition ord CancelRequested));
     v77 \<leftarrow> venue_id ''V-77'';
     ord \<leftarrow> scenario_step ord (ReconcileStarted SubmissionTimeout);
     ord \<leftarrow> scenario_step ord (ReconcileResolved Working (Some v77) e8_zero);
     assert_that (oc_state ord = Working);
     assert_that (oc_venue_order_id ord = Some v77);
     assert_that (\<not> core_locks_instrument ord);
     e1 \<leftarrow> scenario_fill ''E-1'' 3;
     ord \<leftarrow> scenario_step ord e1;
     e2 \<leftarrow> scenario_fill ''E-2'' 2;
     ord \<leftarrow> scenario_step ord e2;
     assert_that (oc_state ord = Partial);
     assert_that (oc_filled_qty ord = e8_whole 5);
     ord \<leftarrow> scenario_step ord CancelRequested;
     assert_that (oc_state ord = CancelPending);
     e3 \<leftarrow> scenario_fill ''E-3'' 2;
     ord \<leftarrow> scenario_step ord e3;
     assert_that (oc_state ord = CancelPending);
     assert_that (oc_filled_qty ord = e8_whole 7);
     rebuilt \<leftarrow> scenario_replay [SubmissionStarted, SubmissionTimedOut, ReconcileStarted SubmissionTimeout,
       ReconcileResolved Working (Some v77) e8_zero, e1, e2, CancelRequested, e3];
     assert_that (rebuilt = ord);
     ord \<leftarrow> scenario_step ord (ReconcileStarted PositionDisagreement);
     e4 \<leftarrow> scenario_fill ''E-4'' 1;
     ord \<leftarrow> scenario_step ord e4;
     assert_that (oc_state ord = Reconciling);
     ord \<leftarrow> scenario_step ord (ReconcileResolved Canceled (Some v77) (e8_whole 8));
     assert_that (oc_state ord = Canceled);
     assert_that (oc_filled_qty ord = e8_whole 8);
     assert_that (core_remaining_qty ord = e8_whole 2);
     assert_that (oc_qty ord = e8_whole 10);
     assert_that (\<not> core_locks_instrument ord) }"

subsection \<open>The other scenarios\<close>

definition replaying_the_same_events_twice_yields_the_same_order :: "unit option" where
  "replaying_the_same_events_twice_yields_the_same_order = do {
     v1 \<leftarrow> venue_id ''V-1'';
     e1 \<leftarrow> scenario_fill ''E-1'' 4;
     e2 \<leftarrow> scenario_fill ''E-2'' 6;
     let events = [SubmissionStarted, VenueAcked v1, e1, e2];
     once \<leftarrow> scenario_replay events;
     twice \<leftarrow> scenario_replay events;
     assert_that (once = twice);
     again \<leftarrow> scenario_replay events;
     assert_that (oc_state again = Filled) }"

definition r1_7_a_late_fill_reopens_rather_than_being_dropped :: "unit option" where
  "r1_7_a_late_fill_reopens_rather_than_being_dropped = do {
     v1 \<leftarrow> venue_id ''V-1'';
     e1 \<leftarrow> scenario_fill ''E-1'' 10;
     ord \<leftarrow> scenario_replay [SubmissionStarted, VenueAcked v1, e1];
     assert_that (oc_state ord = Filled);
     e2 \<leftarrow> scenario_fill ''E-2'' 1;
     err \<leftarrow> unwrap_err (transition ord e2);
     assert_that (needs_reconciliation err);
     assert_that (\<not> transition_is_integrity_violation err);
     ord \<leftarrow> scenario_step ord (ReconcileStarted LateFill);
     ord \<leftarrow> scenario_step ord (ReconcileResolved Filled (Some v1) (e8_whole 10));
     assert_that (oc_filled_qty ord = e8_whole 10) }"

definition r1_9_authorised_quantity_is_written_once :: "unit option" where
  "r1_9_authorised_quantity_is_written_once = do {
     v1 \<leftarrow> venue_id ''V-1'';
     e1 \<leftarrow> scenario_fill ''E-1'' 3;
     e2 \<leftarrow> scenario_fill ''E-2'' 2;
     ord \<leftarrow> scenario_replay [SubmissionStarted, VenueAcked v1, e1, CancelRequested, e2, CancelConfirmed];
     assert_that (oc_qty ord = e8_whole 10);
     c \<leftarrow> unwrap (inline_new 36 (lit ''SENT-R1-14''));
     assert_that (oc_client_order_id ord = c) }"

definition an_absurd_overfill_is_distinguishable_from_a_late_fill :: "unit option" where
  "an_absurd_overfill_is_distinguishable_from_a_late_fill = do {
     v1 \<leftarrow> venue_id ''V-1'';
     ord \<leftarrow> scenario_replay [SubmissionStarted, VenueAcked v1];
     e1 \<leftarrow> scenario_fill ''E-1'' 25;
     err \<leftarrow> unwrap_err (transition ord e1);
     assert_that (case err of Overfill _ _ _ \<Rightarrow> True | _ \<Rightarrow> False);
     assert_that (transition_is_integrity_violation err);
     assert_that (\<not> needs_reconciliation err) }"

subsection \<open>R1.3, the search\<close>

text \<open>One order of the frontier: every sample event applied to it, new states seen and pushed.\<close>

fun search_from :: "order_core \<Rightarrow> order_event list \<Rightarrow> order_state list \<Rightarrow> order_core list \<Rightarrow> (order_state list \<times> order_core list) option" where
  "search_from core [] seen frontier = Some (seen, frontier)"
| "search_from core (e # es) seen frontier =
     (case transition core e of
        Inl _ \<Rightarrow> search_from core es seen frontier
      | Inr nxt \<Rightarrow> do {
          assert_that (oc_state nxt \<noteq> Submitting);
          if oc_state nxt \<in> set seen then search_from core es seen frontier
          else search_from core es (seen @ [oc_state nxt]) (frontier @ [nxt]) })"

definition unseen :: "order_state list \<Rightarrow> nat" where
  "unseen seen = length (filter (\<lambda>s. s \<notin> set seen) (map fst order_state_table))"

lemma unseen_snoc: "s \<notin> set seen \<Longrightarrow> unseen (seen @ [s]) < unseen seen"
proof -
  assume s: "s \<notin> set seen"
  have "s \<in> fst ` set order_state_table" by (cases s) (simp_all add: order_state_table_def)
  then have "s \<in> set (filter (\<lambda>t. t \<notin> set seen) (map fst order_state_table))" using s by simp
  then have "length (filter (\<lambda>t. t \<noteq> s) (filter (\<lambda>t. t \<notin> set seen) (map fst order_state_table))) < unseen seen"
    unfolding unseen_def by (rule length_filter_less) simp
  then show ?thesis by (simp add: unseen_def conj_commute)
qed

lemma search_from_measure:
  "search_from core es seen frontier = Some (seen', frontier') \<Longrightarrow>
     length frontier' + unseen seen' \<le> length frontier + unseen seen"
  using unseen_snoc by (induction core es seen frontier rule: search_from.induct)
    (fastforce simp: assert_that_def split: sum.splits if_splits)+

function search :: "order_event list \<Rightarrow> order_state list \<Rightarrow> order_core list \<Rightarrow> order_state list option" where
  "search samples seen frontier =
     (if frontier = [] then Some seen
      else case search_from (last frontier) samples seen (butlast frontier) of
        None \<Rightarrow> None
      | Some (seen', frontier') \<Rightarrow> search samples seen' frontier')"
  by auto
termination
proof (relation "measure (\<lambda>(_, seen, frontier). length frontier + unseen seen)")
  fix samples :: "order_event list" and seen seen' frontier frontier' x
  assume "frontier \<noteq> []" "search_from (last frontier) samples seen (butlast frontier) = Some x" "(seen', frontier') = x"
  then show "((samples, seen', frontier'), samples, seen, frontier) \<in> measure (\<lambda>(_, seen, frontier). length frontier + unseen seen)"
    using search_from_measure [of "last frontier" samples seen "butlast frontier" seen' frontier']
    by (cases frontier rule: rev_cases) auto
qed simp

declare search.simps [simp del]

definition r1_3_nothing_resubmits_after_a_timeout :: "unit option" where
  "r1_3_nothing_resubmits_after_a_timeout = do {
     timed_out \<leftarrow> scenario_replay [SubmissionStarted, SubmissionTimedOut];
     assert_that (oc_state timed_out = Unknown);
     v1 \<leftarrow> venue_id ''V-1'';
     ex \<leftarrow> scenario_fill ''E-x'' 1;
     let samples = [SubmissionStarted, VenueAcked v1, SubmissionTimedOut, ex, CancelRequested, CancelConfirmed,
       ReconcileStarted LateFill, ReconcileResolved Working None e8_zero];
     seen \<leftarrow> search samples [oc_state timed_out] [timed_out];
     assert_that (length seen > 1) }"

subsection \<open>What the search finds in general\<close>

lemma left_created:
  assumes "transition core e = Inr nxt" "oc_state core \<noteq> Created"
  shows "oc_state nxt \<noteq> Created \<and> oc_state nxt \<noteq> Submitting"
proof -
  have "Submitting \<in> set (allowed s) \<Longrightarrow> s = Created" for s by (cases s) simp_all
  then show ?thesis using never_created_again [OF assms(1)] transition_permits [OF assms(1)] assms(2) by (auto simp: permits_iff)
qed

lemma search_from_succeeds:
  assumes "oc_state core \<noteq> Created" "\<forall>p \<in> set frontier. oc_state p \<noteq> Created"
  shows "\<exists>seen' frontier'. search_from core es seen frontier = Some (seen', frontier') \<and>
    (\<forall>p \<in> set frontier'. oc_state p \<noteq> Created) \<and> Submitting \<notin> set seen' - set seen \<and> set seen \<subseteq> set seen'"
  using assms
proof (induction es arbitrary: seen frontier)
  case (Cons e es)
  show ?case
  proof (cases "transition core e")
    case (Inr nxt)
    note nxt = left_created [OF Inr Cons.prems(1)]
    show ?thesis
    proof (cases "oc_state nxt \<in> set seen")
      case False
      have "\<forall>p \<in> set (frontier @ [nxt]). oc_state p \<noteq> Created" using Cons.prems nxt by simp
      from Cons.IH [OF Cons.prems(1) this, of "seen @ [oc_state nxt]"] show ?thesis
        using Inr nxt False by (auto simp: assert_that_def)
    qed (use Cons Inr nxt in \<open>simp add: assert_that_def\<close>)
  qed (use Cons in simp)
qed simp

lemma search_succeeds:
  "\<forall>p \<in> set frontier. oc_state p \<noteq> Created \<Longrightarrow>
     \<exists>seen'. search samples seen frontier = Some seen' \<and> Submitting \<notin> set seen' - set seen \<and> set seen \<subseteq> set seen'"
proof (induction samples seen frontier rule: search.induct)
  case (1 samples seen frontier)
  show ?case
  proof (cases "frontier = []")
    case False
    then have "oc_state (last frontier) \<noteq> Created" "\<forall>p \<in> set (butlast frontier). oc_state p \<noteq> Created"
      using "1.prems" by (auto dest: in_set_butlastD)
    from search_from_succeeds [OF this, of samples seen] obtain seen' frontier' where
      s: "search_from (last frontier) samples seen (butlast frontier) = Some (seen', frontier')"
        "\<forall>p \<in> set frontier'. oc_state p \<noteq> Created" "Submitting \<notin> set seen' - set seen" "set seen \<subseteq> set seen'" by blast
    from "1.IH" [OF False s(1) refl s(2)] obtain seen'' where
      "search samples seen' frontier' = Some seen''" "Submitting \<notin> set seen'' - set seen'" "set seen' \<subseteq> set seen''" by blast
    then show ?thesis using s False by (subst search.simps) auto
  qed (simp add: search.simps)
qed

subsection \<open>The chain of R1.14 for any split\<close>

lemma fills_pass:
  assumes "oc_state core \<in> {Working, Partial, CancelPending, Reconciling}" "list_all (\<lambda>(_, q, _). 0 < sint q) fs"
    "0 \<le> sint (oc_filled_qty core)" "sint (oc_filled_qty core) \<le> sint (oc_qty core)" "in_i64 (2 * sint (oc_qty core))"
    "sint (oc_filled_qty core) + (\<Sum>(_, q, _)\<leftarrow>fs. sint q) \<le> 2 * sint (oc_qty core)"
    "oc_state core \<noteq> Reconciling \<Longrightarrow> sint (oc_filled_qty core) + (\<Sum>(_, q, _)\<leftarrow>fs. sint q) < sint (oc_qty core)"
  shows "\<exists>p. step_all core (map (\<lambda>(x, q, pr). FillReceived x q pr) fs) = Some p \<and> same_identity core p \<and>
    oc_state p = (if fs = [] \<or> oc_state core \<in> {CancelPending, Reconciling} then oc_state core else Partial) \<and>
    sint (oc_filled_qty p) = min (sint (oc_filled_qty core) + (\<Sum>(_, q, _)\<leftarrow>fs. sint q)) (sint (oc_qty core))"
  using assms
proof (induction fs arbitrary: core)
  case Nil
  then show ?case by (simp add: same_identity_def)
next
  case (Cons f fs)
  obtain x q pr where f: "f = (x, q, pr)" by (cases f)
  have tail: "0 \<le> (\<Sum>(_, q, _)\<leftarrow>fs. sint q)" using Cons.prems(2) by (intro sum_list_nonneg) (auto simp: list_all_iff)
  obtain p where p: "transition core (FillReceived x q pr) = Inr p"
    using fill_accepted [of core q x pr] Cons.prems tail by (auto simp: f)
  note fp = fill_InrD [OF p [unfolded transition_fill]]
  have st: "oc_state p = (if oc_state core \<in> {CancelPending, Reconciling} then oc_state core else Partial)"
    using fp(5) Cons.prems(1,7) tail by (auto simp: f fill_target_def)
  have "\<exists>r. step_all p (map (\<lambda>(x, q, pr). FillReceived x q pr) fs) = Some r \<and> same_identity p r \<and>
    oc_state r = (if fs = [] \<or> oc_state p \<in> {CancelPending, Reconciling} then oc_state p else Partial) \<and>
    sint (oc_filled_qty r) = min (sint (oc_filled_qty p) + (\<Sum>(_, q, _)\<leftarrow>fs. sint q)) (sint (oc_qty p))"
    using Cons.prems fp(2,4,6) st tail by (intro Cons.IH) (auto simp: f same_identity_def)
  then show ?case
    using p fp(4,6) st tail by (auto simp: f scenario_step_def unwrap_def same_identity_def)
qed

definition fills_of :: "(exec_id \<times> qty \<times> price) list \<Rightarrow> order_event list" where
  "fills_of fs = map (\<lambda>(x, q, pr). FillReceived x q pr) fs"

definition total_of :: "(exec_id \<times> qty \<times> price) list \<Rightarrow> int" where
  "total_of fs = (\<Sum>(_, q, _)\<leftarrow>fs. sint q)"

lemma total_nonneg: "list_all (\<lambda>(_, q, _). 0 < sint q) fs \<Longrightarrow> 0 \<le> total_of fs"
  by (induction fs) (auto simp: total_of_def)

lemma step_all_append: "step_all core (es @ fs) = Option.bind (step_all core es) (\<lambda>p. step_all p fs)"
  by (induction es arbitrary: core) (auto split: bind_splits)

lemma chain_to_the_cancel:
  assumes "0 < sint Q" "in_i64 (2 * sint Q)" "list_all (\<lambda>(_, q, _). 0 < sint q) (fs @ gs)" "total_of fs + total_of gs < sint Q"
  shows "\<exists>p. step_all (created c i side Q) ([SubmissionStarted, SubmissionTimedOut, ReconcileStarted SubmissionTimeout,
        ReconcileResolved Working (Some v) e8_zero] @ fills_of fs @ [CancelRequested] @ fills_of gs) = Some p \<and>
      oc_state p = CancelPending \<and> sint (oc_filled_qty p) = total_of fs + total_of gs \<and> same_identity (created c i side Q) p"
proof -
  obtain ceiling where ceiling: "gross_ceiling Q = Inr ceiling" "sint ceiling = 2 * sint Q"
    using assms(2) gross_ceiling_Inl gross_ceiling_Inr by (cases "gross_ceiling Q") auto
  have nn: "0 \<le> total_of fs" "0 \<le> total_of gs" using assms(3) total_nonneg by auto
  let ?w = "(created c i side Q)\<lparr>oc_state := Working, oc_venue_order_id := Some v\<rparr>"
  have w: "step_all (created c i side Q) [SubmissionStarted, SubmissionTimedOut, ReconcileStarted SubmissionTimeout,
      ReconcileResolved Working (Some v) e8_zero] = Some ?w"
    using assms(1) ceiling
    by (simp add: scenario_step_def unwrap_def transition_def guard_def permits_iff created_def e8_is_negative_def e8_min_def)
  obtain p1 where p1: "step_all ?w (fills_of fs) = Some p1" "same_identity ?w p1" "oc_state p1 \<in> {Working, Partial}"
    "sint (oc_filled_qty p1) = total_of fs"
    using fills_pass [of ?w fs] assms nn by (auto simp: created_def fills_of_def total_of_def)
  have q1: "oc_qty p1 = Q" using p1(2) by (simp add: same_identity_def created_def)
  let ?p1 = "p1\<lparr>oc_state := CancelPending\<rparr>"
  have c1: "step_all p1 [CancelRequested] = Some ?p1"
    using p1(3) by (auto simp: scenario_step_def unwrap_def transition_def guard_def permits_iff)
  obtain p where p: "step_all ?p1 (fills_of gs) = Some p" "same_identity ?p1 p" "oc_state p = CancelPending"
    "sint (oc_filled_qty p) = total_of fs + total_of gs"
    using fills_pass [of ?p1 gs] assms nn p1(4) q1 by (auto simp: fills_of_def total_of_def)
  have "same_identity (created c i side Q) p" using p1(2) p(2) by (simp add: same_identity_def created_def)
  then show ?thesis using p(3,4) by (simp only: step_all_append w p1(1) c1 p(1) Option.bind.bind_lunit) simp
qed

lemma chain_to_the_end:
  assumes "oc_state p = CancelPending" "0 < sint (oc_qty p)" "in_i64 (2 * sint (oc_qty p))" "list_all (\<lambda>(_, q, _). 0 < sint q) hs"
    "0 \<le> sint (oc_filled_qty p)" "sint (oc_filled_qty p) \<le> sint (oc_qty p)" "sint (oc_filled_qty p) + total_of hs \<le> 2 * sint (oc_qty p)"
    "0 \<le> sint f" "sint f \<le> 2 * sint (oc_qty p)"
  shows "\<exists>r. step_all p ([ReconcileStarted PositionDisagreement] @ fills_of hs @ [ReconcileResolved Canceled (Some v) f]) = Some r \<and>
      oc_state r = Canceled \<and> sint (oc_filled_qty r) = min (sint f) (sint (oc_qty p)) \<and>
      sint (core_remaining_qty r) = sint (oc_qty p) - min (sint f) (sint (oc_qty p)) \<and> same_identity p r \<and>
      oc_venue_order_id r = Some v \<and> \<not> core_locks_instrument r"
proof -
  obtain ceiling where ceiling: "gross_ceiling (oc_qty p) = Inr ceiling" "sint ceiling = 2 * sint (oc_qty p)"
    using assms(3) gross_ceiling_Inl gross_ceiling_Inr by (cases "gross_ceiling (oc_qty p)") auto
  let ?p = "p\<lparr>oc_state := Reconciling\<rparr>"
  have s: "scenario_step p (ReconcileStarted PositionDisagreement) = Some ?p"
    using assms(1) by (simp add: scenario_step_def unwrap_def transition_def guard_def permits_iff)
  obtain r1 where r1: "step_all ?p (fills_of hs) = Some r1" "same_identity ?p r1" "oc_state r1 = Reconciling"
    using fills_pass [of ?p hs] assms by (auto simp: fills_of_def total_of_def)
  have q: "oc_qty r1 = oc_qty p" using r1(2) by (simp add: same_identity_def)
  obtain r where r: "transition r1 (ReconcileResolved Canceled (Some v) f) = Inr r" "oc_venue_order_id r = Some v"
    using r1(3) q ceiling assms(8,9) by (simp add: transition_def guard_def permits_iff e8_is_negative_def)
  note rr = resolve_InrD [OF r(1)]
  have "sint (core_remaining_qty r) = sint (oc_qty p) - min (sint f) (sint (oc_qty p))"
    using rr(5-7) q assms(2,8) by (subst sint_remaining) (auto simp: same_identity_def order_inv_def)
  moreover have "scenario_step r1 (ReconcileResolved Canceled (Some v) f) = Some r" using r(1) by (simp add: scenario_step_def unwrap_def)
  moreover have "same_identity p r" using r1(2) rr(6) by (simp add: same_identity_def)
  ultimately show ?thesis
    using r(2) rr q by (simp add: step_all_append s r1(1) core_locks_instrument_def state_locks_instrument_def)
qed

subsection \<open>Properties\<close>

text \<open>
  The specification scenarios hold. Each of the six scenarios, the compound failure chain of R1.14 and the search of
  R1.3 among them, runs to its end with every assertion true.
\<close>

theorem scenarios_hold:
  "r1_14_compound_failure_chain = Some () \<and> replaying_the_same_events_twice_yields_the_same_order = Some () \<and> r1_7_a_late_fill_reopens_rather_than_being_dropped = Some () \<and>
   r1_3_nothing_resubmits_after_a_timeout = Some () \<and> r1_9_authorised_quantity_is_written_once = Some () \<and> an_absurd_overfill_is_distinguishable_from_a_late_fill = Some ()"
proof (intro conjI)
  show "r1_14_compound_failure_chain = Some ()" by code_simp
  show "replaying_the_same_events_twice_yields_the_same_order = Some ()" by code_simp
  show "r1_7_a_late_fill_reopens_rather_than_being_dropped = Some ()" by code_simp
  show "r1_3_nothing_resubmits_after_a_timeout = Some ()" by code_simp
  show "r1_9_authorised_quantity_is_written_once = Some ()" by code_simp
  show "an_absurd_overfill_is_distinguishable_from_a_late_fill = Some ()" by code_simp
qed

text \<open>
  C22: the compound chain holds for any split. Take an order of any size that times out, is found working, is filled by any
  executions short of its size, is asked to be cancelled, filled further, then found to disagree with the venue while more
  executions arrive, and resolved as cancelled at the venue's quantity. Every step is accepted; when the cancel is pending
  the order carries the exact sum of its executions; at the end it is cancelled, filled by the venue's quantity up to
  its size, with the rest remaining, still the same order for the same size, and the instrument is released.
\<close>

theorem compound_chain_for_any_split:
  assumes "0 < sint Q" "in_i64 (2 * sint Q)" "list_all (\<lambda>(_, q, _). 0 < sint q) (fs @ gs @ hs)"
    "total_of fs + total_of gs < sint Q" "total_of fs + total_of gs + total_of hs \<le> 2 * sint Q" "0 \<le> sint f" "sint f \<le> 2 * sint Q"
  shows "\<exists>p r. step_all (created c i side Q) ([SubmissionStarted, SubmissionTimedOut, ReconcileStarted SubmissionTimeout,
        ReconcileResolved Working (Some v) e8_zero] @ fills_of fs @ [CancelRequested] @ fills_of gs) = Some p \<and>
      oc_state p = CancelPending \<and> sint (oc_filled_qty p) = total_of fs + total_of gs \<and>
      step_all p ([ReconcileStarted PositionDisagreement] @ fills_of hs @ [ReconcileResolved Canceled (Some v) f]) = Some r \<and>
      oc_state r = Canceled \<and> sint (oc_filled_qty r) = min (sint f) (sint Q) \<and>
      sint (core_remaining_qty r) = sint Q - min (sint f) (sint Q) \<and> same_identity (created c i side Q) r \<and>
      oc_venue_order_id r = Some v \<and> \<not> core_locks_instrument r"
proof -
  have all: "list_all (\<lambda>(_, q, _). 0 < sint q) (fs @ gs)" "list_all (\<lambda>(_, q, _). 0 < sint q) hs" using assms(3) by auto
  obtain p where p: "step_all (created c i side Q) ([SubmissionStarted, SubmissionTimedOut, ReconcileStarted SubmissionTimeout,
      ReconcileResolved Working (Some v) e8_zero] @ fills_of fs @ [CancelRequested] @ fills_of gs) = Some p"
    "oc_state p = CancelPending" "sint (oc_filled_qty p) = total_of fs + total_of gs" "same_identity (created c i side Q) p"
    using chain_to_the_cancel [OF assms(1,2) all(1) assms(4)] by blast
  have q: "oc_qty p = Q" using p(4) by (simp add: same_identity_def created_def)
  have "0 \<le> total_of fs + total_of gs" using total_nonneg [of fs] total_nonneg [of gs] all(1) by simp
  then obtain r where "step_all p ([ReconcileStarted PositionDisagreement] @ fills_of hs @ [ReconcileResolved Canceled (Some v) f]) = Some r"
    "oc_state r = Canceled" "sint (oc_filled_qty r) = min (sint f) (sint Q)"
    "sint (core_remaining_qty r) = sint Q - min (sint f) (sint Q)" "same_identity p r" "oc_venue_order_id r = Some v" "\<not> core_locks_instrument r"
    using chain_to_the_end [OF p(2) _ _ all(2), of f v] assms q p(3) by auto
  then show ?thesis using p by (intro exI [of _ p] exI [of _ r]) (simp add: same_identity_def)
qed

theorem compound_chain_for_any_split_witness:
  "\<exists>p r. step_all (created (inline_empty 36) (inline_empty 16) Sell 1000000000)
      [SubmissionStarted, SubmissionTimedOut, ReconcileStarted SubmissionTimeout, ReconcileResolved Working (Some (inline_empty 32)) e8_zero,
       FillReceived (inline_empty 40) 300000000 5, FillReceived (inline_empty 40) 200000000 5, CancelRequested,
       FillReceived (inline_empty 40) 200000000 5] = Some p \<and> sint (oc_filled_qty p) = 700000000 \<and>
     step_all p [ReconcileStarted PositionDisagreement, FillReceived (inline_empty 40) 100000000 5,
       ReconcileResolved Canceled (Some (inline_empty 32)) 800000000] = Some r \<and>
     oc_state r = Canceled \<and> sint (oc_filled_qty r) = 800000000 \<and> sint (core_remaining_qty r) = 200000000"
  using compound_chain_for_any_split [of 1000000000 "[(inline_empty 40, 300000000, 5), (inline_empty 40, 200000000, 5)]"
      "[(inline_empty 40, 200000000, 5)]" "[(inline_empty 40, 100000000, 5)]" 800000000 "inline_empty 36" "inline_empty 16" Sell "inline_empty 32"]
  by (fastforce simp: total_of_def fills_of_def in_i64_def i64_min_def i64_max_def)

text \<open>
  The search of R1.3 ends and succeeds from every order that has left \<open>CREATED\<close>, whatever events it tries: no chain of
  events leads back to \<open>SUBMITTING\<close>.
\<close>

theorem search_never_submits:
  assumes "oc_state start \<noteq> Created" "oc_state start \<noteq> Submitting"
  shows "\<exists>seen. search samples [oc_state start] [start] = Some seen \<and> Submitting \<notin> set seen"
  using search_succeeds [of "[start]" samples "[oc_state start]"] assms by auto

theorem search_never_submits_witness:
  "\<exists>seen. search [SubmissionStarted, CancelRequested] [Unknown]
     [(created (inline_empty 36) (inline_empty 16) Sell 5)\<lparr>oc_state := Unknown\<rparr>] = Some seen \<and> Submitting \<notin> set seen"
  using search_never_submits [of "(created (inline_empty 36) (inline_empty 16) Sell 5)\<lparr>oc_state := Unknown\<rparr>" "[SubmissionStarted, CancelRequested]"]
  by simp

end
