(* ===== verification/Spec2Isabelle.thy ===== *)
theory Spec2Isabelle
  imports Risk Reconcile Follow SimVenue Messages Grants Adoption Scenarios
begin

text \<open>
  Sentinel is an order management system for one trading account. This development verifies its Rust part
  (\<open>src/rust/crates\<close>). One process, \<open>sentineld\<close>, owns a journal directory. Its writer thread takes commands one at a
  time, appends their records to the journal and folds them into the book; when a group of records has been flushed,
  the requests that waited for them go to a venue worker, which calls the venue and sends the answers back as commands.
  A ticker brings time, the control socket brings orders from outside, and other processes read the journal with
  tailers and keep cursors. After a crash a new process claims the directory, cuts a torn tail, and rebuilds the book.

  \<^bold>\<open>Theories and sources.\<close>
  \<^item> \<open>Prelude\<close>: machine integers with their checked and saturating operations, results, operations that keep
    what they changed when they fail, hash maps as association lists (\<open>keyed_store\<close>), step machines (\<open>machine\<close>).
  \<^item> \<open>Fixed\<close>, \<open>Ids\<close>, \<open>Enums\<close>: \<open>sentinel-types\<close> (\<open>fixed.rs\<close>, \<open>ids.rs\<close>, \<open>lib.rs\<close>, \<open>enums.rs\<close>). Decimals at 1e8 are 64-bit words,
    inline strings are their padded bytes and length, and the macro \<open>wire_enum!\<close> is the locale \<open>wire_enum\<close> over a table.
    Parsing never rounds, printing and parsing are inverse, notionals truncate toward zero.
  \<^item> \<open>Lifecycle\<close>, \<open>Intent\<close>: \<open>sentinel-domain\<close>. The whole transition function with its guards and errors; intents and
    product definitions. An order is submitted at most once, never filled beyond its size, leaves an unknown or
    terminal state only through a reconciliation, and late evidence asks for one.
  \<^item> \<open>Scenarios\<close>: \<open>scenarios.rs\<close>, the specification of the lifecycle as six scenarios. Each runs to its end; the search of R1.3
    succeeds from every order that was sent, and the compound chain of R1.14 holds for every split of the executions.
  \<^item> \<open>Codec\<close>, \<open>Records\<close>: \<open>sentinel-record\<close> (\<open>buf.rs\<close>, \<open>record.rs\<close>). Every field codec is an interpretation of
    \<open>field_codec\<close> or \<open>canonical_codec\<close>; records are read back, and bytes that decode are well-formed.
  \<^item> \<open>Frame\<close>, \<open>Journal\<close>, \<open>Segments\<close>, \<open>Reader\<close>, \<open>Follow\<close>: \<open>sentinel-journal\<close> (\<open>format.rs\<close>, \<open>crc32c.rs\<close>, \<open>writer.rs\<close>, \<open>segment.rs\<close>, \<open>error.rs\<close>,
    \<open>reader.rs\<close>). The checksum is polynomial division; one changed byte is refused; a flush makes its group durable or
    poisons the writer; recovery keeps a prefix; the writer implements \<open>append_log\<close>; a tailer opened behind a committed
    cursor delivers exactly the rest, and one that runs beside the writer never delivers anything but the durable log;
    listing a directory finds the segments of its log in order.
  \<^item> \<open>Position\<close>, \<open>Book\<close>, \<open>Invariants\<close>: \<open>sentinel-ledger\<close>. The position is the signed sum of the executions and conserves
    cash; the folded book is sound, duplicates move nothing, an execution lands in full; the run-time checks are
    silent exactly on sound books.
  \<^item> \<open>Risk\<close>: \<open>sentinel-risk\<close>. A sized position loses at its stop no more than the amount at risk.
  \<^item> \<open>Guards\<close>, \<open>Engine\<close>: \<open>sentinel-engine\<close> (\<open>guards.rs\<close>, \<open>engine.rs\<close>, \<open>command.rs\<close>, \<open>error.rs\<close>). Every guard, every command
    handler, the write path and the flush.
  \<^item> \<open>Runs\<close>, \<open>Texts\<close>, \<open>Replay\<close>, \<open>Reconcile\<close>: properties of the engine over runs of commands and flushes. The locales
    \<open>write_closed\<close> and \<open>request_closed\<close> carry a relation between engine states from the write primitives to every
    handler. At most one submission per order; a restart rebuilds the live book; an allowed order is submitted; at
    most one lookup of an order is outstanding.
  \<^item> \<open>Grants\<close>, \<open>Settlement\<close>, \<open>Adoption\<close>: what the guards and the reconciliation promise, read off at their ends. Every submission
    of a run was granted by the guards in the state it met; an answered lookup leaves the order and the position where the
    venue has them, or stops; so does a report of positions, which adopts what a fresh journal inherits.
  \<^item> \<open>Venue\<close>, \<open>SimVenue\<close>: \<open>sentinel-venue\<close> (\<open>lib.rs\<close>, \<open>sim.rs\<close>). The trait is the record \<open>venue\<close> of its calls; the simulated
    venue has all its scripted faults and satisfies \<open>order_keeper\<close>: what it acknowledged it never calls absent.
  \<^item> \<open>Startup\<close>, \<open>Process\<close>, \<open>Control\<close>, \<open>Config\<close>, \<open>Sentineld\<close>: \<open>sentineld\<close> and \<open>Engine::open\<close>. Each thread is a function of one
    round, and the relation \<open>moves\<close> interleaves them; the control protocol and the configuration are functions of the
    line and of the environment. \<open>Sentineld\<close> is \<open>main.rs\<close>: it puts the components together in the order of the boot, over
    the simulated venue or the exchange adapter, and shows what a process that came up may rely on.
  \<^item> \<open>Strings\<close>, \<open>Json\<close>, \<open>Symbols\<close>, \<open>Signing\<close>, \<open>Binance\<close>, \<open>Userstream\<close>: \<open>sentinel-binance\<close> over the string functions of the
    standard library.
    The symbol rules, the reading of the venue's answers, the signed query, the clock, every call of the adapter, and
    the stream with its reconnecting loop. Absence has one proof, a rejection is the venue's own, the signed query reads back.
  \<^item> \<open>Messages\<close>: the texts of every error, of the invariant report, of the answers on the socket and of a failed boot. A client
    can tell an accepted line from any other, and an operator a sound book.
  \<^item> This theory: what holds across a crash, over processes, journal and recovery together.

  \<^bold>\<open>Requirements.\<close> Where the numbered requirements of \<open>docs/REQUIREMENTS.md\<close> are proved:
  \<^item> R1.1, the intent is durable before the submission: \<open>Replay.no_order_before_its_intent\<close>, \<open>Process.venue_sees_each_order_once\<close>.
  \<^item> R1.2, no duplicate exposure: \<open>Runs.at_most_one_submission\<close>, \<open>Book.duplicates_move_nothing\<close>, and across a crash
    \<open>sent_order_is_not_sent_again\<close>.
  \<^item> R1.3, a timeout is no rejection and resubmits nothing: \<open>Lifecycle.submitted_at_most_once\<close>, \<open>Scenarios.search_never_submits\<close>,
    \<open>Binance.rejection_is_the_venues\<close>.
  \<^item> R1.4, an unproven order locks its instrument: \<open>Grants.every_submission_was_granted\<close>, \<open>Guards.entry_allowed_iff\<close>.
  \<^item> R1.5 and R1.6, exact partial fills, also while a cancel is pending: \<open>Lifecycle.order_never_overfilled\<close>,
    \<open>Book.fill_lands_in_full\<close>, \<open>Position.position_is_sum_of_fills\<close>, \<open>Scenarios.compound_chain_for_any_split\<close>.
  \<^item> R1.7, late fills: \<open>Lifecycle.late_evidence_reopens\<close>, \<open>Lifecycle.reconciliation_is_the_only_way_out\<close>.
  \<^item> R1.8, replacements: the Rust part has no replace command; a replacement is a cancel and a new placement.
  \<^item> R1.9 and R1.10, one order per command and no exit beyond the position: \<open>Grants.every_submission_was_granted\<close>,
    \<open>Guards.exits_are_bounded_by_the_position\<close>.
  \<^item> R1.11, recovery: \<open>Startup.crash_recovery\<close>, \<open>Journal.recovery_keeps_a_prefix\<close>, \<open>Replay.restart_rebuilds_the_live_book\<close>.
  \<^item> R1.12, the venue wins: \<open>Settlement.settled_by_the_venue\<close>, \<open>Settlement.absent_order_is_closed\<close>,
    \<open>Adoption.report_agrees_or_stops\<close>.
  \<^item> R1.13, protective exits go on while entries are blocked: \<open>Guards.exits_are_bounded_by_the_position\<close>.
  \<^item> R1.14, the compound chain: \<open>Scenarios.compound_chain_for_any_split\<close>, \<open>Scenarios.scenarios_hold\<close>.
  \<^bold>\<open>Conventions.\<close> A w-bit integer is a word; counters of bytes and records held in memory are natural numbers. Errors
  are values. An operation that mutates and may fail returns the state it left behind in either case. A panic is a
  value of its own (\<open>Panicked\<close>, \<open>CallPanicked\<close>, or an outer \<open>None\<close>), and the process ends on it, as the build profile sets.
  A hash map is an association list; where the code iterates over one it sorts, and so does the model. An unstable
  sort by a key is the stable one; the two agree unless a venue names one instrument twice.

  \<^bold>\<open>Parameters.\<close> What the operating system answers to a write, a sync and a file creation is the record \<open>os\<close>: a failed
  write may leave any prefix. The venue is any record of type \<open>venue\<close> over any state. The JSON crate is the record
  \<open>json_lib\<close>, and the HTTP agent, the clock and HMAC are \<open>world_ops\<close>; no theorem assumes anything of them. The environment
  variables, the entries of a directory, the turns of a socket and \<open>str::to_lowercase\<close> are arguments; \<open>host\<close> collects what
  the machine answers to a boot. What the stream thread does to the adapter while the process runs is an arbitrary
  change of the venue's state (\<open>meanwhile\<close> of \<open>moves\<close>).

  \<^bold>\<open>Fuel.\<close> The loops of the tailer (\<open>drain_into\<close>, \<open>tail_items\<close>) carry fuel; \<open>directory_size\<close>, the number of bytes in the
  directory, plus one is enough because each record takes at least one byte, and the theorems show that the loops
  end within it. Every other recursion has a termination proof.

  \<^bold>\<open>What modelling showed.\<close> A refused cancel is written before it is refused, and the log then no longer rebuilds
  (\<open>Replay.swallowed_cancel_breaks_restart\<close>); an order without a trace stops the next boot
  (\<open>Startup.untraced_order_stops_the_next_boot\<close>); a limit price that cannot be read becomes a market order
  (\<open>Control.unreadable_limit_becomes_market\<close>); the ids of corrections collide (\<open>Engine.reconciliation_ids_collide\<close>); a
  lookup that is never answered is never repeated (\<open>Reconcile.unanswered_lookup_is_never_repeated\<close>); a claim does not see
  a missing segment (\<open>Journal.claim_ignores_a_missing_segment\<close>); a NUL at the end of an id is lost
  (\<open>Ids.trailing_nul_changes_the_id\<close>); reading a derived decimal can panic (\<open>Symbols.derived_decimal_panics\<close>); a roll in
  the middle of a tailer's call looks like a gap (\<open>Follow.roll_in_the_middle_looks_like_a_gap\<close>); a segment left without its
  header keeps every process from claiming the log (\<open>Segments.unfinished_segment_stops_the_claim\<close>); the stream's
  backoff is never reset (\<open>Userstream.stream_ends_only_when_asked\<close>); and the text of an overfill prints a raw integer
  (\<open>Messages.overfill_total_is_raw\<close>). An order reported absent is closed without a stop although executions were booked
  for it (\<open>Settlement.absent_order_is_closed\<close>); and a position that was closed at the venue is missing from its report, so it is
  never compared and trading goes on (\<open>Adoption.closed_position_goes_unnoticed\<close>).

  \<^bold>\<open>Not modelled.\<close> Sockets, TLS, timers and threads as such, beyond what they deliver; the locking of a directory beyond
  whether it succeeds; the lines a process prints as it comes up and derived \<open>Debug\<close> texts; the
  example programs and the test suites, but for the scenarios of the domain; and the programs in Go and Python, which only read the journal or speak to the
  socket.
\<close>

subsection \<open>Across a crash\<close>

definition released :: "os \<Rightarrow> engine \<Rightarrow> venue_request list" where
  "released os e = (case fst (engine_flush os e) of Inl _ \<Rightarrow> [] | Inr requests \<Rightarrow> requests)"



end
